(* ===== verification/Imago_Errors.thy ===== *)
theory Imago_Errors
  imports Imago_Prelude
begin

text \<open>
  The error values every component returns: the wire error codes and structured errors of
  \<^verbatim>\<open>imago-protocol/src/error.rs\<close>, the daemon's \<open>ImagodError\<close> of
  \<^verbatim>\<open>imagod-common\<close>, and the field validators of \<^verbatim>\<open>imago-protocol/src/validate.rs\<close>
  with the exact condition each of them accepts.
\<close>

section \<open>Error values\<close>

datatype ErrorCode =
    Unauthorized
  | BadRequest
  | BadManifest
  | Busy
  | NotFound
  | Internal
  | IdempotencyConflict
  | RangeInvalid
  | ChunkHashMismatch
  | ArtifactIncomplete
  | PreconditionFailed
  | OperationTimeout
  | RollbackFailed
  | StorageQuota

record StructuredError =
  se_code :: ErrorCode
  se_message :: string
  se_retryable :: bool
  se_stage :: string
  se_details :: "(string, string) btree"

record ImagodError =
  err_code :: ErrorCode
  err_stage :: string
  err_message :: string
  err_retryable :: bool
  err_details :: "(string, string) btree"

type_synonym 'a result = "ImagodError + 'a"

definition new_error :: "ErrorCode \<Rightarrow> string \<Rightarrow> string \<Rightarrow> ImagodError" where
  "new_error code stage message =
     \<lparr>err_code = code, err_stage = stage, err_message = message, err_retryable = False,
      err_details = []\<rparr>"

definition bad_request :: "string \<Rightarrow> string \<Rightarrow> ImagodError" where
  "bad_request stage message = new_error BadRequest stage message"

definition insert_detail :: "(string, string) btree \<Rightarrow> string \<Rightarrow> string \<Rightarrow> (string, string) btree" where
  "insert_detail details key value = bt_insert key value details"

definition with_retryable :: "ImagodError \<Rightarrow> bool \<Rightarrow> ImagodError" where
  "with_retryable e retryable = e\<lparr>err_retryable := retryable\<rparr>"

definition with_detail :: "ImagodError \<Rightarrow> string \<Rightarrow> string \<Rightarrow> ImagodError" where
  "with_detail e key value = e\<lparr>err_details := insert_detail (err_details e) key value\<rparr>"

definition to_structured :: "ImagodError \<Rightarrow> StructuredError" where
  "to_structured e =
     \<lparr>se_code = err_code e, se_message = err_message e, se_retryable = err_retryable e,
      se_stage = err_stage e, se_details = err_details e\<rparr>"

section \<open>Validation errors and field validators\<close>

record ValidationError =
  ve_field :: string
  ve_message :: string

definition ve_new :: "string \<Rightarrow> string \<Rightarrow> ValidationError" where
  "ve_new field message = \<lparr>ve_field = field, ve_message = message\<rparr>"

definition ve_missing :: "string \<Rightarrow> ValidationError" where
  "ve_missing field = ve_new field ''missing required value''"

definition ve_empty :: "string \<Rightarrow> ValidationError" where
  "ve_empty field = ve_new field ''must not be empty''"

definition ve_invalid :: "string \<Rightarrow> string \<Rightarrow> ValidationError" where
  "ve_invalid field message = ve_new field message"

definition ve_display :: "ValidationError \<Rightarrow> string" where
  "ve_display e = ''invalid `'' @ ve_field e @ ''`: '' @ ve_message e"

type_synonym validation = "ValidationError + unit"

definition ensure_non_empty :: "string \<Rightarrow> string \<Rightarrow> validation" where
  "ensure_non_empty value field =
     (if trim_is_empty value then Inl (ve_empty field) else Inr ())"

fun ensure_required_strings :: "(string \<times> string) list \<Rightarrow> validation" where
  "ensure_required_strings [] = Inr ()"
| "ensure_required_strings ((value, field) # items) =
     and_then (ensure_non_empty value field) (\<lambda>_. ensure_required_strings items)"

definition ensure_uuid_not_nil :: "uuid \<Rightarrow> string \<Rightarrow> validation" where
  "ensure_uuid_not_nil value field =
     (if value = 0 then Inl (ve_invalid field ''must not be nil UUID'') else Inr ())"

definition ensure_positive_u64 :: "u64 \<Rightarrow> string \<Rightarrow> validation" where
  "ensure_positive_u64 value field =
     (if value = 0 then Inl (ve_invalid field ''must be greater than zero'') else Inr ())"

text \<open>The loop \<open>for x in xs { x.validate()?; }\<close> that validates every element of a list.\<close>

fun validate_each :: "('a \<Rightarrow> validation) \<Rightarrow> 'a list \<Rightarrow> validation" where
  "validate_each validate [] = Inr ()"
| "validate_each validate (x # xs) = and_then (validate x) (\<lambda>_. validate_each validate xs)"

definition validate_structured_error :: "StructuredError \<Rightarrow> validation" where
  "validate_structured_error e =
     ensure_required_strings [(se_message e, ''message''), (se_stage e, ''stage'')]"

lemma ensure_non_empty_ok [validate_simps]:
  "ensure_non_empty value field = Inr u \<longleftrightarrow> \<not> trim_is_empty value"
  by (simp add: ensure_non_empty_def)

lemma ensure_required_strings_ok [validate_simps]:
  "ensure_required_strings items = Inr u \<longleftrightarrow> list_all (\<lambda>(value, _). \<not> trim_is_empty value) items"
  by (induction items rule: ensure_required_strings.induct) (simp_all add: ensure_non_empty_ok)

lemma ensure_uuid_not_nil_ok [validate_simps]:
  "ensure_uuid_not_nil value field = Inr u \<longleftrightarrow> value \<noteq> 0"
  by (simp add: ensure_uuid_not_nil_def)

lemma ensure_positive_u64_ok [validate_simps]:
  "ensure_positive_u64 value field = Inr u \<longleftrightarrow> 0 < unat value"
  by (simp add: ensure_positive_u64_def unat_gt_0)

lemma validate_each_ok [validate_simps]:
  "validate_each validate xs = Inr u \<longleftrightarrow> (\<forall>x \<in> set xs. validate x = Inr ())"
  by (induction xs) auto

lemma validate_structured_error_ok [validate_simps]:
  "validate_structured_error e = Inr u \<longleftrightarrow>
     \<not> trim_is_empty (se_message e) \<and> \<not> trim_is_empty (se_stage e)"
  by (simp add: validate_structured_error_def validate_simps)

text \<open>
  The first blank field of the list is the one reported, so a caller learns the leftmost
  field it has to fill in.
\<close>

lemma ensure_required_strings_first_blank:
  assumes "list_all (\<lambda>(value, _). \<not> trim_is_empty value) before" and "trim_is_empty value"
  shows "ensure_required_strings (before @ (value, field) # rest) = Inl (ve_empty field)"
  using assms
  by (induction "before" rule: ensure_required_strings.induct)
    (simp_all add: ensure_non_empty_def)

end
