(* ===== verification/Protocol_Messages.thy ===== *)
theory Protocol_Messages
  imports Imago_Errors
begin

text \<open>
  The payloads of \<^verbatim>\<open>imago-protocol/src/messages\<close> and the common envelope, one record or
  datatype per Rust type, each with its \<open>validate\<close>. A validator is the interface between
  the wire and the daemon: the locale \<open>validated_payload\<close> states what a handler may rely
  on, and every request payload interprets it.
\<close>

section \<open>Artifact transfer (messages/artifact.rs)\<close>

datatype ArtifactStatus = Missing | Partial | Complete

record ByteRange =
  br_offset :: u64
  br_length :: u64

definition validate_ByteRange :: "ByteRange \<Rightarrow> validation" where
  "validate_ByteRange r = ensure_positive_u64 (br_length r) ''length''"

record DeployPrepareRequest =
  dpr_name :: string
  dpr_app_type :: string
  dpr_target :: "(string, string) btree"
  dpr_artifact_digest :: string
  dpr_artifact_size :: u64
  dpr_manifest_digest :: string
  dpr_idempotency_key :: string
  dpr_policy :: "(string, string) btree"

definition validate_DeployPrepareRequest :: "DeployPrepareRequest \<Rightarrow> validation" where
  "validate_DeployPrepareRequest r =
     and_then (ensure_required_strings
         [(dpr_name r, ''name''), (dpr_app_type r, ''type''),
          (dpr_artifact_digest r, ''artifact_digest''),
          (dpr_manifest_digest r, ''manifest_digest''),
          (dpr_idempotency_key r, ''idempotency_key'')])
       (\<lambda>_. ensure_positive_u64 (dpr_artifact_size r) ''artifact_size'')"

record DeployPrepareResponse =
  dpp_deploy_id :: string
  dpp_artifact_status :: ArtifactStatus
  dpp_missing_ranges :: "ByteRange list"
  dpp_upload_token :: string
  dpp_session_expires_at :: string

definition validate_DeployPrepareResponse :: "DeployPrepareResponse \<Rightarrow> validation" where
  "validate_DeployPrepareResponse r =
     and_then (ensure_required_strings
         [(dpp_deploy_id r, ''deploy_id''), (dpp_upload_token r, ''upload_token''),
          (dpp_session_expires_at r, ''session_expires_at'')])
       (\<lambda>_. if dpp_artifact_status r = Partial \<and> dpp_missing_ranges r = []
            then Inl (ve_missing ''missing_ranges'')
            else validate_each validate_ByteRange (dpp_missing_ranges r))"

record ArtifactPushChunkHeader =
  aph_deploy_id :: string
  aph_offset :: u64
  aph_length :: u64
  aph_chunk_sha256 :: string
  aph_upload_token :: string

definition validate_ArtifactPushChunkHeader :: "ArtifactPushChunkHeader \<Rightarrow> validation" where
  "validate_ArtifactPushChunkHeader h =
     and_then (ensure_required_strings
         [(aph_deploy_id h, ''deploy_id''), (aph_chunk_sha256 h, ''chunk_sha256''),
          (aph_upload_token h, ''upload_token'')])
       (\<lambda>_. ensure_positive_u64 (aph_length h) ''length'')"

record ArtifactPushRequest =
  apr_header :: ArtifactPushChunkHeader
  apr_chunk :: bytes

definition validate_ArtifactPushRequest :: "ArtifactPushRequest \<Rightarrow> validation" where
  "validate_ArtifactPushRequest r =
     and_then (validate_ArtifactPushChunkHeader (apr_header r))
       (\<lambda>_. if apr_chunk r = [] then Inl (ve_empty ''chunk'') else Inr ())"

record ArtifactPushAck =
  apa_received_ranges :: "ByteRange list"
  apa_next_missing_range :: "ByteRange option"
  apa_accepted_bytes :: u64

definition validate_ArtifactPushAck :: "ArtifactPushAck \<Rightarrow> validation" where
  "validate_ArtifactPushAck a =
     and_then (validate_each validate_ByteRange (apa_received_ranges a))
       (\<lambda>_. case apa_next_missing_range a of
            Some r \<Rightarrow> validate_ByteRange r
          | None \<Rightarrow> Inr ())"

record ArtifactCommitRequest =
  acr_deploy_id :: string
  acr_artifact_digest :: string
  acr_artifact_size :: u64
  acr_manifest_digest :: string

definition validate_ArtifactCommitRequest :: "ArtifactCommitRequest \<Rightarrow> validation" where
  "validate_ArtifactCommitRequest r =
     and_then (ensure_required_strings
         [(acr_deploy_id r, ''deploy_id''), (acr_artifact_digest r, ''artifact_digest''),
          (acr_manifest_digest r, ''manifest_digest'')])
       (\<lambda>_. ensure_positive_u64 (acr_artifact_size r) ''artifact_size'')"

record ArtifactCommitResponse =
  acp_artifact_id :: string
  acp_verified :: bool

definition validate_ArtifactCommitResponse :: "ArtifactCommitResponse \<Rightarrow> validation" where
  "validate_ArtifactCommitResponse r = ensure_non_empty (acp_artifact_id r) ''artifact_id''"

section \<open>Command lifecycle (messages/command.rs)\<close>

datatype CommandType = CT_Deploy | CT_Run | CT_Stop

datatype CommandEventType = Ev_Accepted | Ev_Progress | Ev_Succeeded | Ev_Failed | Ev_Canceled

datatype CommandState = St_Accepted | St_Running | St_Succeeded | St_Failed | St_Canceled

record DeployCommandPayload =
  dcp_deploy_id :: string
  dcp_expected_current_release :: string
  dcp_restart_policy :: string
  dcp_auto_rollback :: bool

definition validate_DeployCommandPayload :: "DeployCommandPayload \<Rightarrow> validation" where
  "validate_DeployCommandPayload p =
     ensure_required_strings
       [(dcp_deploy_id p, ''deploy_id''),
        (dcp_expected_current_release p, ''expected_current_release''),
        (dcp_restart_policy p, ''restart_policy'')]"

record RunCommandPayload =
  rcp_name :: string

definition validate_RunCommandPayload :: "RunCommandPayload \<Rightarrow> validation" where
  "validate_RunCommandPayload p = ensure_non_empty (rcp_name p) ''name''"

record StopCommandPayload =
  scp_name :: string
  scp_force :: bool

definition validate_StopCommandPayload :: "StopCommandPayload \<Rightarrow> validation" where
  "validate_StopCommandPayload p = ensure_non_empty (scp_name p) ''name''"

datatype CommandPayload =
    CP_Deploy DeployCommandPayload
  | CP_Stop StopCommandPayload
  | CP_Run RunCommandPayload

fun validate_CommandPayload :: "CommandPayload \<Rightarrow> validation" where
  "validate_CommandPayload (CP_Deploy payload) = validate_DeployCommandPayload payload"
| "validate_CommandPayload (CP_Run payload) = validate_RunCommandPayload payload"
| "validate_CommandPayload (CP_Stop payload) = validate_StopCommandPayload payload"

record CommandStartRequest =
  csr_request_id :: uuid
  csr_command_type :: CommandType
  csr_payload :: CommandPayload

definition validate_CommandStartRequest :: "CommandStartRequest \<Rightarrow> validation" where
  "validate_CommandStartRequest r =
     and_then (ensure_uuid_not_nil (csr_request_id r) ''request_id'')
       (\<lambda>_. case (csr_command_type r, csr_payload r) of
            (CT_Deploy, CP_Deploy payload) \<Rightarrow> validate_DeployCommandPayload payload
          | (CT_Run, CP_Run payload) \<Rightarrow> validate_RunCommandPayload payload
          | (CT_Stop, CP_Stop payload) \<Rightarrow> validate_StopCommandPayload payload
          | _ \<Rightarrow> Inl (ve_invalid ''payload'' ''payload does not match command_type''))"

record CommandEvent =
  ce_event_type :: CommandEventType
  ce_request_id :: uuid
  ce_command_type :: CommandType
  ce_timestamp :: string
  ce_stage :: "string option"
  ce_error :: "StructuredError option"

definition validate_CommandEvent :: "CommandEvent \<Rightarrow> validation" where
  "validate_CommandEvent e =
     and_then (ensure_uuid_not_nil (ce_request_id e) ''request_id'') (\<lambda>_.
     and_then (ensure_non_empty (ce_timestamp e) ''timestamp'') (\<lambda>_.
     and_then
       (if ce_event_type e = Ev_Progress
        then (case ce_stage e of
                 None \<Rightarrow> Inl (ve_missing ''stage'')
               | Some stage \<Rightarrow> ensure_non_empty stage ''stage'')
        else Inr ()) (\<lambda>_.
       if ce_event_type e = Ev_Failed
       then (case ce_error e of
                None \<Rightarrow> Inl (ve_missing ''error'')
              | Some err \<Rightarrow> validate_structured_error err)
       else Inr ())))"

record StateRequest =
  srq_request_id :: uuid

definition validate_StateRequest :: "StateRequest \<Rightarrow> validation" where
  "validate_StateRequest r = ensure_uuid_not_nil (srq_request_id r) ''request_id''"

record StateResponse =
  srs_request_id :: uuid
  srs_state :: CommandState
  srs_stage :: string
  srs_updated_at :: string

definition validate_StateResponse :: "StateResponse \<Rightarrow> validation" where
  "validate_StateResponse r =
     and_then (ensure_uuid_not_nil (srs_request_id r) ''request_id'') (\<lambda>_.
     and_then
       (case srs_state r of
          St_Accepted \<Rightarrow> Inr ()
        | St_Running \<Rightarrow> Inr ()
        | _ \<Rightarrow> Inl (ve_invalid ''state'' ''terminal states are not allowed for state.response''))
       (\<lambda>_. ensure_required_strings
              [(srs_stage r, ''stage''), (srs_updated_at r, ''updated_at'')]))"

record CommandCancelRequest =
  ccr_request_id :: uuid

definition validate_CommandCancelRequest :: "CommandCancelRequest \<Rightarrow> validation" where
  "validate_CommandCancelRequest r = ensure_uuid_not_nil (ccr_request_id r) ''request_id''"

record CommandCancelResponse =
  ccp_cancellable :: bool
  ccp_final_state :: CommandState

section \<open>Handshake, logs, RPC, services and bindings\<close>

record HelloNegotiateRequest =
  hnr_client_version :: string
  hnr_required_features :: "string list"

definition validate_HelloNegotiateRequest :: "HelloNegotiateRequest \<Rightarrow> validation" where
  "validate_HelloNegotiateRequest r =
     ensure_required_strings [(hnr_client_version r, ''client_version'')]"

record HelloNegotiateResponse =
  hnp_accepted :: bool
  hnp_server_version :: string
  hnp_server_protocol_version :: string
  hnp_supported_protocol_version_range :: string
  hnp_compatibility_announcement :: "string option"
  hnp_features :: "string list"
  hnp_limits :: "(string, string) btree"

definition validate_HelloNegotiateResponse :: "HelloNegotiateResponse \<Rightarrow> validation" where
  "validate_HelloNegotiateResponse r =
     and_then (ensure_non_empty (hnp_server_version r) ''server_version'') (\<lambda>_.
     and_then (ensure_non_empty (hnp_server_protocol_version r) ''server_protocol_version'') (\<lambda>_.
     and_then (ensure_non_empty (hnp_supported_protocol_version_range r)
                 ''supported_protocol_version_range'') (\<lambda>_.
       case hnp_compatibility_announcement r of
         Some announcement \<Rightarrow> ensure_non_empty announcement ''compatibility_announcement''
       | None \<Rightarrow> Inr ())))"

record LogRequest =
  lrq_name :: "string option"
  lrq_follow :: bool
  lrq_tail_lines :: u32
  lrq_with_timestamp :: bool

definition validate_LogRequest :: "LogRequest \<Rightarrow> validation" where
  "validate_LogRequest r =
     (case lrq_name r of Some name \<Rightarrow> ensure_non_empty name ''name'' | None \<Rightarrow> Inr ())"

datatype LogStreamKind = LS_Stdout | LS_Stderr | LS_Composite

record LogChunk =
  lc_request_id :: uuid
  lc_seq :: u64
  lc_name :: string
  lc_stream_kind :: LogStreamKind
  lc_bytes :: bytes
  lc_is_last :: bool
  lc_timestamp_unix_ms :: "u64 option"

definition validate_LogChunk :: "LogChunk \<Rightarrow> validation" where
  "validate_LogChunk c =
     and_then (ensure_uuid_not_nil (lc_request_id c) ''request_id'')
       (\<lambda>_. ensure_non_empty (lc_name c) ''name'')"

datatype LogErrorCode = ProcessNotFound | ProcessNotRunning | PermissionDenied | LogInternal

record LogError =
  le_code :: LogErrorCode
  le_message :: string

definition validate_LogError :: "LogError \<Rightarrow> validation" where
  "validate_LogError e = ensure_non_empty (le_message e) ''message''"

record LogEnd =
  lend_request_id :: uuid
  lend_seq :: u64
  lend_error :: "LogError option"

definition validate_LogEnd :: "LogEnd \<Rightarrow> validation" where
  "validate_LogEnd e =
     and_then (ensure_uuid_not_nil (lend_request_id e) ''request_id'')
       (\<lambda>_. case lend_error e of Some err \<Rightarrow> validate_LogError err | None \<Rightarrow> Inr ())"

record RpcInvokeRequest =
  rir_interface_id :: string
  rir_function :: string
  rir_args_cbor :: bytes
  rir_target_service_name :: string

definition validate_RpcInvokeRequest :: "RpcInvokeRequest \<Rightarrow> validation" where
  "validate_RpcInvokeRequest r =
     and_then (ensure_non_empty (rir_interface_id r) ''interface_id'') (\<lambda>_.
     and_then (ensure_non_empty (rir_function r) ''function'') (\<lambda>_.
       ensure_non_empty (rir_target_service_name r) ''target_service.name''))"

record RpcInvokeError =
  rie_code :: ErrorCode
  rie_stage :: string
  rie_message :: string

definition validate_RpcInvokeError :: "RpcInvokeError \<Rightarrow> validation" where
  "validate_RpcInvokeError e =
     ensure_required_strings [(rie_stage e, ''error.stage''), (rie_message e, ''error.message'')]"

record RpcInvokeResponse =
  rip_result_cbor :: "bytes option"
  rip_error :: "RpcInvokeError option"

definition rpc_from_result :: "bytes \<Rightarrow> RpcInvokeResponse" where
  "rpc_from_result result_cbor = \<lparr>rip_result_cbor = Some result_cbor, rip_error = None\<rparr>"

definition rpc_from_error :: "ErrorCode \<Rightarrow> string \<Rightarrow> string \<Rightarrow> RpcInvokeResponse" where
  "rpc_from_error code stage message =
     \<lparr>rip_result_cbor = None,
      rip_error = Some \<lparr>rie_code = code, rie_stage = stage, rie_message = message\<rparr>\<rparr>"

definition validate_RpcInvokeResponse :: "RpcInvokeResponse \<Rightarrow> validation" where
  "validate_RpcInvokeResponse r =
     (case (rip_result_cbor r, rip_error r) of
        (Some _, None) \<Rightarrow> Inr ()
      | (None, Some err) \<Rightarrow> validate_RpcInvokeError err
      | (Some _, Some _) \<Rightarrow>
          Inl (ve_invalid ''response'' ''result_cbor and error are mutually exclusive'')
      | (None, None) \<Rightarrow> Inl (ve_missing ''result_cbor or error''))"

record ServiceListRequest =
  slr_names :: "string list option"

fun validate_names :: "string set \<Rightarrow> string list \<Rightarrow> validation" where
  "validate_names seen [] = Inr ()"
| "validate_names seen (name # names) =
     (if trim_is_empty name then Inl (ve_empty ''names'')
      else if name \<in> seen then Inl (ve_invalid ''names'' ''must not contain duplicates'')
      else validate_names (insert name seen) names)"

definition validate_ServiceListRequest :: "ServiceListRequest \<Rightarrow> validation" where
  "validate_ServiceListRequest r =
     (case slr_names r of None \<Rightarrow> Inr () | Some names \<Rightarrow> validate_names {} names)"

datatype ServiceState = Svc_Running | Svc_Stopping | Svc_Stopped

record ServiceStatusEntry =
  sse_name :: string
  sse_release_hash :: string
  sse_started_at :: string
  sse_state :: ServiceState

definition validate_ServiceStatusEntry :: "ServiceStatusEntry \<Rightarrow> validation" where
  "validate_ServiceStatusEntry e =
     and_then (ensure_required_strings
         [(sse_name e, ''services.name''), (sse_release_hash e, ''services.release_hash'')])
       (\<lambda>_. case sse_state e of
            Svc_Stopped \<Rightarrow> Inr ()
          | _ \<Rightarrow> ensure_non_empty (sse_started_at e) ''services.started_at'')"

definition validate_ServiceListResponse :: "ServiceStatusEntry list \<Rightarrow> validation" where
  "validate_ServiceListResponse services = validate_each validate_ServiceStatusEntry services"

record BindingsCertUploadRequest =
  bcu_public_key_hex :: string
  bcu_authority :: string

definition validate_BindingsCertUploadRequest :: "BindingsCertUploadRequest \<Rightarrow> validation" where
  "validate_BindingsCertUploadRequest r =
     ensure_required_strings
       [(bcu_public_key_hex r, ''public_key_hex''), (bcu_authority r, ''authority'')]"

section \<open>Message types and the envelope\<close>

datatype MessageType =
    HelloNegotiate
  | DeployPrepare
  | ArtifactPush
  | ArtifactCommit
  | CommandStart
  | MT_CommandEvent
  | MT_StateRequest
  | MT_StateResponse
  | ServicesList
  | CommandCancel
  | LogsRequest
  | LogsChunk
  | LogsEnd
  | RpcInvoke
  | BindingsCertInspect
  | BindingsCertUpload

record 'p ProtocolEnvelope =
  env_message_type :: MessageType
  env_request_id :: uuid
  env_correlation_id :: uuid
  env_payload :: 'p
  env_error :: "StructuredError option"

definition envelope_new :: "MessageType \<Rightarrow> uuid \<Rightarrow> uuid \<Rightarrow> 'p \<Rightarrow> 'p ProtocolEnvelope" where
  "envelope_new message_type request_id correlation_id payload =
     \<lparr>env_message_type = message_type, env_request_id = request_id,
      env_correlation_id = correlation_id, env_payload = payload, env_error = None\<rparr>"

definition validate_envelope :: "('p \<Rightarrow> validation) \<Rightarrow> 'p ProtocolEnvelope \<Rightarrow> validation" where
  "validate_envelope validate e =
     and_then (ensure_uuid_not_nil (env_request_id e) ''request_id'') (\<lambda>_.
     and_then (ensure_uuid_not_nil (env_correlation_id e) ''correlation_id'') (\<lambda>_.
     and_then (validate (env_payload e)) (\<lambda>_.
       case env_error e of Some err \<Rightarrow> validate_structured_error err | None \<Rightarrow> Inr ())))"

section \<open>What the validators accept\<close>

definition valid_prepare :: "DeployPrepareRequest \<Rightarrow> bool" where
  "valid_prepare r \<longleftrightarrow>
     \<not> trim_is_empty (dpr_name r) \<and> \<not> trim_is_empty (dpr_app_type r) \<and>
     \<not> trim_is_empty (dpr_artifact_digest r) \<and> \<not> trim_is_empty (dpr_manifest_digest r) \<and>
     \<not> trim_is_empty (dpr_idempotency_key r) \<and> 0 < unat (dpr_artifact_size r)"

definition valid_push :: "ArtifactPushRequest \<Rightarrow> bool" where
  "valid_push r \<longleftrightarrow>
     \<not> trim_is_empty (aph_deploy_id (apr_header r)) \<and>
     \<not> trim_is_empty (aph_chunk_sha256 (apr_header r)) \<and>
     \<not> trim_is_empty (aph_upload_token (apr_header r)) \<and>
     0 < unat (aph_length (apr_header r)) \<and> apr_chunk r \<noteq> []"

definition valid_commit :: "ArtifactCommitRequest \<Rightarrow> bool" where
  "valid_commit r \<longleftrightarrow>
     \<not> trim_is_empty (acr_deploy_id r) \<and> \<not> trim_is_empty (acr_artifact_digest r) \<and>
     \<not> trim_is_empty (acr_manifest_digest r) \<and> 0 < unat (acr_artifact_size r)"

fun payload_type :: "CommandPayload \<Rightarrow> CommandType" where
  "payload_type (CP_Deploy _) = CT_Deploy"
| "payload_type (CP_Run _) = CT_Run"
| "payload_type (CP_Stop _) = CT_Stop"

definition valid_start :: "CommandStartRequest \<Rightarrow> bool" where
  "valid_start r \<longleftrightarrow>
     csr_request_id r \<noteq> 0 \<and> payload_type (csr_payload r) = csr_command_type r \<and>
     validate_CommandPayload (csr_payload r) = Inr ()"

lemma validate_names_ok [validate_simps]:
  "validate_names seen names = Inr u \<longleftrightarrow>
     list_all (\<lambda>n. \<not> trim_is_empty n) names \<and> distinct names \<and> set names \<inter> seen = {}"
  by (induction seen names rule: validate_names.induct) auto

lemma validate_prepare_ok [validate_simps]:
  "validate_DeployPrepareRequest r = Inr u \<longleftrightarrow> valid_prepare r"
  by (auto simp: validate_DeployPrepareRequest_def valid_prepare_def validate_simps)

lemma validate_push_ok [validate_simps]:
  "validate_ArtifactPushRequest r = Inr u \<longleftrightarrow> valid_push r"
  by (auto simp: validate_ArtifactPushRequest_def validate_ArtifactPushChunkHeader_def
      valid_push_def validate_simps)

lemma validate_commit_ok [validate_simps]:
  "validate_ArtifactCommitRequest r = Inr u \<longleftrightarrow> valid_commit r"
  by (auto simp: validate_ArtifactCommitRequest_def valid_commit_def validate_simps)

lemma validate_start_ok [validate_simps]:
  "validate_CommandStartRequest r = Inr u \<longleftrightarrow> valid_start r"
  by (cases "csr_command_type r"; cases "csr_payload r")
    (auto simp: validate_CommandStartRequest_def valid_start_def validate_simps)

lemma validate_ByteRange_ok [validate_simps]:
  "validate_ByteRange r = Inr u \<longleftrightarrow> 0 < unat (br_length r)"
  by (simp add: validate_ByteRange_def validate_simps)

text \<open>
  The contract of the \<open>Validate\<close> trait: acceptance is a predicate of the payload. Inside
  the locale, the envelope validator is shown to add exactly the identifier and error
  checks.
\<close>

locale validated_payload =
  fixes validate :: "'p \<Rightarrow> validation" and valid :: "'p \<Rightarrow> bool"
  assumes validate_iff: "validate p = Inr () \<longleftrightarrow> valid p"
begin

lemma envelope_ok_iff:
  "validate_envelope validate e = Inr () \<longleftrightarrow>
     env_request_id e \<noteq> 0 \<and> env_correlation_id e \<noteq> 0 \<and> valid (env_payload e) \<and>
     (\<forall>err. env_error e = Some err \<longrightarrow> validate_structured_error err = Inr ())"
  by (auto simp: validate_envelope_def validate_simps validate_iff split: option.splits)

lemma fresh_envelope_ok:
  "request_id \<noteq> 0 \<Longrightarrow> correlation_id \<noteq> 0 \<Longrightarrow> valid p \<Longrightarrow>
     validate_envelope validate (envelope_new mt request_id correlation_id p) = Inr ()"
  by (simp add: envelope_ok_iff envelope_new_def)

end

interpretation prepare_payload: validated_payload validate_DeployPrepareRequest valid_prepare
  by unfold_locales (simp add: validate_simps)

interpretation push_payload: validated_payload validate_ArtifactPushRequest valid_push
  by unfold_locales (simp add: validate_simps)

interpretation commit_payload: validated_payload validate_ArtifactCommitRequest valid_commit
  by unfold_locales (simp add: validate_simps)

interpretation start_payload: validated_payload validate_CommandStartRequest valid_start
  by unfold_locales (simp add: validate_simps)

end
