(* ===== verification/Byte_Ranges.thy ===== *)
theory Byte_Ranges
  imports Protocol_Messages
begin

text \<open>
  Received-rng bookkeeping of an upload (\<^verbatim>\<open>imagod-control/src/artifact_store/commit.rs\<close>):
  merging an incoming chunk into the list of received ranges, the completeness test, and
  the two computations of what is still missing. The reference is the set of byte
  positions a list of ranges covers.
\<close>

section \<open>The code\<close>

definition range_from_start_end :: "u64 \<Rightarrow> u64 \<Rightarrow> ByteRange" where
  "range_from_start_end start end' =
     \<lparr>br_offset = start, br_length = saturating_sub end' start\<rparr>"

definition is_complete :: "ByteRange list \<Rightarrow> u64 \<Rightarrow> bool" where
  "is_complete ranges tot =
     (case ranges of
        [first] \<Rightarrow> br_offset first = 0 \<and> br_length first = tot
      | _ \<Rightarrow> False)"

fun next_missing_loop :: "u64 \<Rightarrow> ByteRange list \<Rightarrow> u64 \<Rightarrow> ByteRange option" where
  "next_missing_loop cursor [] tot =
     (if cursor < tot then Some (range_from_start_end cursor tot) else None)"
| "next_missing_loop cursor (rng # ranges) tot =
     (let start = br_offset rng; end' = saturating_add (br_offset rng) (br_length rng)
      in if cursor < start then Some (range_from_start_end cursor start)
         else next_missing_loop end' ranges tot)"

definition next_missing_range :: "ByteRange list \<Rightarrow> u64 \<Rightarrow> ByteRange option" where
  "next_missing_range ranges tot =
     (if tot = 0 then None
      else if ranges = [] then Some \<lparr>br_offset = 0, br_length = tot\<rparr>
      else next_missing_loop 0 ranges tot)"

fun all_missing_loop :: "u64 \<Rightarrow> ByteRange list \<Rightarrow> u64 \<Rightarrow> ByteRange list" where
  "all_missing_loop cursor [] tot =
     (if cursor < tot then [range_from_start_end cursor tot] else [])"
| "all_missing_loop cursor (rng # ranges) tot =
     (let start = br_offset rng;
          end' = saturating_add (br_offset rng) (br_length rng);
          missing = (if cursor < start then [range_from_start_end cursor start] else []);
          cursor' = max cursor end'
      in if tot \<le> cursor' then missing
         else missing @ all_missing_loop cursor' ranges tot)"

definition all_missing_ranges :: "ByteRange list \<Rightarrow> u64 \<Rightarrow> ByteRange list" where
  "all_missing_ranges ranges tot =
     (if tot = 0 then []
      else if ranges = [] then [\<lparr>br_offset = 0, br_length = tot\<rparr>]
      else all_missing_loop 0 ranges tot)"

text \<open>
  One iteration of the merge loop; \<open>merged\<close> is held with its last element first, so that
  \<open>last_mut\<close> is the head.
\<close>

fun merge_step :: "ByteRange \<Rightarrow> ByteRange list \<Rightarrow> ByteRange list" where
  "merge_step rng [] = [rng]"
| "merge_step rng (last' # merged) =
     (if br_offset rng \<le> saturating_add (br_offset last') (br_length last')
      then let current_end = saturating_add (br_offset rng) (br_length rng);
               merged_end = max (saturating_add (br_offset last') (br_length last')) current_end
           in last'\<lparr>br_length := saturating_sub merged_end (br_offset last')\<rparr> # merged
      else rng # last' # merged)"

definition merge_range :: "ByteRange list \<Rightarrow> ByteRange \<Rightarrow> ByteRange list" where
  "merge_range ranges incoming =
     rev (fold merge_step (sort_key br_offset (ranges @ [incoming])) [])"

section \<open>The reference: covered byte positions\<close>

definition rstart :: "ByteRange \<Rightarrow> nat" where
  "rstart r = unat (br_offset r)"

definition rend :: "ByteRange \<Rightarrow> nat" where
  "rend r = unat (br_offset r) + unat (br_length r)"

definition covered :: "ByteRange list \<Rightarrow> nat set" where
  "covered rs = (\<Union>r \<in> set rs. {rstart r ..< rend r})"

text \<open>
  Progress as a session keeps it: ranges in increasing order with a gap between any two,
  inside the artifact, and (since the protocol rejects empty chunks) none of them empty.
\<close>

definition separated :: "ByteRange list \<Rightarrow> bool" where
  "separated rs = sorted_wrt (\<lambda>a b. rend a < rstart b) rs"

definition within :: "u64 \<Rightarrow> ByteRange list \<Rightarrow> bool" where
  "within tot rs = list_all (\<lambda>r. rend r \<le> unat tot) rs"

definition positive_ranges :: "ByteRange list \<Rightarrow> bool" where
  "positive_ranges rs = list_all (\<lambda>r. 0 < unat (br_length r)) rs"

lemma covered_simps [simp]:
  "covered [] = {}"
  "covered (r # rs) = {rstart r ..< rend r} \<union> covered rs"
  "covered (rs @ ss) = covered rs \<union> covered ss"
  "covered (rev rs) = covered rs"
  by (auto simp: covered_def)

lemma separated_Cons:
  "separated (r # rs) \<longleftrightarrow> (\<forall>s \<in> set rs. rend r < rstart s) \<and> separated rs"
  by (simp add: separated_def)

lemma within_simps [simp]:
  "within tot []"
  "within tot (r # rs) \<longleftrightarrow> rend r \<le> unat tot \<and> within tot rs"
  by (simp_all add: within_def)

lemma positive_ranges_simps [simp]:
  "positive_ranges []"
  "positive_ranges (r # rs) \<longleftrightarrow> 0 < unat (br_length r) \<and> positive_ranges rs"
  by (simp_all add: positive_ranges_def)

lemma rstart_le_rend: "rstart r \<le> rend r"
  by (simp add: rstart_def rend_def)

lemma range_bounds:
  "rstart (range_from_start_end a b) = unat a"
  "unat a \<le> unat b \<Longrightarrow> rend (range_from_start_end a b) = unat b"
  by (simp_all add: rstart_def rend_def range_from_start_end_def unat_simps)

lemma br_offset_from_start_end [simp]: "br_offset (range_from_start_end a b) = a"
  by (simp add: range_from_start_end_def)

lemma full_range_bounds:
  "rstart \<lparr>br_offset = 0, br_length = t\<rparr> = 0" "rend \<lparr>br_offset = 0, br_length = t\<rparr> = unat t"
  by (simp_all add: rstart_def rend_def)

lemma unat_end:
  "rend r \<le> unat (tot :: u64) \<Longrightarrow>
     unat (saturating_add (br_offset r) (br_length r)) = rend r"
  using unat_lt_u64 [of tot]
  by (simp add: unat_saturating_add rend_def)

section \<open>Merging a chunk\<close>

lemma merge_step_Cons:
  assumes "rend a \<le> unat (tot :: u64)" "rend x \<le> unat tot" "rstart a \<le> rstart x"
  shows "if rstart x \<le> rend a
         then \<exists>a'. merge_step x (a # acc) = a' # acc \<and> rstart a' = rstart a \<and>
                rend a' = max (rend a) (rend x)
         else merge_step x (a # acc) = x # a # acc"
proof (cases "rstart x \<le> rend a")
  case True
  let ?m = "max (saturating_add (br_offset a) (br_length a)) (saturating_add (br_offset x) (br_length x))"
  let ?a = "a\<lparr>br_length := saturating_sub ?m (br_offset a)\<rparr>"
  have m: "unat ?m = max (rend a) (rend x)"
    using unat_end [OF assms(1)] unat_end [OF assms(2)] by (simp only: unat_max)
  have "merge_step x (a # acc) = ?a # acc"
    using True assms(1) unat_end [of a tot]
    by (simp add: word_le_nat_alt rstart_def Let_def)
  moreover have "rstart ?a = rstart a" by (simp add: rstart_def)
  moreover have "rend ?a = max (rend a) (rend x)"
    using rstart_le_rend [of a] m
    by (simp add: rend_def rstart_def unat_saturating_sub)
  ultimately show ?thesis using True by auto
next
  case False
  then show ?thesis
    using assms(1) unat_end [of a tot] by (simp add: word_le_nat_alt rstart_def)
qed

lemma merge_fold:
  assumes "sorted_wrt (\<lambda>b a. rend a < rstart b) acc"
    and "sorted (map rstart xs)"
    and "\<forall>x \<in> set xs. \<forall>a \<in> set acc. rstart a \<le> rstart x"
    and "\<forall>x \<in> set xs \<union> set acc. rend x \<le> unat (tot :: u64) \<and> rstart x < rend x"
  shows "sorted_wrt (\<lambda>b a. rend a < rstart b) (fold merge_step xs acc) \<and>
     covered (fold merge_step xs acc) = covered xs \<union> covered acc \<and>
     (\<forall>x \<in> set (fold merge_step xs acc). rend x \<le> unat tot \<and> rstart x < rend x)"
  using assms
proof (induction xs arbitrary: acc)
  case Nil
  then show ?case by simp
next
  case (Cons x xs)
  show ?case
  proof (cases acc)
    case Nil
    then show ?thesis using Cons.IH [of "[x]"] Cons.prems by (auto simp: Un_ac)
  next
    case (Cons a rest)
    note acc = Cons
    have ax: "rend a \<le> unat tot" "rend x \<le> unat tot" "rstart a \<le> rstart x"
      using Cons.prems acc by auto
    show ?thesis
    proof (cases "rstart x \<le> rend a")
      case True
      then obtain a' where a': "merge_step x (a # rest) = a' # rest" "rstart a' = rstart a"
        "rend a' = max (rend a) (rend x)"
        using merge_step_Cons [OF ax, of rest] by auto
      have union: "{rstart a' ..< rend a'} = {rstart a ..< rend a} \<union> {rstart x ..< rend x}"
        using True a' ax rstart_le_rend [of a] rstart_le_rend [of x] by auto
      have "rstart a' < rend a'" "rend a' \<le> unat tot"
        using a' Cons.prems acc by auto
      then show ?thesis
        using Cons.IH [of "a' # rest"] Cons.prems acc a' union by (auto simp: Un_ac)
    next
      case False
      then have "merge_step x acc = x # acc"
        using merge_step_Cons [OF ax, of rest] acc by simp
      moreover have "sorted_wrt (\<lambda>b a. rend a < rstart b) (x # acc)"
        using False Cons.prems acc rstart_le_rend [of a] by fastforce
      ultimately show ?thesis
        using Cons.IH [of "x # acc"] Cons.prems by (auto simp: Un_ac)
    qed
  qed
qed

lemma sorted_rstart_sort: "sorted (map rstart (sort_key br_offset rs))"
proof -
  have "sorted (map br_offset (sort_key br_offset rs))" by simp
  then show ?thesis
    by (simp add: sorted_map rstart_def word_le_nat_alt)
qed

definition good_progress :: "u64 \<Rightarrow> ByteRange list \<Rightarrow> bool" where
  "good_progress tot rs \<longleftrightarrow> separated rs \<and> within tot rs \<and> positive_ranges rs"

lemma positive_iff: "0 < unat (br_length r) \<longleftrightarrow> rstart r < rend r"
  by (simp add: rstart_def rend_def)

lemma merge_range_correct:
  assumes "good_progress tot rs" "rend r \<le> unat tot" "0 < unat (br_length r)"
  shows "good_progress tot (merge_range rs r) \<and>
     covered (merge_range rs r) = {rstart r ..< rend r} \<union> covered rs"
proof -
  let ?xs = "sort_key br_offset (rs @ [r])"
  have all: "\<forall>x \<in> set ?xs \<union> set []. rend x \<le> unat tot \<and> rstart x < rend x"
    using assms
    by (auto simp: good_progress_def within_def positive_ranges_def list_all_iff positive_iff)
  have "covered ?xs = {rstart r ..< rend r} \<union> covered rs"
    by (auto simp: covered_def)
  then show ?thesis
    using merge_fold [OF _ sorted_rstart_sort _ all]
    by (auto simp: merge_range_def good_progress_def separated_def sorted_wrt_rev within_def
        positive_ranges_def list_all_iff positive_iff)
qed

section \<open>Completeness and missing ranges\<close>

lemma covered_ge: "separated (s # ss) \<Longrightarrow> n \<in> covered (s # ss) \<Longrightarrow> rstart s \<le> n"
  using rstart_le_rend [of s] by (force simp: covered_def separated_Cons)

lemma covered_gap: "separated (r # rs) \<Longrightarrow> rend r \<notin> covered (r # rs)"
  by (force simp: covered_def separated_Cons)

lemma is_complete_iff:
  assumes "good_progress tot rs" and "0 < unat tot"
  shows "is_complete rs tot \<longleftrightarrow> covered rs = {0 ..< unat tot}"
proof
  assume "is_complete rs tot"
  then show "covered rs = {0 ..< unat tot}"
    by (auto simp: is_complete_def rstart_def rend_def split: list.splits)
next
  assume cov: "covered rs = {0 ..< unat tot}"
  obtain r t where rs: "rs = r # t"
    using cov assms(2) by (cases rs) auto
  have sep: "separated (r # t)" and wi: "within tot (r # t)"
    using assms(1) rs by (auto simp: good_progress_def)
  have "0 \<in> covered (r # t)"
    using cov rs assms(2) by simp
  then have start: "rstart r = 0"
    using covered_ge [OF sep] by fastforce
  have rend: "rend r = unat tot"
    using covered_gap [OF sep] cov rs wi by force
  have "t = []"
  proof (rule ccontr)
    assume "t \<noteq> []"
    then obtain x where "x \<in> set t" by (cases t) auto
    then have "rend r < rstart x" "rend x \<le> unat tot"
      using sep wi by (auto simp: separated_Cons within_def list_all_iff)
    then show False using rend rstart_le_rend [of x] by simp
  qed
  moreover have "br_offset r = 0" "br_length r = tot"
    using start rend by (simp_all add: rstart_def rend_def word_unat_eq_iff)
  ultimately show "is_complete rs tot" by (simp add: is_complete_def rs)
qed

lemma no_range_after_end:
  assumes "separated (r # rs)" "within tot (r # rs)" "unat tot \<le> rend r"
  shows "rs = []"
proof (cases rs)
  case (Cons x xs)
  then show ?thesis using assms rstart_le_rend [of x] by (simp add: separated_Cons)
qed simp

lemma covered_single_from_start_end:
  "unat a \<le> unat b \<Longrightarrow> covered [range_from_start_end a b] = {unat a ..< unat b}"
  by (simp add: range_bounds)

lemma missing_loop_correct:
  assumes "separated rs" "within tot rs" "\<forall>r \<in> set rs. unat cursor \<le> rstart r"
    and "unat cursor \<le> unat tot"
  shows "covered (all_missing_loop cursor rs tot) = {unat cursor ..< unat tot} - covered rs \<and>
     list_all (\<lambda>m. rstart m < rend m \<and> rend m \<le> unat tot) (all_missing_loop cursor rs tot) \<and>
     next_missing_loop cursor rs tot =
       (case all_missing_loop cursor rs tot of [] \<Rightarrow> None | m # _ \<Rightarrow> Some m)"
  using assms
proof (induction cursor rs tot rule: all_missing_loop.induct)
  case (1 cursor tot)
  then show ?case by (simp add: range_bounds word_less_nat_alt)
next
  case (2 cursor r rs tot)
  let ?stop = "saturating_add (br_offset r) (br_length r)"
  let ?gap = "if cursor < br_offset r then [range_from_start_end cursor (br_offset r)] else []"
  have e: "unat ?stop = rend r" and c: "unat cursor \<le> rstart r" and t: "rend r \<le> unat tot"
    using 2 unat_end by auto
  have m: "max cursor ?stop = ?stop"
    using c e rstart_le_rend [of r] by (simp add: max_def word_le_nat_alt)
  have gap: "covered ?gap = {unat cursor ..< rstart r}"
    using c by (auto simp: range_bounds word_less_nat_alt rstart_def)
  have gap_ok: "list_all (\<lambda>m. rstart m < rend m \<and> rend m \<le> unat tot) ?gap"
    using c t rstart_le_rend [of r] by (auto simp: range_bounds word_less_nat_alt rstart_def)
  show ?case
  proof (cases "tot \<le> ?stop")
    case True
    then have tot: "unat tot = rend r" using e t by (simp add: word_le_nat_alt)
    then have rs: "rs = []"
      using no_range_after_end [of r rs tot] 2 by simp
    have loop: "all_missing_loop cursor (r # rs) tot = ?gap"
      using True m by (simp add: Let_def)
    have "\<not> ?stop < tot" using True by simp
    then have next': "next_missing_loop cursor (r # rs) tot =
        (case ?gap of [] \<Rightarrow> None | m # _ \<Rightarrow> Some m)"
      using rs by (simp add: Let_def)
    have "{unat cursor ..< rstart r} = {unat cursor ..< unat tot} - covered (r # rs)"
      using tot rs c rstart_le_rend [of r] by auto
    then show ?thesis
      unfolding loop next' using gap gap_ok by simp
  next
    case False
    have IH: "covered (all_missing_loop ?stop rs tot) = {unat ?stop ..< unat tot} - covered rs \<and>
       list_all (\<lambda>m. rstart m < rend m \<and> rend m \<le> unat tot) (all_missing_loop ?stop rs tot) \<and>
       next_missing_loop ?stop rs tot =
         (case all_missing_loop ?stop rs tot of [] \<Rightarrow> None | m # _ \<Rightarrow> Some m)"
      using "2.IH" [OF refl refl refl refl] "2.prems" False m e t
      by (auto simp: separated_Cons less_imp_le)
    have loop: "all_missing_loop cursor (r # rs) tot = ?gap @ all_missing_loop ?stop rs tot"
      using False m by (simp add: Let_def)
    have "covered (r # rs) \<inter> {unat cursor ..< rstart r} = {}"
      using 2 rstart_le_rend [of r] by (force simp: covered_def separated_Cons)
    then have "covered (all_missing_loop cursor (r # rs) tot) =
        {unat cursor ..< unat tot} - covered (r # rs)"
      using loop gap IH e c t rstart_le_rend [of r] "2.prems"(1)
      by (auto simp: separated_Cons covered_def)
    moreover have "next_missing_loop cursor (r # rs) tot =
        (case all_missing_loop cursor (r # rs) tot of [] \<Rightarrow> None | m # _ \<Rightarrow> Some m)"
      using loop IH by (simp add: Let_def)
    ultimately show ?thesis using loop gap_ok IH by simp
  qed
qed

lemma all_missing_correct:
  assumes "good_progress tot rs"
  shows "covered (all_missing_ranges rs tot) = {0 ..< unat tot} - covered rs"
    and "list_all (\<lambda>m. rstart m < rend m \<and> rend m \<le> unat tot) (all_missing_ranges rs tot)"
  using assms missing_loop_correct [of rs tot 0]
  by (auto simp: all_missing_ranges_def good_progress_def full_range_bounds unat_gt_0)

lemma next_missing_is_first:
  assumes "good_progress tot rs"
  shows "next_missing_range rs tot =
     (case all_missing_ranges rs tot of [] \<Rightarrow> None | m # _ \<Rightarrow> Some m)"
  using assms missing_loop_correct [of rs tot 0]
  by (auto simp: next_missing_range_def all_missing_ranges_def good_progress_def)

section \<open>Ranges are a canonical form\<close>

lemma covered_Cons_rest:
  "separated (r # rs) \<Longrightarrow> covered rs = covered (r # rs) - {rstart r ..< rend r}"
  by (force simp: covered_def separated_Cons)

lemma separated_unique:
  assumes "separated rs" "separated ss" "positive_ranges rs" "positive_ranges ss"
    and "covered rs = covered ss"
  shows "rs = ss"
  using assms
proof (induction rs arbitrary: ss)
  case Nil
  then show ?case by (cases ss) (auto simp: positive_iff)
next
  case (Cons r rs)
  then obtain s ss' where ss: "ss = s # ss'"
    by (cases ss) (auto simp: positive_iff)
  have pos: "rstart r < rend r" "rstart s < rend s"
    using Cons.prems ss by (auto simp: positive_iff)
  have "rstart r \<in> covered (s # ss')" "rstart s \<in> covered (r # rs)"
    using pos Cons.prems(5) ss by auto
  then have start: "rstart r = rstart s"
    using covered_ge [of s ss'] covered_ge [of r rs] Cons.prems(1,2) ss by force
  have "rend r \<notin> covered (s # ss')" "rend s \<notin> covered (r # rs)"
    using covered_gap [of r rs] covered_gap [of s ss'] Cons.prems(1,2,5) ss by auto
  then have rend: "rend r = rend s"
    using start pos by (auto simp: not_less)
  have "r = s"
    using start rend by (simp add: rstart_def rend_def word_unat_eq_iff [symmetric] ByteRange.equality)
  moreover have "covered rs = covered ss'"
    using covered_Cons_rest [of r rs] covered_Cons_rest [of s ss'] Cons.prems ss start rend by simp
  ultimately show ?case
    using Cons.IH [of ss'] Cons.prems ss by (simp add: separated_Cons)
qed

section \<open>The interface of an upload ledger\<close>

text \<open>
  What the artifact store relies on when it records chunks: adding a chunk adds exactly its
  positions and keeps the ledger well formed, completeness is coverage of the whole
  artifact, and well-formed ledgers are determined by what they cover.
\<close>

locale upload_ledger =
  fixes none :: 'l
    and add :: "'l \<Rightarrow> 'c \<Rightarrow> 'l"
    and complete :: "'l \<Rightarrow> 'n \<Rightarrow> bool"
    and good :: "'n \<Rightarrow> 'l \<Rightarrow> bool"
    and fits :: "'n \<Rightarrow> 'c \<Rightarrow> bool"
    and cov :: "'l \<Rightarrow> nat set"
    and span :: "'c \<Rightarrow> nat set"
    and bound :: "'n \<Rightarrow> nat"
  assumes good_none: "good n none"
    and cov_none: "cov none = {}"
    and good_add: "good n l \<Longrightarrow> fits n c \<Longrightarrow> good n (add l c)"
    and cov_add: "good n l \<Longrightarrow> fits n c \<Longrightarrow> cov (add l c) = span c \<union> cov l"
    and complete_iff: "good n l \<Longrightarrow> 0 < bound n \<Longrightarrow> complete l n \<longleftrightarrow> cov l = {0 ..< bound n}"
    and canonical: "good n l \<Longrightarrow> good n l' \<Longrightarrow> cov l = cov l' \<Longrightarrow> l = l'"
begin

lemma adds:
  "good n l \<Longrightarrow> list_all (fits n) cs \<Longrightarrow>
     good n (fold (\<lambda>c l. add l c) cs l) \<and>
     cov (fold (\<lambda>c l. add l c) cs l) = cov l \<union> (\<Union>c \<in> set cs. span c)"
  by (induction cs arbitrary: l) (auto simp: good_add cov_add)

lemma adds_determined:
  assumes "list_all (fits n) cs" "list_all (fits n) ds"
    and "(\<Union>c \<in> set cs. span c) = (\<Union>d \<in> set ds. span d)"
  shows "fold (\<lambda>c l. add l c) cs none = fold (\<lambda>c l. add l c) ds none"
  using adds [OF good_none assms(1)] adds [OF good_none assms(2)] assms(3)
  by (intro canonical [of n]) simp_all

lemma adds_complete:
  assumes "list_all (fits n) cs" "0 < bound n"
  shows "complete (fold (\<lambda>c l. add l c) cs none) n \<longleftrightarrow> (\<Union>c \<in> set cs. span c) = {0 ..< bound n}"
  using adds [OF good_none assms(1)] complete_iff [OF _ assms(2)] by (simp add: cov_none)

end

definition fits_range :: "u64 \<Rightarrow> ByteRange \<Rightarrow> bool" where
  "fits_range tot r \<longleftrightarrow> rend r \<le> unat tot \<and> 0 < unat (br_length r)"

interpretation ledger: upload_ledger "[]" merge_range is_complete good_progress fits_range
  covered "\<lambda>r. {rstart r ..< rend r}" unat
proof unfold_locales
  show "good_progress n []" for n by (simp add: good_progress_def separated_def)
  show "good_progress n (merge_range l c)" if "good_progress n l" "fits_range n c" for n l c
    using that merge_range_correct by (simp add: fits_range_def)
  show "covered (merge_range l c) = {rstart c ..< rend c} \<union> covered l"
    if "good_progress n l" "fits_range n c" for n l c
    using that merge_range_correct by (simp add: fits_range_def)
  show "is_complete l n \<longleftrightarrow> covered l = {0 ..< unat n}"
    if "good_progress n l" "0 < unat n" for n l
    using that by (rule is_complete_iff)
  show "l = l'" if "good_progress n l" "good_progress n l'" "covered l = covered l'" for n l l'
    using that separated_unique by (simp add: good_progress_def)
qed simp

section \<open>Properties\<close>

text \<open>
  C9: what a session has received depends only on which bytes its chunks cover: chunks that
  arrive in another order, are sent twice, overlap or are cut differently give the same
  list of received ranges.
\<close>

theorem received_ranges_determined:
  assumes "list_all (fits_range tot) cs" and "list_all (fits_range tot) ds"
    and "(\<Union>c \<in> set cs. {rstart c ..< rend c}) = (\<Union>d \<in> set ds. {rstart d ..< rend d})"
  shows "foldl merge_range [] cs = foldl merge_range [] ds"
  using ledger.adds_determined [OF assms] by (simp add: foldl_conv_fold)

text \<open>
  C4: after any sequence of recorded chunks that fit the artifact, \<open>is_complete\<close> answers
  yes exactly when every byte of the artifact lies in one of the chunks.
\<close>

theorem complete_iff_all_bytes_received:
  assumes "list_all (fits_range tot) cs" and "0 < tot"
  shows "is_complete (foldl merge_range [] cs) tot \<longleftrightarrow>
     (\<Union>c \<in> set cs. {rstart c ..< rend c}) = {0 ..< unat tot}"
  using ledger.adds_complete [OF assms(1)] assms(2) by (simp add: foldl_conv_fold unat_gt_0)

text \<open>
  C10: the missing ranges reported to the client cover exactly the bytes of the artifact that
  no recorded chunk covers, each of them is non-empty and inside the artifact, and the
  \<open>next_missing_range\<close> of an acknowledgement is the first of them.
\<close>

theorem missing_ranges_exact:
  assumes "list_all (fits_range tot) cs" and "ranges = foldl merge_range [] cs"
  shows "covered (all_missing_ranges ranges tot) =
       {0 ..< unat tot} - (\<Union>c \<in> set cs. {rstart c ..< rend c}) \<and>
     list_all (\<lambda>m. rstart m < rend m \<and> rend m \<le> unat tot) (all_missing_ranges ranges tot) \<and>
     next_missing_range ranges tot =
       (case all_missing_ranges ranges tot of [] \<Rightarrow> None | m # _ \<Rightarrow> Some m)"
proof -
  have "good_progress tot ranges \<and> covered ranges = (\<Union>c \<in> set cs. {rstart c ..< rend c})"
    using ledger.adds [OF ledger.good_none assms(1)]
    by (simp add: assms(2) foldl_conv_fold)
  then have g: "good_progress tot ranges" and c: "covered ranges = (\<Union>c \<in> set cs. {rstart c ..< rend c})"
    by simp_all
  show ?thesis
    using all_missing_correct [OF g] next_missing_is_first [OF g] unfolding c by blast
qed

theorem received_ranges_determined_witness:
  "foldl merge_range []
     [\<lparr>br_offset = 4, br_length = 6\<rparr>, \<lparr>br_offset = 0, br_length = 4\<rparr>, \<lparr>br_offset = 3, br_length = 3\<rparr>] =
   foldl merge_range [] [\<lparr>br_offset = 0, br_length = 7\<rparr>, \<lparr>br_offset = 7, br_length = 3\<rparr>]"
  by (rule received_ranges_determined [of 10]) (auto simp: fits_range_def rstart_def rend_def)

theorem complete_iff_all_bytes_received_witness:
  "is_complete (foldl merge_range []
     [\<lparr>br_offset = 4, br_length = 6\<rparr>, \<lparr>br_offset = 0, br_length = 4\<rparr>]) 10 \<longleftrightarrow>
   (\<Union>c \<in> set [\<lparr>br_offset = 4, br_length = 6\<rparr>, \<lparr>br_offset = 0, br_length = 4\<rparr>].
      {rstart c ..< rend c}) = {0 ..< unat (10 :: u64)}"
  by (rule complete_iff_all_bytes_received) (simp_all add: fits_range_def rstart_def rend_def)

theorem missing_ranges_exact_witness:
  "next_missing_range (foldl merge_range [] [\<lparr>br_offset = 2, br_length = 3\<rparr>]) 10 =
   (case all_missing_ranges (foldl merge_range [] [\<lparr>br_offset = 2, br_length = 3\<rparr>]) 10 of
      [] \<Rightarrow> None | m # _ \<Rightarrow> Some m)"
proof -
  have "list_all (fits_range 10) [\<lparr>br_offset = 2, br_length = 3\<rparr>]"
    by (simp add: fits_range_def rstart_def rend_def)
  from missing_ranges_exact [OF this refl] show ?thesis by blast
qed

end
