(* ===== verification/Artifact_Store.thy ===== *)
theory Artifact_Store
  imports Byte_Ranges "HOL-Library.Multiset"
begin

text \<open>
  The artifact store (\<^verbatim>\<open>imagod-control/src/artifact_store.rs\<close>, \<^verbatim>\<open>session_index.rs\<close> and
  \<^verbatim>\<open>chunk_pipeline.rs\<close>): upload sessions, the idempotency index, expiry and capacity
  cleanup, and the operations \<open>prepare\<close>, \<open>push\<close>, \<open>commit\<close>, \<open>committed_artifact\<close>,
  \<open>service_name_for_deploy\<close> and \<open>purge_deploy_session\<close>. Each part of an operation that
  runs under the state lock is a function of its own, so that an operation is the
  composition of its locked sections with the file accesses between them and the theory
  \<open>Artifact_Upload\<close> can interleave the sections of concurrent requests.

  Parameters of the model: \<open>sha\<close> is the hexadecimal SHA-256 of a byte list (package
  \<open>sha2\<close>), \<open>now\<close> the reading of the system clock in seconds, the deploy id and the
  upload token are the texts of fresh version-4 UUIDs, and an \<open>io_outcome\<close> says how a
  file access ended.
\<close>

section \<open>State\<close>

type_synonym path = "string list"
type_synonym files = "path \<Rightarrow> bytes option"
type_synonym CleanupPlan = "path list"

definition STAGE_PREPARE :: string where "STAGE_PREPARE = ''deploy.prepare''"
definition STAGE_PUSH :: string where "STAGE_PUSH = ''artifact.push''"
definition STAGE_COMMIT :: string where "STAGE_COMMIT = ''artifact.commit''"
definition STAGE_ORCHESTRATE :: string where "STAGE_ORCHESTRATE = ''orchestration''"

record CommittedArtifact =
  ca_deploy_id :: string
  ca_path :: path
  ca_manifest_digest :: string
  ca_artifact_digest :: string

record UploadSession =
  us_deploy_id :: string
  us_service_name :: string
  us_idempotency_key :: string
  us_fingerprint :: string
  us_artifact_digest :: string
  us_artifact_size :: u64
  us_manifest_digest :: string
  us_upload_token :: string
  us_file_path :: path
  us_received_ranges :: "ByteRange list"
  us_committed :: bool
  us_inflight_writes :: nat
  us_commit_in_progress :: bool
  us_updated_at :: u64

record StoreState =
  ss_sessions :: "(string, UploadSession) btree"
  ss_idempotency :: "(string, string) btree"

record ArtifactStore =
  as_root :: path
  as_upload_session_ttl_secs :: u64
  as_committed_session_ttl_secs :: u64
  as_max_committed_sessions :: nat
  as_max_chunk_size :: nat
  as_max_inflight_chunks :: nat
  as_max_artifact_size_bytes :: u64

definition new_store :: "path \<Rightarrow> u64 \<Rightarrow> u64 \<Rightarrow> nat \<Rightarrow> nat \<Rightarrow> nat \<Rightarrow> u64 \<Rightarrow> ArtifactStore" where
  "new_store root upload_ttl committed_ttl max_sessions chunk inflight max_size =
     \<lparr>as_root = root, as_upload_session_ttl_secs = max upload_ttl 1,
      as_committed_session_ttl_secs = max committed_ttl 1,
      as_max_committed_sessions = max max_sessions 1, as_max_chunk_size = max chunk 1,
      as_max_inflight_chunks = max inflight 1, as_max_artifact_size_bytes = max max_size 1\<rparr>"

definition map_internal :: "string \<Rightarrow> string \<Rightarrow> ImagodError" where
  "map_internal stage message = with_retryable (new_error Internal stage message) True"

section \<open>Pinned deploy sessions\<close>

definition pin_deploy_session :: "string \<Rightarrow> (string, nat) btree \<Rightarrow> (string, nat) btree" where
  "pin_deploy_session deploy_id pinned =
     bt_insert deploy_id
       (usize_saturating_add (case bt_get pinned deploy_id of Some n \<Rightarrow> n | None \<Rightarrow> 0) 1) pinned"

definition drop_pin_guard :: "string \<Rightarrow> (string, nat) btree \<Rightarrow> (string, nat) btree" where
  "drop_pin_guard deploy_id pinned =
     (case bt_get pinned deploy_id of
        None \<Rightarrow> pinned
      | Some n \<Rightarrow>
          if n - 1 = 0 then bt_remove deploy_id pinned
          else bt_insert deploy_id (n - 1) pinned)"

section \<open>Session index (session\_index.rs)\<close>

definition build_prepare_response :: "UploadSession \<Rightarrow> u64 \<Rightarrow> u64 \<Rightarrow> DeployPrepareResponse" where
  "build_prepare_response session ttl now =
     (let artifact_status =
            (if us_committed session
                \<or> is_complete (us_received_ranges session) (us_artifact_size session)
             then Complete
             else if us_received_ranges session = [] then Missing
             else Partial);
          missing_ranges =
            (if artifact_status = Complete then []
             else all_missing_ranges (us_received_ranges session) (us_artifact_size session))
      in \<lparr>dpp_deploy_id = us_deploy_id session, dpp_artifact_status = artifact_status,
          dpp_missing_ranges = missing_ranges, dpp_upload_token = us_upload_token session,
          dpp_session_expires_at = decimal (unat (saturating_add now ttl))\<rparr>)"

fun collect_sessions_for_removal_locked ::
    "StoreState \<Rightarrow> string list \<Rightarrow> StoreState \<times> CleanupPlan" where
  "collect_sessions_for_removal_locked state [] = (state, [])"
| "collect_sessions_for_removal_locked state (deploy_id # deploy_ids) =
     (case bt_get (ss_sessions state) deploy_id of
        None \<Rightarrow> collect_sessions_for_removal_locked state deploy_ids
      | Some session \<Rightarrow>
          let idempotency =
                (if bt_get (ss_idempotency state) (us_idempotency_key session) = Some deploy_id
                 then bt_remove (us_idempotency_key session) (ss_idempotency state)
                 else ss_idempotency state);
              (state', files) =
                collect_sessions_for_removal_locked
                  \<lparr>ss_sessions = bt_remove deploy_id (ss_sessions state),
                   ss_idempotency = idempotency\<rparr> deploy_ids
          in (state', us_file_path session # files))"

definition busy_session :: "UploadSession \<Rightarrow> bool" where
  "busy_session session \<longleftrightarrow> us_inflight_writes session > 0 \<or> us_commit_in_progress session"

definition expired_ids :: "StoreState \<Rightarrow> u64 \<Rightarrow> u64 \<Rightarrow> string list" where
  "expired_ids state now ttl =
     map fst (filter (\<lambda>(deploy_id, session).
         \<not> (us_committed session \<or> busy_session session) \<and>
         ttl \<le> saturating_sub now (us_updated_at session)) (ss_sessions state))"

definition collect_expired_sessions ::
    "StoreState \<Rightarrow> u64 \<Rightarrow> u64 \<Rightarrow> StoreState \<times> CleanupPlan" where
  "collect_expired_sessions state now ttl =
     collect_sessions_for_removal_locked state (expired_ids state now ttl)"

definition protected_committed_count :: "StoreState \<Rightarrow> string set \<Rightarrow> nat" where
  "protected_committed_count state protected =
     length (filter (\<lambda>(deploy_id, session). us_committed session \<and> deploy_id \<in> protected)
       (ss_sessions state))"

definition orphan_remove_ids :: "StoreState \<Rightarrow> u64 \<Rightarrow> u64 \<Rightarrow> string set \<Rightarrow> string list" where
  "orphan_remove_ids state now ttl protected =
     map fst (filter (\<lambda>(deploy_id, session).
         \<not> (\<not> us_committed session \<or> busy_session session \<or> deploy_id \<in> protected) \<and>
         ttl \<le> saturating_sub now (us_updated_at session)) (ss_sessions state))"

definition orphan_survivors ::
    "StoreState \<Rightarrow> string set \<Rightarrow> string list \<Rightarrow> (string \<times> u64) list" where
  "orphan_survivors state protected remove_ids =
     map (\<lambda>(deploy_id, session). (deploy_id, us_updated_at session))
       (filter (\<lambda>(deploy_id, session).
           \<not> (\<not> us_committed session \<or> busy_session session) \<and>
           deploy_id \<notin> protected \<and> deploy_id \<notin> set remove_ids) (ss_sessions state))"

definition overflow_ids :: "(string \<times> u64) list \<Rightarrow> nat \<Rightarrow> string list" where
  "overflow_ids survivors allowed_non_protected =
     (if length survivors > allowed_non_protected
      then map fst (take (length survivors - allowed_non_protected) (sort_key snd survivors))
      else [])"

definition collect_orphan_committed_sessions ::
    "StoreState \<Rightarrow> u64 \<Rightarrow> u64 \<Rightarrow> nat \<Rightarrow> string set \<Rightarrow> StoreState \<times> CleanupPlan" where
  "collect_orphan_committed_sessions state now ttl max_committed_sessions protected =
     (let remove_ids = orphan_remove_ids state now ttl protected;
          survivors = orphan_survivors state protected remove_ids;
          allowed_non_protected =
            max_committed_sessions - protected_committed_count state protected
      in collect_sessions_for_removal_locked state
           (remove_ids @ overflow_ids survivors allowed_non_protected))"

definition collect_sessions_by_deploy_ids ::
    "StoreState \<Rightarrow> string list \<Rightarrow> StoreState \<times> CleanupPlan" where
  "collect_sessions_by_deploy_ids state deploy_ids =
     collect_sessions_for_removal_locked state deploy_ids"

definition cleanup_orphan_idempotency :: "StoreState \<Rightarrow> StoreState" where
  "cleanup_orphan_idempotency state =
     (let orphan_keys =
            map fst (filter (\<lambda>(key, deploy_id). \<not> bt_contains (ss_sessions state) deploy_id)
              (ss_idempotency state))
      in state\<lparr>ss_idempotency := fold bt_remove orphan_keys (ss_idempotency state)\<rparr>)"

definition protected_deploy_ids :: "(string, nat) btree \<Rightarrow> string option \<Rightarrow> string set" where
  "protected_deploy_ids pinned keep_deploy_id =
     set (map fst pinned) \<union>
     (case keep_deploy_id of Some d \<Rightarrow> if d = '''' then {} else {d} | None \<Rightarrow> {})"

definition collect_session_cleanup_locked ::
    "ArtifactStore \<Rightarrow> (string, nat) btree \<Rightarrow> StoreState \<Rightarrow> u64 \<Rightarrow> string option
       \<Rightarrow> StoreState \<times> CleanupPlan" where
  "collect_session_cleanup_locked store pinned state now keep_deploy_id =
     (let protected = protected_deploy_ids pinned keep_deploy_id;
          (state1, files1) = collect_expired_sessions state now (as_upload_session_ttl_secs store);
          (state2, files2) =
            collect_orphan_committed_sessions state1 now (as_committed_session_ttl_secs store)
              (as_max_committed_sessions store) protected
      in (cleanup_orphan_idempotency state2, files1 @ files2))"

section \<open>Files (chunk\_pipeline.rs, commit.rs)\<close>

text \<open>
  An access either succeeds, or fails with a message and leaves the file with whatever
  content the interrupted access left behind.
\<close>

datatype io_outcome = IoOk | IoErr string "bytes option"

definition create_preallocated_file ::
    "io_outcome \<Rightarrow> path \<Rightarrow> u64 \<Rightarrow> files \<Rightarrow> files \<times> unit result" where
  "create_preallocated_file io path artifact_size files =
     (case io of
        IoOk \<Rightarrow> (files(path \<mapsto> replicate (unat artifact_size) 0), Inr ())
      | IoErr msg rest \<Rightarrow> (files(path := rest), Inl (map_internal STAGE_PREPARE msg)))"

definition overwrite :: "nat \<Rightarrow> bytes \<Rightarrow> bytes \<Rightarrow> bytes" where
  "overwrite offset chunk content =
     take offset (content @ replicate (offset - length content) 0) @ chunk @
     drop (offset + length chunk) content"

definition write_chunk_to_file ::
    "io_outcome \<Rightarrow> path \<Rightarrow> u64 \<Rightarrow> bytes \<Rightarrow> files \<Rightarrow> files \<times> unit result" where
  "write_chunk_to_file io path offset chunk files =
     (case files path of
        None \<Rightarrow> (files, Inl (map_internal STAGE_PUSH ''No such file or directory (os error 2)''))
      | Some content \<Rightarrow>
          (case io of
             IoOk \<Rightarrow> (files(path \<mapsto> overwrite (unat offset) chunk content), Inr ())
           | IoErr msg rest \<Rightarrow> (files(path := rest), Inl (map_internal STAGE_PUSH msg))))"

text \<open>
  \<open>digest_file\<close> feeds the hasher buffers of at most 64 KiB until a read returns nothing;
  the digest of a SHA-256 hasher is that of the concatenated updates.
\<close>

function read_buffers :: "nat \<Rightarrow> bytes \<Rightarrow> bytes list" where
  "read_buffers n content =
     (if content = [] \<or> n = 0 then [] else take n content # read_buffers n (drop n content))"
  by pat_completeness auto
termination
  by (relation "measure (\<lambda>(n, content). length content)") auto

declare read_buffers.simps [simp del]

definition digest_file ::
    "(bytes \<Rightarrow> string) \<Rightarrow> io_outcome \<Rightarrow> path \<Rightarrow> files \<Rightarrow> string result" where
  "digest_file sha io path files =
     (case files path of
        None \<Rightarrow> Inl (map_internal STAGE_COMMIT ''No such file or directory (os error 2)'')
      | Some content \<Rightarrow>
          (case io of
             IoOk \<Rightarrow> Inr (sha (fold (\<lambda>buf hashed. hashed @ buf) (read_buffers (1024 * 64) content) []))
           | IoErr msg _ \<Rightarrow> Inl (map_internal STAGE_COMMIT msg)))"

text \<open>Removal failures are only logged; \<open>fails\<close> says which removals fail.\<close>

definition apply_cleanup_plan :: "(path \<Rightarrow> bool) \<Rightarrow> CleanupPlan \<Rightarrow> files \<Rightarrow> files" where
  "apply_cleanup_plan fails plan files =
     fold (\<lambda>path files. if fails path then files else files(path := None)) plan files"

section \<open>Fingerprint of a prepare request\<close>

definition map_fingerprint_fragment :: "(string, string) btree \<Rightarrow> string" where
  "map_fingerprint_fragment m = concat (map (\<lambda>(key, value). key @ ''='' @ value @ [CHR 0x0A]) m)"

definition fingerprint :: "(bytes \<Rightarrow> string) \<Rightarrow> DeployPrepareRequest \<Rightarrow> string" where
  "fingerprint sha request =
     (let extra_hash =
            sha (as_bytes (map_fingerprint_fragment (dpr_target request)) @ as_bytes ''|'' @
                 as_bytes (map_fingerprint_fragment (dpr_policy request)))
      in dpr_name request @ ''|'' @ dpr_app_type request @ ''|'' @
         dpr_artifact_digest request @ ''|'' @ decimal (unat (dpr_artifact_size request)) @ ''|'' @
         dpr_manifest_digest request @ ''|'' @ extra_hash)"

section \<open>The locked sections of the operations\<close>

datatype PrepareDecision = Existing DeployPrepareResponse | Create UploadSession

definition session_file_path :: "ArtifactStore \<Rightarrow> string \<Rightarrow> path" where
  "session_file_path store deploy_id = as_root store @ [''sessions'', deploy_id @ ''.artifact'']"

definition touch :: "u64 \<Rightarrow> UploadSession \<Rightarrow> UploadSession" where
  "touch now session = session\<lparr>us_updated_at := now\<rparr>"

definition update_session ::
    "string \<Rightarrow> (UploadSession \<Rightarrow> UploadSession) \<Rightarrow> StoreState \<Rightarrow> StoreState" where
  "update_session deploy_id f state =
     state\<lparr>ss_sessions := bt_update deploy_id f (ss_sessions state)\<rparr>"

text \<open>The session that the idempotency index names for a key, if it is still live.\<close>

definition existing_session :: "StoreState \<Rightarrow> string \<Rightarrow> (string \<times> UploadSession) option" where
  "existing_session state key =
     (case bt_get (ss_idempotency state) key of
        None \<Rightarrow> None
      | Some existing_id \<Rightarrow> map_option (Pair existing_id) (bt_get (ss_sessions state) existing_id))"

definition idempotency_conflict :: ImagodError where
  "idempotency_conflict =
     new_error IdempotencyConflict STAGE_PREPARE ''idempotency_key is reused with different payload''"

definition prepare_check :: "ArtifactStore \<Rightarrow> DeployPrepareRequest \<Rightarrow> unit result" where
  "prepare_check store request =
     (if dpr_artifact_size request = 0
      then Inl (new_error BadRequest STAGE_PREPARE ''artifact_size must be > 0'')
      else if dpr_artifact_size request > as_max_artifact_size_bytes store
      then Inl (with_detail
             (with_detail
               (new_error StorageQuota STAGE_PREPARE ''artifact_size exceeds max_artifact_size_bytes'')
               ''artifact_size'' (decimal (unat (dpr_artifact_size request))))
             ''max_artifact_size_bytes'' (decimal (unat (as_max_artifact_size_bytes store))))
      else Inr ())"

definition prepare_decide ::
    "ArtifactStore \<Rightarrow> (bytes \<Rightarrow> string) \<Rightarrow> (string, nat) btree \<Rightarrow> u64 \<Rightarrow> string \<Rightarrow> string
       \<Rightarrow> DeployPrepareRequest \<Rightarrow> StoreState
       \<Rightarrow> StoreState \<times> CleanupPlan \<times> PrepareDecision result" where
  "prepare_decide store sha pinned now deploy_id upload_token request state0 =
     (let fp = fingerprint sha request;
          (state, plan) = collect_session_cleanup_locked store pinned state0 now None
      in case existing_session state (dpr_idempotency_key request) of
           Some (existing_id, existing) \<Rightarrow>
             if us_fingerprint existing \<noteq> fp then (state, plan, Inl idempotency_conflict)
             else (update_session existing_id (touch now) state, plan,
                   Inr (Existing (build_prepare_response (touch now existing)
                     (as_upload_session_ttl_secs store) now)))
         | None \<Rightarrow>
             (state, plan,
              Inr (Create
                \<lparr>us_deploy_id = deploy_id, us_service_name = dpr_name request,
                 us_idempotency_key = dpr_idempotency_key request, us_fingerprint = fp,
                 us_artifact_digest = dpr_artifact_digest request,
                 us_artifact_size = dpr_artifact_size request,
                 us_manifest_digest = dpr_manifest_digest request,
                 us_upload_token = upload_token,
                 us_file_path = session_file_path store deploy_id,
                 us_received_ranges = [], us_committed = False, us_inflight_writes = 0,
                 us_commit_in_progress = False, us_updated_at = now\<rparr>)))"

definition prepare_insert ::
    "ArtifactStore \<Rightarrow> (string, nat) btree \<Rightarrow> u64 \<Rightarrow> UploadSession \<Rightarrow> StoreState
       \<Rightarrow> StoreState \<times> CleanupPlan \<times> DeployPrepareResponse result" where
  "prepare_insert store pinned now candidate state0 =
     (let (state, plan) = collect_session_cleanup_locked store pinned state0 now None;
          ttl = as_upload_session_ttl_secs store
      in case existing_session state (us_idempotency_key candidate) of
           Some (existing_id, existing) \<Rightarrow>
             if us_fingerprint existing \<noteq> us_fingerprint candidate
             then (state, plan @ [us_file_path candidate], Inl idempotency_conflict)
             else (update_session existing_id (touch now) state, plan @ [us_file_path candidate],
                   Inr (build_prepare_response (touch now existing) ttl now))
         | None \<Rightarrow>
             let session = touch now candidate
             in (\<lparr>ss_sessions = bt_insert (us_deploy_id session) session (ss_sessions state),
                  ss_idempotency =
                    bt_insert (us_idempotency_key session) (us_deploy_id session)
                      (ss_idempotency state)\<rparr>,
                 plan, Inr (build_prepare_response session ttl now)))"

definition u64_of_usize :: "nat \<Rightarrow> u64" where
  "u64_of_usize n = (if n < 2 ^ 64 then of_nat n else - 1)"

definition push_check ::
    "ArtifactStore \<Rightarrow> (bytes \<Rightarrow> string) \<Rightarrow> ArtifactPushRequest \<Rightarrow> u64 result" where
  "push_check store sha request =
     (let header = apr_header request; chunk = apr_chunk request;
          max_chunk_size = u64_of_usize (as_max_chunk_size store)
      in if aph_length header > max_chunk_size
         then Inl (with_detail
                (with_detail
                  (new_error RangeInvalid STAGE_PUSH ''chunk length exceeds configured chunk_size'')
                  ''chunk_length'' (decimal (unat (aph_length header))))
                ''chunk_size'' (decimal (unat max_chunk_size)))
         else if (of_nat (length chunk) :: u64) \<noteq> aph_length header
         then Inl (new_error RangeInvalid STAGE_PUSH ''chunk length does not match header.length'')
         else if sha chunk \<noteq> aph_chunk_sha256 header
         then Inl (new_error ChunkHashMismatch STAGE_PUSH ''chunk sha256 mismatch'')
         else (case checked_add (aph_length header) (aph_offset header) of
                 None \<Rightarrow> Inl (new_error RangeInvalid STAGE_PUSH ''chunk overflow'')
               | Some chunk_end \<Rightarrow> Inr chunk_end))"

definition push_admit ::
    "ArtifactStore \<Rightarrow> (string, nat) btree \<Rightarrow> u64 \<Rightarrow> ArtifactPushChunkHeader \<Rightarrow> u64 \<Rightarrow> StoreState
       \<Rightarrow> StoreState \<times> CleanupPlan \<times> path result" where
  "push_admit store pinned now header chunk_end state0 =
     (let (state, plan) = collect_session_cleanup_locked store pinned state0 now None
      in case bt_get (ss_sessions state) (aph_deploy_id header) of
           None \<Rightarrow> (state, plan, Inl (new_error NotFound STAGE_PUSH ''deploy_id is not found''))
         | Some session \<Rightarrow>
             if us_upload_token session \<noteq> aph_upload_token header
             then (state, plan, Inl (new_error Unauthorized STAGE_PUSH ''upload_token mismatch''))
             else if us_commit_in_progress session
             then (state, plan, Inl (new_error Busy STAGE_PUSH ''artifact commit is in progress''))
             else if us_committed session
             then (state, plan, Inl (new_error BadRequest STAGE_PUSH ''artifact is already committed''))
             else if chunk_end > us_artifact_size session
             then (state, plan,
                   Inl (new_error RangeInvalid STAGE_PUSH ''chunk range is outside artifact size''))
             else if us_inflight_writes session \<ge> as_max_inflight_chunks store
             then (state, plan,
                   Inl (new_error Busy STAGE_PUSH ''max_inflight_chunks limit reached''))
             else (update_session (aph_deploy_id header)
                     (\<lambda>s. s\<lparr>us_inflight_writes := us_inflight_writes s + 1, us_updated_at := now\<rparr>)
                     state,
                   plan, Inr (us_file_path session)))"

definition push_record ::
    "u64 \<Rightarrow> ArtifactPushChunkHeader \<Rightarrow> u64 \<Rightarrow> unit result \<Rightarrow> StoreState
       \<Rightarrow> StoreState \<times> ArtifactPushAck result" where
  "push_record now header chunk_end write_result state =
     (case bt_get (ss_sessions state) (aph_deploy_id header) of
        None \<Rightarrow> (state, Inl (map_internal STAGE_PUSH ''session disappeared during artifact.push''))
      | Some session \<Rightarrow>
          let session1 =
                (if us_inflight_writes session > 0
                 then session\<lparr>us_inflight_writes := us_inflight_writes session - 1\<rparr> else session)
          in case write_result of
               Inl e \<Rightarrow> (update_session (aph_deploy_id header) (\<lambda>_. session1) state, Inl e)
             | Inr _ \<Rightarrow>
                 let session2 =
                       session1\<lparr>us_received_ranges :=
                           merge_range (us_received_ranges session1)
                             (range_from_start_end (aph_offset header) chunk_end),
                         us_updated_at := now\<rparr>
                 in (update_session (aph_deploy_id header) (\<lambda>_. session2) state,
                     Inr \<lparr>apa_received_ranges = us_received_ranges session2,
                          apa_next_missing_range =
                            next_missing_range (us_received_ranges session2)
                              (us_artifact_size session2),
                          apa_accepted_bytes = aph_length header\<rparr>))"

definition commit_admit ::
    "ArtifactStore \<Rightarrow> (string, nat) btree \<Rightarrow> u64 \<Rightarrow> ArtifactCommitRequest \<Rightarrow> StoreState
       \<Rightarrow> StoreState \<times> CleanupPlan \<times> (path \<times> string) result" where
  "commit_admit store pinned now request state0 =
     (let (state, plan) = collect_session_cleanup_locked store pinned state0 now None
      in case bt_get (ss_sessions state) (acr_deploy_id request) of
           None \<Rightarrow> (state, plan, Inl (new_error NotFound STAGE_COMMIT ''deploy_id is not found''))
         | Some session \<Rightarrow>
             if acr_artifact_digest request \<noteq> us_artifact_digest session
                \<or> acr_artifact_size request \<noteq> us_artifact_size session
                \<or> acr_manifest_digest request \<noteq> us_manifest_digest session
             then (state, plan, Inl (new_error BadRequest STAGE_COMMIT ''artifact metadata mismatch''))
             else if us_commit_in_progress session
             then (state, plan,
                   Inl (new_error Busy STAGE_COMMIT ''artifact commit is already in progress''))
             else if us_inflight_writes session > 0
             then (state, plan, Inl (new_error Busy STAGE_COMMIT ''artifact has in-flight writes''))
             else if \<not> is_complete (us_received_ranges session) (us_artifact_size session)
             then (state, plan,
                   Inl (new_error ArtifactIncomplete STAGE_COMMIT ''artifact is incomplete''))
             else (update_session (acr_deploy_id request)
                     (\<lambda>s. s\<lparr>us_commit_in_progress := True, us_updated_at := now\<rparr>) state,
                   plan, Inr (us_file_path session, us_artifact_digest session)))"

definition commit_finish ::
    "ArtifactStore \<Rightarrow> (string, nat) btree \<Rightarrow> u64 \<Rightarrow> ArtifactCommitRequest \<Rightarrow> string
       \<Rightarrow> string result \<Rightarrow> StoreState
       \<Rightarrow> StoreState \<times> CleanupPlan \<times> ArtifactCommitResponse result" where
  "commit_finish store pinned now request expected_digest digest_result state =
     (case bt_get (ss_sessions state) (acr_deploy_id request) of
        None \<Rightarrow>
          (state, [], Inl (map_internal STAGE_COMMIT ''session disappeared during artifact.commit''))
      | Some session \<Rightarrow>
          let session1 = session\<lparr>us_commit_in_progress := False, us_updated_at := now\<rparr>;
              state1 = update_session (acr_deploy_id request) (\<lambda>_. session1) state
          in case digest_result of
               Inl e \<Rightarrow> (state1, [], Inl e)
             | Inr digest \<Rightarrow>
                 if digest \<noteq> expected_digest
                 then (state1, [],
                       Inl (new_error BadManifest STAGE_COMMIT ''artifact digest mismatch''))
                 else
                   let session2 = session1\<lparr>us_committed := True\<rparr>;
                       state2 = update_session (acr_deploy_id request) (\<lambda>_. session2) state;
                       (state3, plan) =
                         collect_session_cleanup_locked store pinned state2 now
                           (Some (us_deploy_id session2))
                   in (state3, plan,
                       Inr \<lparr>acp_artifact_id = us_artifact_digest session2, acp_verified = True\<rparr>))"

text \<open>The common section of \<open>committed_artifact\<close> and \<open>service_name_for_deploy\<close>.\<close>

definition lookup_committed ::
    "ArtifactStore \<Rightarrow> (string, nat) btree \<Rightarrow> u64 \<Rightarrow> string \<Rightarrow> StoreState
       \<Rightarrow> StoreState \<times> CleanupPlan \<times> UploadSession result" where
  "lookup_committed store pinned now deploy_id state0 =
     (let (state, plan) = collect_session_cleanup_locked store pinned state0 now (Some deploy_id)
      in case bt_get (ss_sessions state) deploy_id of
           None \<Rightarrow>
             (state, plan,
              Inl (new_error NotFound STAGE_ORCHESTRATE ''deploy_id is not found for command.start''))
         | Some session \<Rightarrow>
             if \<not> us_committed session
             then (state, plan,
                   Inl (new_error ArtifactIncomplete STAGE_ORCHESTRATE
                     ''artifact.commit has not been completed''))
             else (update_session deploy_id (touch now) state, plan, Inr (touch now session)))"

definition purge_section ::
    "ArtifactStore \<Rightarrow> (string, nat) btree \<Rightarrow> u64 \<Rightarrow> string \<Rightarrow> StoreState
       \<Rightarrow> StoreState \<times> CleanupPlan" where
  "purge_section store pinned now deploy_id state0 =
     (let (state, plan) = collect_session_cleanup_locked store pinned state0 now (Some deploy_id);
          (state', plan') = collect_sessions_by_deploy_ids state [deploy_id]
      in (state', plan @ plan'))"

section \<open>The operations\<close>

record World =
  w_state :: StoreState
  w_pinned :: "(string, nat) btree"
  w_files :: files

definition prepare ::
    "ArtifactStore \<Rightarrow> (bytes \<Rightarrow> string) \<Rightarrow> (path \<Rightarrow> bool) \<Rightarrow> io_outcome \<Rightarrow> u64 \<Rightarrow> u64
       \<Rightarrow> string \<Rightarrow> string \<Rightarrow> DeployPrepareRequest \<Rightarrow> World
       \<Rightarrow> World \<times> DeployPrepareResponse result" where
  "prepare store sha fails io now now_after_io deploy_id upload_token request w =
     (case prepare_check store request of
        Inl e \<Rightarrow> (w, Inl e)
      | Inr _ \<Rightarrow>
          let (state, plan, decision) =
                prepare_decide store sha (w_pinned w) now deploy_id upload_token request (w_state w)
          in case decision of
               Inl e \<Rightarrow>
                 (w\<lparr>w_state := state, w_files := apply_cleanup_plan fails plan (w_files w)\<rparr>, Inl e)
             | Inr (Existing response) \<Rightarrow>
                 (w\<lparr>w_state := state, w_files := apply_cleanup_plan fails plan (w_files w)\<rparr>,
                  Inr response)
             | Inr (Create candidate) \<Rightarrow>
                 let (files, created) =
                       create_preallocated_file io (us_file_path candidate)
                         (us_artifact_size candidate) (w_files w)
                 in case created of
                      Inl e \<Rightarrow>
                        (w\<lparr>w_state := state, w_files := apply_cleanup_plan fails plan files\<rparr>, Inl e)
                    | Inr _ \<Rightarrow>
                        let (state', plan', result) =
                              prepare_insert store (w_pinned w) now_after_io candidate state
                        in (w\<lparr>w_state := state',
                              w_files := apply_cleanup_plan fails (plan @ plan') files\<rparr>, result))"

text \<open>
  In \<open>push\<close> every failing branch of the first section, and a failed write, leaves the
  function at once: the cleanup plan collected before is not applied.
\<close>

definition push ::
    "ArtifactStore \<Rightarrow> (bytes \<Rightarrow> string) \<Rightarrow> (path \<Rightarrow> bool) \<Rightarrow> io_outcome \<Rightarrow> u64
       \<Rightarrow> ArtifactPushRequest \<Rightarrow> World \<Rightarrow> World \<times> ArtifactPushAck result" where
  "push store sha fails io now request w =
     (case push_check store sha request of
        Inl e \<Rightarrow> (w, Inl e)
      | Inr chunk_end \<Rightarrow>
          let header = apr_header request;
              (state, plan, admitted) =
                push_admit store (w_pinned w) now header chunk_end (w_state w)
          in case admitted of
               Inl e \<Rightarrow> (w\<lparr>w_state := state\<rparr>, Inl e)
             | Inr file_path \<Rightarrow>
                 let (files, write_result) =
                       write_chunk_to_file io file_path (aph_offset header) (apr_chunk request)
                         (w_files w);
                     (state', result) = push_record now header chunk_end write_result state
                 in case result of
                      Inl e \<Rightarrow> (w\<lparr>w_state := state', w_files := files\<rparr>, Inl e)
                    | Inr ack \<Rightarrow>
                        (w\<lparr>w_state := state', w_files := apply_cleanup_plan fails plan files\<rparr>,
                         Inr ack))"

definition commit ::
    "ArtifactStore \<Rightarrow> (bytes \<Rightarrow> string) \<Rightarrow> (path \<Rightarrow> bool) \<Rightarrow> io_outcome \<Rightarrow> u64
       \<Rightarrow> ArtifactCommitRequest \<Rightarrow> World \<Rightarrow> World \<times> ArtifactCommitResponse result" where
  "commit store sha fails io now request w =
     (let (state, plan, admitted) = commit_admit store (w_pinned w) now request (w_state w)
      in case admitted of
           Inl e \<Rightarrow> (w\<lparr>w_state := state\<rparr>, Inl e)
         | Inr (file_path, expected_digest) \<Rightarrow>
             let digest_result = digest_file sha io file_path (w_files w);
                 (state', plan', result) =
                   commit_finish store (w_pinned w) now request expected_digest digest_result state
             in case result of
                  Inl e \<Rightarrow> (w\<lparr>w_state := state'\<rparr>, Inl e)
                | Inr response \<Rightarrow>
                    (w\<lparr>w_state := state',
                       w_files := apply_cleanup_plan fails (plan @ plan') (w_files w)\<rparr>,
                     Inr response))"

definition committed_artifact ::
    "ArtifactStore \<Rightarrow> (path \<Rightarrow> bool) \<Rightarrow> u64 \<Rightarrow> string \<Rightarrow> World \<Rightarrow> World \<times> CommittedArtifact result" where
  "committed_artifact store fails now deploy_id w =
     (let (state, plan, found) = lookup_committed store (w_pinned w) now deploy_id (w_state w)
      in case found of
           Inl e \<Rightarrow> (w\<lparr>w_state := state\<rparr>, Inl e)
         | Inr session \<Rightarrow>
             (w\<lparr>w_state := state, w_files := apply_cleanup_plan fails plan (w_files w)\<rparr>,
              Inr \<lparr>ca_deploy_id = us_deploy_id session, ca_path = us_file_path session,
                   ca_manifest_digest = us_manifest_digest session,
                   ca_artifact_digest = us_artifact_digest session\<rparr>))"

definition service_name_for_deploy ::
    "ArtifactStore \<Rightarrow> (path \<Rightarrow> bool) \<Rightarrow> u64 \<Rightarrow> string \<Rightarrow> World \<Rightarrow> World \<times> string result" where
  "service_name_for_deploy store fails now deploy_id w =
     (let (state, plan, found) = lookup_committed store (w_pinned w) now deploy_id (w_state w)
      in case found of
           Inl e \<Rightarrow> (w\<lparr>w_state := state\<rparr>, Inl e)
         | Inr session \<Rightarrow>
             (w\<lparr>w_state := state, w_files := apply_cleanup_plan fails plan (w_files w)\<rparr>,
              Inr (us_service_name session)))"

definition purge_deploy_session ::
    "ArtifactStore \<Rightarrow> (path \<Rightarrow> bool) \<Rightarrow> u64 \<Rightarrow> string \<Rightarrow> World \<Rightarrow> World \<times> unit result" where
  "purge_deploy_session store fails now deploy_id w =
     (let (state, plan) = purge_section store (w_pinned w) now deploy_id (w_state w)
      in (w\<lparr>w_state := state, w_files := apply_cleanup_plan fails plan (w_files w)\<rparr>, Inr ()))"

section \<open>What the cleanup removes\<close>

abbreviation live :: "StoreState \<Rightarrow> string \<Rightarrow> UploadSession option" where
  "live st \<equiv> bt_get (ss_sessions st)"

definition store_wf :: "StoreState \<Rightarrow> bool" where
  "store_wf st \<longleftrightarrow> bt_wf (ss_sessions st) \<and> bt_wf (ss_idempotency st) \<and>
     (\<forall>d s. live st d = Some s \<longrightarrow>
        us_deploy_id s = d \<and> bt_get (ss_idempotency st) (us_idempotency_key s) = Some d)"

definition shrinks :: "StoreState \<Rightarrow> StoreState \<Rightarrow> CleanupPlan \<Rightarrow> bool" where
  "shrinks st st' plan \<longleftrightarrow>
     (\<forall>d s. live st' d = Some s \<longrightarrow> live st d = Some s) \<and>
     (\<forall>p \<in> set plan. \<exists>d s. live st d = Some s \<and> live st' d = None \<and> p = us_file_path s)"

definition drop_session :: "string \<Rightarrow> UploadSession \<Rightarrow> StoreState \<Rightarrow> StoreState" where
  "drop_session d s st =
     \<lparr>ss_sessions = bt_remove d (ss_sessions st),
      ss_idempotency =
        (if bt_get (ss_idempotency st) (us_idempotency_key s) = Some d
         then bt_remove (us_idempotency_key s) (ss_idempotency st) else ss_idempotency st)\<rparr>"

lemma removal_Cons:
  "collect_sessions_for_removal_locked st (d # ids) =
     (case live st d of
        None \<Rightarrow> collect_sessions_for_removal_locked st ids
      | Some s \<Rightarrow> map_prod id (Cons (us_file_path s))
                     (collect_sessions_for_removal_locked (drop_session d s st) ids))"
  by (simp add: drop_session_def Let_def split: option.split prod.split)

declare collect_sessions_for_removal_locked.simps(2) [simp del]

lemma live_drop_session: "live (drop_session d s st) = (live st)(d := None)"
  by (simp add: drop_session_def btree_simps)

lemma store_wf_drop_session:
  assumes "store_wf st" "live st d = Some s"
  shows "store_wf (drop_session d s st)"
proof -
  have "us_idempotency_key s' \<noteq> us_idempotency_key s" if "live st d' = Some s'" "d' \<noteq> d" for d' s'
    using assms that unfolding store_wf_def by (metis option.inject)
  then show ?thesis
    using assms
    by (auto simp: store_wf_def drop_session_def btree_simps bt_wf_remove split: if_splits)
qed

lemma bt_remove_absent: "bt_get m d = None \<Longrightarrow> bt_remove d m = m"
  by (force simp: bt_remove_def filter_id_conv map_of_eq_None_iff)

lemma removal_sessions:
  "ss_sessions (fst (collect_sessions_for_removal_locked st ids)) =
     filter (\<lambda>(d, _). d \<notin> set ids) (ss_sessions st)"
proof (induction ids arbitrary: st)
  case Nil
  then show ?case by simp
next
  case (Cons d ids)
  have *: "filter (\<lambda>(d', _). d' \<notin> set (d # ids)) m = filter (\<lambda>(d', _). d' \<notin> set ids) (bt_remove d m)"
    for m :: "(string, UploadSession) btree"
    by (auto simp: bt_remove_def intro: filter_cong)
  show ?case
  proof (cases "live st d")
    case None
    then show ?thesis using Cons.IH * bt_remove_absent [OF None] by (simp add: removal_Cons)
  next
    case (Some s)
    then show ?thesis
      using Cons.IH [of "drop_session d s st"] * by (simp add: removal_Cons drop_session_def)
  qed
qed

lemma map_of_filter_key:
  "bt_get (filter (\<lambda>(d, _). d \<notin> A) m) k = (if k \<in> A then None else bt_get m k)"
  by (induction m) auto

lemma removal_live:
  "live (fst (collect_sessions_for_removal_locked st ids)) d =
     (if d \<in> set ids then None else live st d)"
  unfolding removal_sessions by (rule map_of_filter_key)

lemma removal_plan:
  "set (snd (collect_sessions_for_removal_locked st ids)) =
     {us_file_path s |d s. d \<in> set ids \<and> live st d = Some s}"
proof (induction ids arbitrary: st)
  case Nil
  then show ?case by simp
next
  case (Cons d ids)
  show ?case
  proof (cases "live st d")
    case None
    then show ?thesis using Cons.IH by (auto simp: removal_Cons)
  next
    case (Some s)
    have "{us_file_path s' |d' s'. d' \<in> set (d # ids) \<and> live st d' = Some s'} =
        insert (us_file_path s)
          {us_file_path s' |d' s'. d' \<in> set ids \<and> live (drop_session d s st) d' = Some s'}"
      using Some by (auto simp: live_drop_session split: if_splits) (metis option.inject)
    then show ?thesis
      using Cons.IH [of "drop_session d s st"] Some by (simp add: removal_Cons)
  qed
qed

lemma removal_wf: "store_wf st \<Longrightarrow> store_wf (fst (collect_sessions_for_removal_locked st ids))"
  by (induction ids arbitrary: st)
    (auto simp: removal_Cons store_wf_drop_session split: option.split)

lemma removal_shrinks:
  assumes "collect_sessions_for_removal_locked st ids = (st', plan)"
  shows "shrinks st st' plan"
  using removal_live [of st ids] removal_plan [of st ids] assms
  by (fastforce simp: shrinks_def split: if_splits)

lemma shrinks_trans: "shrinks st st' p \<Longrightarrow> shrinks st' st'' q \<Longrightarrow> shrinks st st'' (p @ q)"
  unfolding shrinks_def by (metis (no_types, lifting) Un_iff option.exhaust set_append)

lemma orphan_keys_dead:
  assumes "store_wf st"
  shows "store_wf (cleanup_orphan_idempotency st)"
    and "live (cleanup_orphan_idempotency st) = live st"
proof -
  show "live (cleanup_orphan_idempotency st) = live st"
    by (simp add: cleanup_orphan_idempotency_def)
  have wf: "bt_wf (ss_idempotency st)" using assms by (simp add: store_wf_def)
  have "(k, d') \<in> set (ss_idempotency st) \<Longrightarrow> bt_get (ss_idempotency st) k = Some d \<Longrightarrow> d' = d" for k d d'
    using bt_get_iff [OF wf] by (metis option.inject)
  then show "store_wf (cleanup_orphan_idempotency st)"
    using assms
    by (fastforce simp: store_wf_def cleanup_orphan_idempotency_def bt.wf_rem_all bt.get_rem_all
        bt_contains_def)
qed


definition evictable :: "ArtifactStore \<Rightarrow> u64 \<Rightarrow> string set \<Rightarrow> string \<Rightarrow> UploadSession \<Rightarrow> bool" where
  "evictable store now prot d s \<longleftrightarrow> \<not> busy_session s \<and>
     (if us_committed s then d \<notin> prot
      else as_upload_session_ttl_secs store \<le> saturating_sub now (us_updated_at s))"

lemma removed_was_listed:
  assumes "collect_sessions_for_removal_locked st ids = (st', plan)"
    and "live st d = Some s" "live st' d = None"
  shows "d \<in> set ids"
  using assms removal_live [of st ids d] by (simp split: if_splits)

lemma expired_ids_spec:
  "d \<in> set (expired_ids st now ttl) \<Longrightarrow> \<exists>s. (d, s) \<in> set (ss_sessions st) \<and>
     \<not> busy_session s \<and> \<not> us_committed s \<and> ttl \<le> saturating_sub now (us_updated_at s)"
  by (auto simp: expired_ids_def)

lemma take_sort_key_set: "x \<in> set (take n (sort_key f xs)) \<Longrightarrow> x \<in> set xs"
  by (metis in_set_takeD set_sort)

lemma orphan_remove_ids_spec:
  "d \<in> set (orphan_remove_ids st now ttl prot) \<Longrightarrow> \<exists>s. (d, s) \<in> set (ss_sessions st) \<and>
     \<not> busy_session s \<and> us_committed s \<and> d \<notin> prot"
  by (auto simp: orphan_remove_ids_def)

lemma overflow_ids_spec:
  "d \<in> set (overflow_ids (orphan_survivors st prot ids) n) \<Longrightarrow>
     \<exists>s. (d, s) \<in> set (ss_sessions st) \<and> \<not> busy_session s \<and> us_committed s \<and> d \<notin> prot"
  by (auto simp: overflow_ids_def orphan_survivors_def split: if_splits dest!: take_sort_key_set)

lemma session_unique:
  "bt_wf (ss_sessions st) \<Longrightarrow> live st d = Some s \<Longrightarrow> (d, s') \<in> set (ss_sessions st) \<Longrightarrow> s' = s"
  by (metis bt_get_iff option.inject)

lemma expired_evicts:
  assumes "collect_expired_sessions st now ttl = (st', plan)" "bt_wf (ss_sessions st)"
    and "live st d = Some s" "live st' d = None"
  shows "\<not> busy_session s \<and> \<not> us_committed s \<and> ttl \<le> saturating_sub now (us_updated_at s)"
proof -
  have "d \<in> set (expired_ids st now ttl)"
    using removed_was_listed [OF _ assms(3,4)] assms(1) by (simp add: collect_expired_sessions_def)
  then show ?thesis
    using expired_ids_spec session_unique [OF assms(2,3)] by metis
qed

lemma orphan_evicts:
  assumes "collect_orphan_committed_sessions st now ttl n prot = (st', plan)"
    and "bt_wf (ss_sessions st)" "live st d = Some s" "live st' d = None"
  shows "\<not> busy_session s \<and> us_committed s \<and> d \<notin> prot"
proof -
  have "d \<in> set (orphan_remove_ids st now ttl prot) \<or>
      d \<in> set (overflow_ids (orphan_survivors st prot (orphan_remove_ids st now ttl prot))
        (n - protected_committed_count st prot))"
    using removed_was_listed [OF assms(1) [unfolded collect_orphan_committed_sessions_def Let_def]
      assms(3,4)] by simp
  then have "\<exists>s'. (d, s') \<in> set (ss_sessions st) \<and> \<not> busy_session s' \<and> us_committed s' \<and> d \<notin> prot"
    using orphan_remove_ids_spec overflow_ids_spec by blast
  then show ?thesis using session_unique [OF assms(2,3)] by metis
qed

lemma cleanup_spec:
  assumes "collect_session_cleanup_locked store pinned st now keep = (st', plan)"
    and "store_wf st"
  shows "store_wf st'" and "shrinks st st' plan"
    and "live st d = Some s \<Longrightarrow> live st' d = None \<Longrightarrow>
           evictable store now (protected_deploy_ids pinned keep) d s"
proof -
  obtain st1 p1 where 1: "collect_expired_sessions st now (as_upload_session_ttl_secs store) = (st1, p1)"
    by force
  obtain st2 p2 where 2: "collect_orphan_committed_sessions st1 now
      (as_committed_session_ttl_secs store) (as_max_committed_sessions store)
      (protected_deploy_ids pinned keep) = (st2, p2)"
    by force
  have st': "st' = cleanup_orphan_idempotency st2" and plan: "plan = p1 @ p2"
    using assms(1) 1 2 by (simp_all add: collect_session_cleanup_locked_def Let_def)
  have wf1: "store_wf st1" and sh1: "shrinks st st1 p1"
    using 1 removal_wf [OF assms(2)] removal_shrinks
    unfolding collect_expired_sessions_def by (metis fst_conv)+
  have wf2: "store_wf st2" and sh2: "shrinks st1 st2 p2"
    using 2 removal_wf [OF wf1] removal_shrinks
    unfolding collect_orphan_committed_sessions_def Let_def by (metis fst_conv)+
  show "store_wf st'" unfolding st' by (rule orphan_keys_dead(1) [OF wf2])
  have live': "live st' = live st2" unfolding st' by (rule orphan_keys_dead(2) [OF wf2])
  show "shrinks st st' plan"
    using shrinks_trans [OF sh1 sh2] live' plan by (simp add: shrinks_def)
  assume s: "live st d = Some s" and gone: "live st' d = None"
  show "evictable store now (protected_deploy_ids pinned keep) d s"
  proof (cases "live st1 d")
    case None
    then show ?thesis
      using expired_evicts [OF 1 _ s] assms(2) by (simp add: store_wf_def evictable_def)
  next
    case (Some s1)
    then have "s1 = s" using sh1 s by (auto simp: shrinks_def)
    then show ?thesis
      using orphan_evicts [OF 2 _ Some] wf1 gone live' by (simp add: store_wf_def evictable_def)
  qed
qed

section \<open>Capacity of committed sessions\<close>

lemma removal_evicted:
  assumes "collect_sessions_for_removal_locked st ids = (st', plan)"
    and "live st d = Some s" "live st' d = None"
  shows "us_file_path s \<in> set plan"
  using removed_was_listed [OF assms] removal_plan [of st ids] assms(1,2) by auto

lemma sessions_orphan_idempotency [simp]:
  "ss_sessions (cleanup_orphan_idempotency st) = ss_sessions st"
  by (simp add: cleanup_orphan_idempotency_def)

lemma cleanup_cases:
  assumes "collect_session_cleanup_locked store pinned st now keep = (st', plan)" "store_wf st"
  obtains st1 p1 st2 p2 where
    "collect_expired_sessions st now (as_upload_session_ttl_secs store) = (st1, p1)"
    "collect_orphan_committed_sessions st1 now (as_committed_session_ttl_secs store)
       (as_max_committed_sessions store) (protected_deploy_ids pinned keep) = (st2, p2)"
    "st' = cleanup_orphan_idempotency st2" "plan = p1 @ p2" "store_wf st1" "store_wf st2"
    "shrinks st st1 p1" "shrinks st1 st2 p2"
proof -
  obtain st1 p1 where 1: "collect_expired_sessions st now (as_upload_session_ttl_secs store) = (st1, p1)"
    by force
  obtain st2 p2 where 2: "collect_orphan_committed_sessions st1 now
      (as_committed_session_ttl_secs store) (as_max_committed_sessions store)
      (protected_deploy_ids pinned keep) = (st2, p2)"
    by force
  have wf1: "store_wf st1" and sh1: "shrinks st st1 p1"
    using 1 removal_wf [OF assms(2)] removal_shrinks
    unfolding collect_expired_sessions_def by (metis fst_conv)+
  have "store_wf st2" "shrinks st1 st2 p2"
    using 2 removal_wf [OF wf1] removal_shrinks
    unfolding collect_orphan_committed_sessions_def Let_def by (metis fst_conv)+
  then show thesis
    using that [OF 1 2] wf1 sh1 assms(1) 1 2
    by (simp add: collect_session_cleanup_locked_def Let_def)
qed

lemma cleanup_plan_complete:
  assumes "collect_session_cleanup_locked store pinned st now keep = (st', plan)" "store_wf st"
    and "live st d = Some s" "live st' d = None"
  shows "us_file_path s \<in> set plan"
  using assms(1,2)
proof (rule cleanup_cases)
  fix st1 p1 st2 p2
  assume 1: "collect_expired_sessions st now (as_upload_session_ttl_secs store) = (st1, p1)"
    and 2: "collect_orphan_committed_sessions st1 now (as_committed_session_ttl_secs store)
       (as_max_committed_sessions store) (protected_deploy_ids pinned keep) = (st2, p2)"
    and *: "st' = cleanup_orphan_idempotency st2" "plan = p1 @ p2" "shrinks st st1 p1"
  then show ?thesis
    using removal_evicted [OF 1 [unfolded collect_expired_sessions_def] assms(3)]
      removal_evicted [OF 2 [unfolded collect_orphan_committed_sessions_def Let_def], of d s] assms(3,4)
    by (cases "live st1 d") (auto simp: shrinks_def)
qed

lemma cleanup_evicts_outdated:
  assumes cl: "collect_session_cleanup_locked store pinned st now keep = (st', plan)" and wf: "store_wf st"
    and s: "live st d = Some s" "\<not> busy_session s"
  shows "\<not> us_committed s \<Longrightarrow> as_upload_session_ttl_secs store \<le> saturating_sub now (us_updated_at s) \<Longrightarrow> live st' d = None"
    and "us_committed s \<Longrightarrow> d \<notin> protected_deploy_ids pinned keep \<Longrightarrow>
      as_committed_session_ttl_secs store \<le> saturating_sub now (us_updated_at s) \<Longrightarrow> live st' d = None"
proof -
  obtain st1 p1 st2 p2 where
    1: "collect_expired_sessions st now (as_upload_session_ttl_secs store) = (st1, p1)" and
    2: "collect_orphan_committed_sessions st1 now (as_committed_session_ttl_secs store)
       (as_max_committed_sessions store) (protected_deploy_ids pinned keep) = (st2, p2)" and
    st': "st' = cleanup_orphan_idempotency st2" and sh: "shrinks st st1 p1" "shrinks st1 st2 p2"
    by (rule cleanup_cases [OF cl wf])
  have same: "live st' = live st2" by (simp add: st')
  have gone: "live st2 d = None" if "live st1 d = None" using that sh(2) by (cases "live st2 d") (auto simp: shrinks_def)
  note live1 = removal_live [of st "expired_ids st now (as_upload_session_ttl_secs store)" d,
      folded collect_expired_sessions_def, unfolded 1 fst_conv]
  show "live st' d = None" if "\<not> us_committed s" "as_upload_session_ttl_secs store \<le> saturating_sub now (us_updated_at s)"
  proof -
    have "d \<in> set (expired_ids st now (as_upload_session_ttl_secs store))"
      using that s(2) map_of_SomeD [OF s(1)] by (force simp: expired_ids_def)
    then show ?thesis using gone by (simp add: same live1)
  qed
  show "live st' d = None" if c: "us_committed s" "d \<notin> protected_deploy_ids pinned keep"
    "as_committed_session_ttl_secs store \<le> saturating_sub now (us_updated_at s)"
  proof (cases "live st1 d")
    case None
    then show ?thesis by (simp add: same gone)
  next
    case (Some s1)
    then have "s1 = s" using sh(1) s(1) by (auto simp: shrinks_def)
    then have "d \<in> set (orphan_remove_ids st1 now (as_committed_session_ttl_secs store) (protected_deploy_ids pinned keep))"
      using c s(2) map_of_SomeD [OF Some] by (force simp: orphan_remove_ids_def)
    then show ?thesis
      using 2 removal_live [of st1 _ d] by (auto simp: same collect_orphan_committed_sessions_def Let_def dest!: arg_cong [of _ _ fst])
  qed
qed

definition idle_committed :: "string set \<Rightarrow> StoreState \<Rightarrow> (string \<times> UploadSession) list" where
  "idle_committed prot st =
     filter (\<lambda>(d, s). us_committed s \<and> \<not> busy_session s \<and> d \<notin> prot) (ss_sessions st)"

lemma filter_drops_taken:
  assumes "distinct (map fst xs)" "mset ys = mset xs"
  shows "length (filter (\<lambda>x. fst x \<notin> fst ` set (take k ys)) xs) = length xs - k"
proof -
  let ?P = "\<lambda>x. fst x \<notin> fst ` set (take k ys)"
  have dist: "distinct (map fst ys)"
    using assms by (metis mset_eq_imp_distinct_iff mset_map)
  then have "distinct (map fst (take k ys) @ map fst (drop k ys))"
    by (metis append_take_drop_id map_append)
  then have "filter ?P (drop k ys) = drop k ys" "filter ?P (take k ys) = []"
    by (auto simp: filter_id_conv filter_empty_conv)
  then have "filter ?P ys = drop k ys"
    by (metis append_Nil append_take_drop_id filter_append)
  then have "mset (filter ?P xs) = mset (drop k ys)"
    using assms(2) by (metis mset_filter)
  then have "length (filter ?P xs) = length (drop k ys)"
    using mset_eq_length by blast
  then show ?thesis using mset_eq_length [OF assms(2)] by simp
qed

lemma overflow_bound:
  assumes "distinct (map fst survivors)"
  shows "length (filter (\<lambda>x. fst x \<notin> set (overflow_ids survivors n)) survivors) \<le> n"
proof (cases "n < length survivors")
  case True
  then show ?thesis
    using filter_drops_taken [OF assms, of "sort_key snd survivors" "length survivors - n"]
    by (simp add: overflow_ids_def)
next
  case False
  then show ?thesis using length_filter_le le_trans not_less by blast
qed

lemma orphan_capacity:
  assumes "collect_orphan_committed_sessions st now ttl n prot = (st', plan)" "bt_wf (ss_sessions st)"
  shows "length (idle_committed prot st') \<le> n - protected_committed_count st' prot"
proof -
  define ids where "ids = orphan_remove_ids st now ttl prot"
  define surv where "surv = orphan_survivors st prot ids"
  define over where "over = overflow_ids surv (n - protected_committed_count st prot)"
  have ss: "ss_sessions st' = filter (\<lambda>(d, _). d \<notin> set (ids @ over)) (ss_sessions st)"
    using assms(1) removal_sessions [of st "ids @ over"]
    unfolding collect_orphan_committed_sessions_def Let_def ids_def surv_def over_def by (metis fst_conv)
  have surv_eq: "map fst surv = map fst (filter (\<lambda>(d, _). d \<notin> set ids) (idle_committed prot st))"
    by (simp add: surv_def orphan_survivors_def idle_committed_def split_def o_def conj_ac)
  have "map fst (idle_committed prot st') = filter (\<lambda>d. d \<notin> set over) (map fst surv)"
    unfolding surv_eq by (simp add: idle_committed_def ss filter_map split_def o_def conj_ac)
  moreover have "distinct (map fst surv)"
    unfolding surv_eq using bt_wf_distinct [OF assms(2)]
    by (auto simp: idle_committed_def intro: distinct_map_filter)
  ultimately have "length (idle_committed prot st') \<le> n - protected_committed_count st prot"
    using overflow_bound [of surv "n - protected_committed_count st prot"]
    by (metis (no_types, lifting) filter_map length_map o_def over_def filter_cong)
  moreover have "protected_committed_count st' prot = protected_committed_count st prot"
    using orphan_remove_ids_spec [of _ st now ttl prot] overflow_ids_spec [of _ st prot ids]
    unfolding protected_committed_count_def ss
    by (auto simp: over_def surv_def ids_def intro!: arg_cong [of _ _ length] filter_cong)
  ultimately show ?thesis by simp
qed

lemma overflow_oldest:
  assumes "d \<in> set (overflow_ids survivors n)" "(e, u') \<in> set survivors" "e \<notin> set (overflow_ids survivors n)"
  shows "\<exists>u. (d, u) \<in> set survivors \<and> u \<le> u'"
proof -
  let ?k = "length survivors - n" and ?ys = "sort_key snd survivors"
  have n: "n < length survivors" using assms(1) by (auto simp: overflow_ids_def split: if_splits)
  then obtain u where u: "(d, u) \<in> set (take ?k ?ys)"
    using assms(1) by (auto simp: overflow_ids_def)
  have "(e, u') \<in> set ?ys" "(e, u') \<notin> set (take ?k ?ys)"
    using assms(2,3) n by (force simp: overflow_ids_def)+
  then have "(e, u') \<in> set (drop ?k ?ys)"
    by (metis UnE append_take_drop_id set_append)
  moreover have "sorted (map snd (take ?k ?ys) @ map snd (drop ?k ?ys))"
    by (metis append_take_drop_id map_append sorted_sort_key)
  ultimately have "u \<le> u'" using u by (force simp: sorted_append)
  then show ?thesis using u take_sort_key_set by fast
qed

lemma orphan_evicts_oldest:
  assumes ev: "collect_orphan_committed_sessions st now ttl n prot = (st', plan)" "bt_wf (ss_sessions st)"
    and d: "live st d = Some s" "live st' d = None" "saturating_sub now (us_updated_at s) < ttl"
    and e: "(e, s') \<in> set (idle_committed prot st')"
  shows "us_updated_at s \<le> us_updated_at s'"
proof -
  define ids where "ids = orphan_remove_ids st now ttl prot"
  define surv where "surv = orphan_survivors st prot ids"
  define over where "over = overflow_ids surv (n - protected_committed_count st prot)"
  have rm: "collect_sessions_for_removal_locked st (ids @ over) = (st', plan)"
    using ev(1) by (simp add: collect_orphan_committed_sessions_def Let_def ids_def surv_def over_def)
  have "d \<notin> set ids"
    using session_unique [OF ev(2) d(1)] d(3) by (auto simp: ids_def orphan_remove_ids_def)
  then have "d \<in> set over" using removed_was_listed [OF rm d(1,2)] by simp
  have e': "(e, s') \<in> set (ss_sessions st)" "e \<notin> set (ids @ over)"
    using e removal_sessions [of st "ids @ over"] rm by (auto simp: idle_committed_def)
  then have "(e, us_updated_at s') \<in> set surv"
    using e by (force simp: surv_def orphan_survivors_def idle_committed_def)
  then obtain u where "(d, u) \<in> set surv" "u \<le> us_updated_at s'"
    using overflow_oldest \<open>d \<in> set over\<close> e'(2) unfolding over_def by fastforce
  then show ?thesis
    using session_unique [OF ev(2) d(1)] by (auto simp: surv_def orphan_survivors_def)
qed


section \<open>Single operations\<close>

definition same_upload :: "UploadSession \<Rightarrow> UploadSession \<Rightarrow> bool" where
  "same_upload s s' \<longleftrightarrow> us_deploy_id s' = us_deploy_id s \<and> us_idempotency_key s' = us_idempotency_key s \<and>
     us_artifact_size s' = us_artifact_size s \<and> us_artifact_digest s' = us_artifact_digest s"

lemma live_update_session:
  "live (update_session d f st) = (live st)(d := map_option f (live st d))"
  by (simp add: update_session_def btree_simps)

lemma store_wf_update_session:
  "store_wf st \<Longrightarrow> live st d = Some s \<Longrightarrow> same_upload s (f s) \<Longrightarrow> store_wf (update_session d f st)"
  by (auto simp: store_wf_def update_session_def btree_simps bt_wf_update same_upload_def
      split: if_splits)

lemma existing_session_live:
  "existing_session st key = Some (d, s) \<Longrightarrow> live st d = Some s"
  by (auto simp: existing_session_def split: option.splits)

lemma store_wf_insert:
  assumes wf: "store_wf st" and none: "existing_session st (us_idempotency_key s) = None"
  shows "store_wf \<lparr>ss_sessions = bt_insert (us_deploy_id s) s (ss_sessions st),
    ss_idempotency = bt_insert (us_idempotency_key s) (us_deploy_id s) (ss_idempotency st)\<rparr>"
proof -
  have "us_idempotency_key s' \<noteq> us_idempotency_key s" if "live st d = Some s'" for d s'
  proof -
    have "bt_get (ss_idempotency st) (us_idempotency_key s') = Some d"
      using wf that by (simp add: store_wf_def)
    then show ?thesis using none that by (auto simp: existing_session_def)
  qed
  then show ?thesis
    using wf by (auto simp: store_wf_def btree_simps bt_wf_insert split: if_splits)
qed


text \<open>What a prepare response says about its session.\<close>

definition answers :: "DeployPrepareResponse \<Rightarrow> UploadSession \<Rightarrow> bool" where
  "answers response s \<longleftrightarrow> dpp_deploy_id response = us_deploy_id s \<and>
     dpp_upload_token response = us_upload_token s \<and>
     dpp_artifact_status response = dpp_artifact_status (build_prepare_response s 0 0) \<and>
     dpp_missing_ranges response = dpp_missing_ranges (build_prepare_response s 0 0)"

lemma build_answers: "answers (build_prepare_response s ttl now) s"
  by (simp add: answers_def build_prepare_response_def Let_def)

text \<open>A session that \<open>request\<close> prepared, last used at time \<open>now\<close>.\<close>

definition prepared_for ::
    "(bytes \<Rightarrow> string) \<Rightarrow> DeployPrepareRequest \<Rightarrow> u64 \<Rightarrow> UploadSession \<Rightarrow> bool" where
  "prepared_for sha request now s \<longleftrightarrow>
     us_fingerprint s = fingerprint sha request \<and> us_updated_at s = now"

lemma existing_has_key:
  "store_wf st \<Longrightarrow> existing_session st key = Some (d, s) \<Longrightarrow> us_deploy_id s = d"
  by (auto dest!: existing_session_live simp: store_wf_def)

lemma touch_existing:
  assumes "store_wf st" "existing_session st key = Some (d, s)"
  shows "store_wf (update_session d (touch now) st)"
    and "live (update_session d (touch now) st) (us_deploy_id s) = Some (touch now s)"
proof -
  have s: "live st d = Some s" by (rule existing_session_live [OF assms(2)])
  show "store_wf (update_session d (touch now) st)"
    by (rule store_wf_update_session [OF assms(1) s]) (simp add: same_upload_def touch_def)
  show "live (update_session d (touch now) st) (us_deploy_id s) = Some (touch now s)"
    using s existing_has_key [OF assms] by (simp add: live_update_session)
qed


text \<open>The index entry of a session that survives a cleanup survives too.\<close>

lemma removal_keeps_index:
  assumes "bt_get (ss_idempotency st) k = Some d" "d \<notin> set ids"
  shows "bt_get (ss_idempotency (fst (collect_sessions_for_removal_locked st ids))) k = Some d"
  using assms
proof (induction ids arbitrary: st)
  case (Cons e ids)
  then have "bt_get (ss_idempotency (drop_session e s st)) k = Some d" for s
    by (auto simp: drop_session_def btree_simps)
  then show ?case using Cons by (auto simp: removal_Cons split: option.split)
qed simp

lemma removal_keeps_existing:
  assumes "collect_sessions_for_removal_locked st ids = (st', plan)"
    and "existing_session st k = Some (d, s)" "live st' d = Some s'"
  shows "existing_session st' k = Some (d, s')"
proof -
  have "d \<notin> set ids" using removal_live [of st ids d] assms(1,3) by (auto split: if_splits)
  then show ?thesis
    using removal_keeps_index [of st k d ids] assms
    by (auto simp: existing_session_def split: option.splits)
qed

lemma orphan_keeps_index:
  assumes "bt_wf (ss_idempotency st)" "bt_get (ss_idempotency st) k = Some d" "live st d \<noteq> None"
  shows "bt_get (ss_idempotency (cleanup_orphan_idempotency st)) k = Some d"
proof -
  have "d' = d" if "(k, d') \<in> set (ss_idempotency st)" for d'
    using bt_get_iff [OF assms(1), of k d'] assms(2) that by simp
  then show ?thesis
    using assms(2,3)
    by (auto simp: cleanup_orphan_idempotency_def Let_def bt.get_rem_all bt_contains_def)
qed

lemma cleanup_keeps_existing:
  assumes "collect_session_cleanup_locked store pinned st now keep = (st', plan)" "store_wf st"
    and "existing_session st k = Some (d, s)" "live st' d = Some s'"
  shows "existing_session st' k = Some (d, s')"
  using assms(1,2)
proof (rule cleanup_cases)
  fix st1 p1 st2 p2
  assume 1: "collect_expired_sessions st now (as_upload_session_ttl_secs store) = (st1, p1)"
    and 2: "collect_orphan_committed_sessions st1 now (as_committed_session_ttl_secs store)
       (as_max_committed_sessions store) (protected_deploy_ids pinned keep) = (st2, p2)"
    and st': "st' = cleanup_orphan_idempotency st2"
    and wf: "store_wf st2" and sh: "shrinks st1 st2 p2"
  have s2: "live st2 d = Some s'" using assms(4) st' by simp
  then have s1: "live st1 d = Some s'" using sh by (simp add: shrinks_def)
  have "existing_session st2 k = Some (d, s')"
    using removal_keeps_existing [OF 2 [unfolded collect_orphan_committed_sessions_def Let_def]
        removal_keeps_existing [OF 1 [unfolded collect_expired_sessions_def] assms(3) s1] s2] .
  then show ?thesis
    unfolding st' using s2 wf orphan_keeps_index [of st2 k d]
    by (auto simp: existing_session_def store_wf_def split: option.splits)
qed


lemma decide_leaves_session:
  assumes wf: "store_wf st"
    and op: "prepare_decide store sha pinned now deploy_id upload_token request st = (st', plan, Inr d)"
  shows "store_wf st' \<and> (case d of
      Existing response \<Rightarrow> \<exists>s. existing_session st' (dpr_idempotency_key request) = Some (dpp_deploy_id response, s) \<and>
        answers response s \<and> prepared_for sha request now s
    | Create c \<Rightarrow> us_idempotency_key c = dpr_idempotency_key request \<and>
        us_fingerprint c = fingerprint sha request \<and> \<not> us_committed c)"
proof -
  obtain st1 p1 where cl: "collect_session_cleanup_locked store pinned st now None = (st1, p1)" by force
  have wf1: "store_wf st1" by (rule cleanup_spec(1) [OF cl wf])
  show ?thesis
  proof (cases "existing_session st1 (dpr_idempotency_key request)")
    case None
    then show ?thesis using op cl wf1 by (auto simp: prepare_decide_def Let_def)
  next
    case (Some e)
    obtain i s where e: "e = (i, s)" by force
    note t = touch_existing [OF wf1 Some [unfolded e], of now]
    have "existing_session (update_session i (touch now) st1) (dpr_idempotency_key request) =
        Some (us_deploy_id s, touch now s)"
      using Some e t(2) existing_has_key [OF wf1 Some [unfolded e]]
      by (auto simp: existing_session_def update_session_def split: option.splits)
    then show ?thesis
      using op cl Some e t(1) build_answers [of "touch now s"]
      by (auto simp: prepare_decide_def Let_def prepared_for_def touch_def answers_def split: if_splits)
  qed
qed

lemma insert_leaves_session:
  assumes wf: "store_wf st"
    and op: "prepare_insert store pinned now c st = (st', plan, Inr response)"
    and c: "us_fingerprint c = fingerprint sha request" "us_idempotency_key c = dpr_idempotency_key request"
  shows "store_wf st' \<and> (\<exists>s. existing_session st' (dpr_idempotency_key request) = Some (dpp_deploy_id response, s) \<and>
    answers response s \<and> prepared_for sha request now s)"
proof -
  obtain st1 p1 where cl: "collect_session_cleanup_locked store pinned st now None = (st1, p1)" by force
  have wf1: "store_wf st1" by (rule cleanup_spec(1) [OF cl wf])
  show ?thesis
  proof (cases "existing_session st1 (us_idempotency_key c)")
    case None
    have "store_wf st'" "response = build_prepare_response (touch now c) (as_upload_session_ttl_secs store) now"
        "existing_session st' (us_idempotency_key c) = Some (us_deploy_id c, touch now c)"
      using op cl None store_wf_insert [OF wf1, of "touch now c"]
      by (auto simp: prepare_insert_def Let_def touch_def existing_session_def btree_simps)
    then show ?thesis
      using c build_answers [of "touch now c"]
      by (auto simp: prepared_for_def touch_def answers_def)
  next
    case (Some e)
    obtain i s where e: "e = (i, s)" by force
    note t = touch_existing [OF wf1 Some [unfolded e], of now]
    have "existing_session (update_session i (touch now) st1) (us_idempotency_key c) =
        Some (us_deploy_id s, touch now s)"
      using Some e t(2) existing_has_key [OF wf1 Some [unfolded e]]
      by (auto simp: existing_session_def update_session_def split: option.splits)
    then show ?thesis
      using op cl Some e t(1) build_answers [of "touch now s"] c
      by (auto simp: prepare_insert_def Let_def prepared_for_def touch_def answers_def split: if_splits)
  qed
qed

lemma prepare_leaves_session:
  assumes wf: "store_wf (w_state w)"
    and op: "prepare store sha fails io now now2 deploy_id upload_token request w = (w', Inr response)"
  shows "store_wf (w_state w') \<and> w_pinned w' = w_pinned w \<and>
    (\<exists>s t. existing_session (w_state w') (dpr_idempotency_key request) = Some (dpp_deploy_id response, s) \<and>
       answers response s \<and> prepared_for sha request t s \<and> t \<in> {now, now2})"
proof -
  obtain st1 plan decision where dec: "prepare_decide store sha (w_pinned w) now deploy_id upload_token
      request (w_state w) = (st1, plan, decision)"
    by (metis surj_pair)
  obtain d where d: "decision = Inr d"
    using op dec by (auto simp: prepare_def Let_def split: sum.splits)
  note L = decide_leaves_session [OF wf dec [unfolded d]]
  show ?thesis
  proof (cases d)
    case (Existing r)
    then show ?thesis using L op dec d by (auto simp: prepare_def Let_def split: sum.splits)
  next
    case (Create c)
    obtain st2 plan2 result where ins: "prepare_insert store (w_pinned w) now2 c st1 = (st2, plan2, result)"
      by (metis surj_pair)
    have "w_state w' = st2" "result = Inr response" "w_pinned w' = w_pinned w"
      using op dec d Create ins by (auto simp: prepare_def Let_def split: sum.splits prod.splits)
    then show ?thesis
      using insert_leaves_session [of st1 store "w_pinned w" now2 c st2 plan2 response sha request]
        ins L Create by auto
  qed
qed

lemma concat_read_buffers:
  "0 < n \<Longrightarrow> fold (\<lambda>buf hashed. hashed @ buf) (read_buffers n content) acc = acc @ content"
  by (induction n content arbitrary: acc rule: read_buffers.induct) (subst read_buffers.simps, auto)

lemma prepare_check_ok:
  "prepare_check store request = Inr () \<longleftrightarrow>
     0 < dpr_artifact_size request \<and> dpr_artifact_size request \<le> as_max_artifact_size_bytes store"
  by (auto simp: prepare_check_def word_gt_0)

section \<open>An example run\<close>

definition example_store :: ArtifactStore where
  "example_store = new_store [''root''] 900 3600 4 1024 2 4096"

definition example_sha :: "bytes \<Rightarrow> string" where
  "example_sha content = map (\<lambda>b. char_of (unat b)) content"

definition example_prepare :: DeployPrepareRequest where
  "example_prepare =
     \<lparr>dpr_name = ''svc'', dpr_app_type = ''cli'', dpr_target = [], dpr_artifact_digest = ''AB'',
      dpr_artifact_size = 2, dpr_manifest_digest = ''m'', dpr_idempotency_key = ''k'', dpr_policy = []\<rparr>"

definition example_push :: ArtifactPushRequest where
  "example_push =
     \<lparr>apr_header = \<lparr>aph_deploy_id = ''d1'', aph_offset = 0, aph_length = 2,
        aph_chunk_sha256 = ''AB'', aph_upload_token = ''t1''\<rparr>, apr_chunk = [65, 66]\<rparr>"

definition example_commit :: ArtifactCommitRequest where
  "example_commit =
     \<lparr>acr_deploy_id = ''d1'', acr_artifact_digest = ''AB'', acr_artifact_size = 2,
      acr_manifest_digest = ''m''\<rparr>"

definition empty_world :: World where
  "empty_world =
     \<lparr>w_state = \<lparr>ss_sessions = [], ss_idempotency = []\<rparr>, w_pinned = [], w_files = (\<lambda>_. None)\<rparr>"

definition example_uploaded :: World where
  "example_uploaded =
     fst (push example_store example_sha (\<lambda>_. False) IoOk 101 example_push
       (fst (prepare example_store example_sha (\<lambda>_. False) IoOk 100 100 ''d1'' ''t1'' example_prepare
         empty_world)))"

definition example_world :: World where
  "example_world =
     fst (commit example_store example_sha (\<lambda>_. False) IoOk 102 example_commit example_uploaded)"

definition example_session :: "ByteRange list \<Rightarrow> bool \<Rightarrow> u64 \<Rightarrow> UploadSession" where
  "example_session received committed at_time =
     \<lparr>us_deploy_id = ''d1'', us_service_name = ''svc'', us_idempotency_key = ''k'',
      us_fingerprint = fingerprint example_sha example_prepare, us_artifact_digest = ''AB'',
      us_artifact_size = 2, us_manifest_digest = ''m'', us_upload_token = ''t1'',
      us_file_path = session_file_path example_store ''d1'', us_received_ranges = received,
      us_committed = committed, us_inflight_writes = 0, us_commit_in_progress = False,
      us_updated_at = at_time\<rparr>"

definition example_state :: "UploadSession \<Rightarrow> bytes \<Rightarrow> World" where
  "example_state s content =
     \<lparr>w_state = \<lparr>ss_sessions = [(''d1'', s)], ss_idempotency = [(''k'', ''d1'')]\<rparr>, w_pinned = [],
      w_files = (\<lambda>_. None)(session_file_path example_store ''d1'' \<mapsto> content)\<rparr>"

lemmas example_defs = example_store_def example_sha_def example_prepare_def example_push_def
  example_commit_def empty_world_def new_store_def

lemmas cleanup_defs = collect_session_cleanup_locked_def collect_expired_sessions_def expired_ids_def
  collect_orphan_committed_sessions_def orphan_remove_ids_def orphan_survivors_def overflow_ids_def
  cleanup_orphan_idempotency_def protected_committed_count_def protected_deploy_ids_def

lemma cleanup_empty:
  "collect_session_cleanup_locked store pinned \<lparr>ss_sessions = [], ss_idempotency = []\<rparr> now keep =
     (\<lparr>ss_sessions = [], ss_idempotency = []\<rparr>, [])"
  by (simp add: cleanup_defs)

lemma cleanup_single:
  assumes "saturating_sub now (us_updated_at s) < as_upload_session_ttl_secs store"
    and "saturating_sub now (us_updated_at s) < as_committed_session_ttl_secs store"
    and "0 < as_max_committed_sessions store"
  shows "collect_session_cleanup_locked store []
      \<lparr>ss_sessions = [(d, s)], ss_idempotency = [(k, d)]\<rparr> now keep =
    (\<lparr>ss_sessions = [(d, s)], ss_idempotency = [(k, d)]\<rparr>, [])"
proof -
  let ?st = "\<lparr>ss_sessions = [(d, s)], ss_idempotency = [(k, d)]\<rparr>"
  have "expired_ids ?st now (as_upload_session_ttl_secs store) = []"
    and "orphan_remove_ids ?st now (as_committed_session_ttl_secs store) prot = []" for prot
    using assms by (auto simp: expired_ids_def orphan_remove_ids_def)
  moreover have "overflow_ids (orphan_survivors ?st prot [])
      (as_max_committed_sessions store - protected_committed_count ?st prot) = []" for prot
    using assms by (auto simp: overflow_ids_def orphan_survivors_def protected_committed_count_def)
  ultimately show ?thesis
    by (simp add: cleanup_defs(1,2,4,8) Let_def bt_contains_def)
qed

lemma replicate_2: "replicate 2 x = [x, x]"
  by (simp add: numeral_2_eq_2)

lemma example_chars: "char_of (65 :: nat) = CHR ''A''" "char_of (66 :: nat) = CHR ''B''"
  by code_simp+

lemma example_prepared:
  "fst (prepare example_store example_sha (\<lambda>_. False) IoOk 100 100 ''d1'' ''t1'' example_prepare
     empty_world) = example_state (example_session [] False 100) [0, 0]"
  by (simp add: prepare_def example_defs prepare_check_def prepare_decide_def cleanup_empty Let_def
      existing_session_def create_preallocated_file_def prepare_insert_def apply_cleanup_plan_def
      touch_def session_file_path_def example_state_def example_session_def replicate_2)

lemma example_pushed:
  "fst (push example_store example_sha (\<lambda>_. False) IoOk 101 example_push
     (example_state (example_session [] False 100) [0, 0])) =
   example_state (example_session [\<lparr>br_offset = 0, br_length = 2\<rparr>] False 101) [65, 66]"
  by (simp add: push_def push_check_def u64_of_usize_def checked_add_def push_admit_def Let_def
      example_defs example_state_def example_session_def saturating_sub_def cleanup_single
      write_chunk_to_file_def overwrite_def push_record_def update_session_def bt_update_def
      merge_range_def range_from_start_end_def apply_cleanup_plan_def example_chars)

lemma example_done:
  "fst (commit example_store example_sha (\<lambda>_. False) IoOk 102 example_commit
     (example_state (example_session [\<lparr>br_offset = 0, br_length = 2\<rparr>] False 101) [65, 66])) =
   example_state (example_session [\<lparr>br_offset = 0, br_length = 2\<rparr>] True 102) [65, 66]"
  by (simp add: commit_def commit_admit_def Let_def digest_file_def concat_read_buffers
      example_defs example_state_def example_session_def saturating_sub_def cleanup_single
      is_complete_def update_session_def bt_update_def commit_finish_def apply_cleanup_plan_def example_chars)

lemma example_world_eq:
  "example_world = example_state (example_session [\<lparr>br_offset = 0, br_length = 2\<rparr>] True 102) [65, 66]"
  by (simp add: example_world_def example_uploaded_def example_prepared example_pushed example_done)

lemma example_uploaded_eq:
  "example_uploaded = example_state (example_session [\<lparr>br_offset = 0, br_length = 2\<rparr>] False 101) [65, 66]"
  by (simp only: example_uploaded_def example_prepared example_pushed)

lemma example_commit_answer:
  "\<exists>r. snd (commit example_store example_sha (\<lambda>_. False) IoOk 102 example_commit example_uploaded) = Inr r"
  unfolding example_uploaded_eq
  by (simp add: commit_def commit_admit_def Let_def digest_file_def concat_read_buffers
      example_defs example_state_def example_session_def saturating_sub_def cleanup_single
      is_complete_def update_session_def bt_update_def commit_finish_def example_chars)

lemma example_wf: "store_wf (w_state (example_state (example_session received committed at_time) content))"
  by (auto simp: example_state_def example_session_def store_wf_def bt_wf_def split: if_splits)

lemma example_live:
  "live (w_state (example_state s content)) ''d1'' = Some s"
  by (simp add: example_state_def)

lemma example_expired:
  "collect_session_cleanup_locked example_store []
     (w_state (example_state (example_session [] False 100) [0, 0])) 1000 None =
   (\<lparr>ss_sessions = [], ss_idempotency = []\<rparr>, [session_file_path example_store ''d1''])"
  by (simp add: collect_session_cleanup_locked_def collect_expired_sessions_def expired_ids_def Let_def
      collect_orphan_committed_sessions_def orphan_remove_ids_def orphan_survivors_def overflow_ids_def
      example_state_def example_session_def busy_session_def example_store_def new_store_def
      saturating_sub_def removal_Cons drop_session_def bt_remove_def cleanup_orphan_idempotency_def)

lemma example_kept:
  "collect_session_cleanup_locked example_store []
     (w_state (example_state (example_session [\<lparr>br_offset = 0, br_length = 2\<rparr>] True 102) [65, 66])) 200 None =
   (w_state (example_state (example_session [\<lparr>br_offset = 0, br_length = 2\<rparr>] True 102) [65, 66]), [])"
  by (simp add: example_state_def cleanup_single example_session_def example_store_def new_store_def
      saturating_sub_def)

lemma example_prepared_response:
  "\<exists>response. snd (prepare example_store example_sha (\<lambda>_. False) IoOk 100 100 ''d1'' ''t1'' example_prepare
     empty_world) = Inr response \<and> dpp_artifact_status response \<noteq> Complete \<and>
     dpp_deploy_id response = ''d1'' \<and> dpp_upload_token response = ''t1''"
  by (simp add: prepare_def example_defs prepare_check_def prepare_decide_def cleanup_empty Let_def
      existing_session_def create_preallocated_file_def prepare_insert_def
      touch_def build_prepare_response_def is_complete_def)

lemma survives_or_evictable:
  assumes "collect_session_cleanup_locked store pinned st now keep = (st', plan)" "store_wf st"
    and "live st d = Some s"
  shows "live st' d = Some s \<or> live st' d = None \<and> evictable store now (protected_deploy_ids pinned keep) d s"
  using cleanup_spec(2,3) [OF assms(1,2)] assms(3)
  by (cases "live st' d") (auto simp: shrinks_def)

text \<open>What \<open>commit\<close> checks before it starts, and what it does at the end.\<close>

definition admissible :: "ArtifactCommitRequest \<Rightarrow> UploadSession \<Rightarrow> bool" where
  "admissible request s \<longleftrightarrow> us_artifact_digest s = acr_artifact_digest request \<and>
     us_artifact_size s = acr_artifact_size request \<and> us_manifest_digest s = acr_manifest_digest request \<and>
     us_inflight_writes s = 0 \<and> \<not> us_commit_in_progress s \<and>
     is_complete (us_received_ranges s) (us_artifact_size s)"

lemma commit_admit_ok:
  assumes wf: "store_wf st"
    and admit: "commit_admit store pinned now request st = (st2, plan, Inr (p, expected))"
  shows "\<exists>s. live st (acr_deploy_id request) = Some s \<and> admissible request s \<and>
    p = us_file_path s \<and> expected = us_artifact_digest s \<and> store_wf st2 \<and>
    live st2 (acr_deploy_id request) = Some (s\<lparr>us_commit_in_progress := True, us_updated_at := now\<rparr>)"
proof -
  let ?f = "\<lambda>s. s\<lparr>us_commit_in_progress := True, us_updated_at := now\<rparr>"
  obtain st1 p1 where cl: "collect_session_cleanup_locked store pinned st now None = (st1, p1)" by force
  obtain s where s: "live st1 (acr_deploy_id request) = Some s" "admissible request s"
      "p = us_file_path s" "expected = us_artifact_digest s"
    and st2: "st2 = update_session (acr_deploy_id request) ?f st1"
    using admit cl by (auto simp: commit_admit_def Let_def admissible_def split: option.splits if_splits)
  have "live st (acr_deploy_id request) = Some s"
    using cleanup_spec(2) [OF cl wf] s(1) by (simp add: shrinks_def)
  moreover have "store_wf st2"
    unfolding st2 using store_wf_update_session [of st1 _ s ?f] cleanup_spec(1) [OF cl wf] s(1)
    by (simp add: same_upload_def)
  ultimately show ?thesis using s st2 by (simp add: live_update_session)
qed

lemma commit_finish_ok:
  assumes wf: "store_wf st" and s: "live st (acr_deploy_id request) = Some s"
    and id: "acr_deploy_id request \<noteq> ''''"
    and fin: "commit_finish store pinned now request expected digest_result st = (st', plan, Inr response)"
  defines "s' \<equiv> s\<lparr>us_commit_in_progress := False, us_updated_at := now, us_committed := True\<rparr>"
  shows "digest_result = Inr expected"
    and "response = \<lparr>acp_artifact_id = us_artifact_digest s, acp_verified = True\<rparr>"
    and "live st' (acr_deploy_id request) = Some s'"
proof -
  let ?st2 = "update_session (acr_deploy_id request) (\<lambda>_. s') st"
  have did: "us_deploy_id s = acr_deploy_id request" using wf s by (simp add: store_wf_def)
  show "digest_result = Inr expected"
    and "response = \<lparr>acp_artifact_id = us_artifact_digest s, acp_verified = True\<rparr>"
    using fin s by (auto simp: commit_finish_def Let_def split: sum.splits if_splits prod.splits)
  have cl: "collect_session_cleanup_locked store pinned ?st2 now (Some (acr_deploy_id request)) = (st', plan)"
    using fin s did by (auto simp: commit_finish_def Let_def s'_def split: sum.splits if_splits prod.splits)
  have "store_wf ?st2"
    using store_wf_update_session [of st _ s "\<lambda>_. s'"] wf s by (simp add: same_upload_def s'_def)
  from survives_or_evictable [OF cl this, of "acr_deploy_id request" s']
  show "live st' (acr_deploy_id request) = Some s'"
    using s id by (auto simp: live_update_session evictable_def protected_deploy_ids_def s'_def)
qed

lemma push_admit_ok:
  assumes wf: "store_wf st"
    and admit: "push_admit store pinned now header chunk_end st = (st1, plan, Inr p)"
  shows "\<exists>s. live st (aph_deploy_id header) = Some s \<and> p = us_file_path s \<and>
    live st1 (aph_deploy_id header) \<noteq> None"
proof -
  obtain st0 p0 where cl: "collect_session_cleanup_locked store pinned st now None = (st0, p0)" by force
  have "live st0 d = Some s \<Longrightarrow> live st d = Some s" for d s
    using cleanup_spec(2) [OF cl wf] by (simp add: shrinks_def)
  then show ?thesis
    using admit cl by (auto simp: push_admit_def Let_def live_update_session split: option.splits if_splits)
qed

lemma write_touches_path:
  "write_chunk_to_file io p off chunk F = (F', r) \<Longrightarrow> q \<noteq> p \<Longrightarrow> F' q = F q"
  by (auto simp: write_chunk_to_file_def split: option.splits io_outcome.splits)

section \<open>Properties\<close>

text \<open>
  C8: a cleanup evicts idle sessions only, and evicts the outdated ones. A session survives it
  unchanged or is evicted with its file on the removal plan. No session with a write or a commit
  in progress is evicted, and no committed one that is pinned by a running command or is the one
  being worked on. An uncommitted session is evicted exactly when it is idle and was not used for
  the whole upload lifetime, pinned or not; a committed one that is idle, not pinned and not
  worked on is evicted when its own lifetime has ended.
\<close>

theorem cleanup_evicts_only_idle:
  assumes "collect_session_cleanup_locked store pinned st now keep = (st', plan)" and "store_wf st"
    and "live st d = Some s"
  shows "(live st' d = Some s \<or> live st' d = None \<and> us_file_path s \<in> set plan) \<and>
    (live st' d = None \<longrightarrow> us_inflight_writes s = 0 \<and> \<not> us_commit_in_progress s) \<and>
    (if us_committed s
     then (live st' d = None \<longrightarrow> bt_get pinned d = None \<and> (keep = Some d \<longrightarrow> d = '''')) \<and>
       (us_inflight_writes s = 0 \<and> \<not> us_commit_in_progress s \<and> bt_get pinned d = None \<and> keep \<noteq> Some d \<and>
        as_committed_session_ttl_secs store \<le> saturating_sub now (us_updated_at s) \<longrightarrow> live st' d = None)
     else live st' d = None \<longleftrightarrow> us_inflight_writes s = 0 \<and> \<not> us_commit_in_progress s \<and>
       as_upload_session_ttl_secs store \<le> saturating_sub now (us_updated_at s))"
proof -
  note only = survives_or_evictable [OF assms] and plan = cleanup_plan_complete [OF assms]
    and all = cleanup_evicts_outdated [OF assms]
  have "d \<in> protected_deploy_ids pinned keep \<longleftrightarrow> bt_get pinned d \<noteq> None \<or> keep = Some d \<and> d \<noteq> ''''"
    by (auto simp: protected_deploy_ids_def map_of_eq_None_iff split: option.splits)
  then show ?thesis
    using only plan all by (cases "live st' d"; cases "us_committed s") (auto simp: evictable_def busy_session_def)
qed

theorem cleanup_evicts_only_idle_witness:
  "live (fst (collect_session_cleanup_locked example_store [(''d1'', 1)]
      (w_state (example_state (example_session [] False 100) [0, 0])) 1000 None)) ''d1'' = None \<and>
   live (fst (collect_session_cleanup_locked example_store []
      (w_state (example_state (example_session [] False 100) [0, 0])) 999 None)) ''d1'' = Some (example_session [] False 100)"
proof -
  let ?s = "example_session [] False 100" and ?st = "w_state (example_state (example_session [] False 100) [0, 0])"
  have facts: "\<not> us_committed ?s" "us_inflight_writes ?s = 0" "\<not> us_commit_in_progress ?s"
      "as_upload_session_ttl_secs example_store \<le> saturating_sub 1000 (us_updated_at ?s)"
      "\<not> as_upload_session_ttl_secs example_store \<le> saturating_sub 999 (us_updated_at ?s)"
    by (simp_all add: example_session_def example_store_def new_store_def saturating_sub_def)
  show ?thesis
    using cleanup_evicts_only_idle [OF prod.collapse [symmetric] example_wf example_live,
        of example_store "[(''d1'', 1)]" "[]" False 100 "[0, 0]" 1000 None]
      cleanup_evicts_only_idle [OF prod.collapse [symmetric] example_wf example_live,
        of example_store "[]" "[]" False 100 "[0, 0]" 999 None] facts by auto
qed

text \<open>
  C19: the number of committed artifacts that are kept is bounded, and the oldest go first.
  After a cleanup the idle committed sessions and the protected ones together do not exceed
  \<open>max_committed_sessions\<close> (unless the protected ones alone do, and then no idle one is
  left), and a committed session evicted before its lifetime ended is no younger than any
  idle committed session that stays.
\<close>

theorem committed_capacity_lru:
  assumes cl: "collect_session_cleanup_locked store pinned st now keep = (st', plan)" and wf: "store_wf st"
    and prot: "prot = protected_deploy_ids pinned keep"
  shows "length (idle_committed prot st') \<le>
       as_max_committed_sessions store - protected_committed_count st' prot \<and>
     (\<forall>d s e s'. live st d = Some s \<and> live st' d = None \<and> us_committed s \<and>
        saturating_sub now (us_updated_at s) < as_committed_session_ttl_secs store \<and>
        (e, s') \<in> set (idle_committed prot st') \<longrightarrow> us_updated_at s \<le> us_updated_at s')"
  using cl wf
proof (rule cleanup_cases)
  fix st1 p1 st2 p2
  assume 1: "collect_expired_sessions st now (as_upload_session_ttl_secs store) = (st1, p1)"
    and 2: "collect_orphan_committed_sessions st1 now (as_committed_session_ttl_secs store)
       (as_max_committed_sessions store) (protected_deploy_ids pinned keep) = (st2, p2)"
    and st': "st' = cleanup_orphan_idempotency st2"
    and wf1: "store_wf st1" and sh: "shrinks st st1 p1"
  have wf': "bt_wf (ss_sessions st1)" using wf1 by (simp add: store_wf_def)
  have eq: "idle_committed P st' = idle_committed P st2"
      "protected_committed_count st' P = protected_committed_count st2 P" for P
    by (simp_all add: st' idle_committed_def protected_committed_count_def)
  have lv: "live st' = live st2" by (simp add: st')
  have "live st1 d = Some s" if "live st d = Some s" "us_committed s" for d s
    using expired_evicts [OF 1 _ that(1)] wf sh that
    by (cases "live st1 d") (auto simp: store_wf_def shrinks_def)
  then show ?thesis
    using orphan_capacity [OF 2 wf'] orphan_evicts_oldest [OF 2 wf'] unfolding eq lv prot by blast
qed

theorem committed_capacity_lru_witness:
  "length (idle_committed {} (w_state example_world)) \<le>
     as_max_committed_sessions example_store - protected_committed_count (w_state example_world) {}"
  using committed_capacity_lru [OF example_kept example_wf, of "{}"]
  by (simp add: example_world_eq protected_deploy_ids_def)


text \<open>
  A session that was just prepared and is not complete is still there for the next prepare under
  its key, which finds it after its cleanup.
\<close>

lemma prepared_session_found:
  assumes wf: "store_wf (w_state w)"
    and first: "prepare store sha fails io now now2 id1 token1 request w = (w', Inr response)"
    and incomplete: "dpp_artifact_status response \<noteq> Complete"
    and recent: "saturating_sub now3 now < as_upload_session_ttl_secs store"
      "saturating_sub now3 now2 < as_upload_session_ttl_secs store"
  obtains s st1 plan where "answers response s" "us_fingerprint s = fingerprint sha request"
    "collect_session_cleanup_locked store (w_pinned w') (w_state w') now3 None = (st1, plan)"
    "existing_session st1 (dpr_idempotency_key request) = Some (dpp_deploy_id response, s)"
    "live (w_state w') (dpp_deploy_id response) = Some s" "live st1 (dpp_deploy_id response) = Some s"
proof -
  let ?key = "dpr_idempotency_key request"
  obtain s t where wf': "store_wf (w_state w')"
    and ex: "existing_session (w_state w') ?key = Some (dpp_deploy_id response, s)"
    and s: "answers response s" "prepared_for sha request t s" "t \<in> {now, now2}"
    using prepare_leaves_session [OF wf first] by blast
  obtain st1 plan where cl: "collect_session_cleanup_locked store (w_pinned w') (w_state w') now3 None = (st1, plan)"
    by force
  have "\<not> us_committed s" "saturating_sub now3 (us_updated_at s) < as_upload_session_ttl_secs store"
    using s recent incomplete by (auto simp: answers_def prepared_for_def build_prepare_response_def Let_def)
  then have "live st1 (dpp_deploy_id response) = Some s"
    using survives_or_evictable [OF cl wf' existing_session_live [OF ex]] by (auto simp: evictable_def)
  then show thesis
    using that s(1,2) cl existing_session_live [OF ex] cleanup_keeps_existing [OF cl wf' ex]
    by (simp add: prepared_for_def)
qed

text \<open>
  C21: retrying a prepare is safe while the upload is not complete. A second prepare with the same
  request, within the upload lifetime and before all bytes were received, succeeds without any
  file access and returns the deploy id, the upload token, the status and the missing ranges of
  the first.
\<close>

theorem prepare_retry_same_session:
  assumes wf: "store_wf (w_state w)"
    and first: "prepare store sha fails io now now2 id1 token1 request w = (w', Inr response)"
    and incomplete: "dpp_artifact_status response \<noteq> Complete"
    and recent: "saturating_sub now3 now < as_upload_session_ttl_secs store"
      "saturating_sub now3 now2 < as_upload_session_ttl_secs store"
  shows "\<exists>w'' response'. prepare store sha fails' io' now3 now4 id2 token2 request w' = (w'', Inr response') \<and>
    dpp_deploy_id response' = dpp_deploy_id response \<and>
    dpp_upload_token response' = dpp_upload_token response \<and>
    dpp_artifact_status response' = dpp_artifact_status response \<and>
    dpp_missing_ranges response' = dpp_missing_ranges response"
proof -
  obtain s st1 plan where s: "answers response s" "us_fingerprint s = fingerprint sha request"
      "collect_session_cleanup_locked store (w_pinned w') (w_state w') now3 None = (st1, plan)"
      "existing_session st1 (dpr_idempotency_key request) = Some (dpp_deploy_id response, s)"
    by (rule prepared_session_found [OF assms])
  have "prepare_check store request = Inr ()"
    using first by (auto simp: prepare_def split: sum.splits)
  then show ?thesis
    using s by (simp add: prepare_def prepare_decide_def Let_def answers_def build_prepare_response_def touch_def)
qed

theorem prepare_retry_same_session_witness:
  "\<exists>w'' response'.
     prepare example_store example_sha (\<lambda>_. False) IoOk 500 500 ''d2'' ''t2'' example_prepare
       (example_state (example_session [] False 100) [0, 0]) = (w'', Inr response') \<and>
     dpp_deploy_id response' = ''d1'' \<and> dpp_upload_token response' = ''t1''"
proof -
  obtain response where first: "prepare example_store example_sha (\<lambda>_. False) IoOk 100 100 ''d1'' ''t1''
      example_prepare empty_world = (example_state (example_session [] False 100) [0, 0], Inr response)"
      and r: "dpp_artifact_status response \<noteq> Complete" "dpp_deploy_id response = ''d1''"
        "dpp_upload_token response = ''t1''"
    using example_prepared_response example_prepared by (metis prod.collapse)
  have "store_wf (w_state empty_world)" "saturating_sub 500 100 < as_upload_session_ttl_secs example_store"
    by (simp_all add: empty_world_def store_wf_def bt_wf_def example_store_def new_store_def saturating_sub_def)
  then show ?thesis
    using prepare_retry_same_session [OF _ first r(1), of 500 "\<lambda>_. False" IoOk 500 "''d2''" "''t2''"] r(2,3) by auto
qed


text \<open>
  C22: only the holder of the upload token can write. A push for a live session whose token
  is not the one in the request fails, leaves every file as it is, and changes no session
  (expired ones may be evicted).
\<close>

theorem push_requires_token:
  assumes "store_wf (w_state w)"
    and "live (w_state w) (aph_deploy_id (apr_header request)) = Some s"
    and "us_upload_token s \<noteq> aph_upload_token (apr_header request)"
    and "push store sha fails io now request w = (w', result)"
  shows "(\<exists>e. result = Inl e) \<and> w_files w' = w_files w \<and>
    (\<forall>d s'. live (w_state w') d = Some s' \<longrightarrow> live (w_state w) d = Some s')"
proof (cases "push_check store sha request")
  case (Inl e)
  then show ?thesis using assms(4) by (auto simp: push_def)
next
  case (Inr chunk_end)
  obtain st1 p1 where cl: "collect_session_cleanup_locked store (w_pinned w) (w_state w) now None = (st1, p1)"
    by force
  have sub: "live st1 d = Some s' \<Longrightarrow> live (w_state w) d = Some s'" for d s'
    using cleanup_spec(2) [OF cl assms(1)] by (simp add: shrinks_def)
  then have "live st1 (aph_deploy_id (apr_header request)) = Some s' \<Longrightarrow> s' = s" for s'
    using assms(2) by force
  then show ?thesis
    using assms(3,4) Inr cl sub
    by (auto simp: push_def push_admit_def Let_def split: option.splits)
qed

theorem push_requires_token_witness:
  "\<exists>e. snd (push example_store example_sha (\<lambda>_. False) IoOk 101
      (example_push\<lparr>apr_header := (apr_header example_push)\<lparr>aph_upload_token := ''guess''\<rparr>\<rparr>)
      (example_state (example_session [] False 100) [0, 0])) = Inl e"
proof -
  let ?r = "example_push\<lparr>apr_header := (apr_header example_push)\<lparr>aph_upload_token := ''guess''\<rparr>\<rparr>"
  let ?w = "example_state (example_session [] False 100) [0, 0]"
  have "live (w_state ?w) (aph_deploy_id (apr_header ?r)) = Some (example_session [] False 100)"
      "us_upload_token (example_session [] False 100) \<noteq> aph_upload_token (apr_header ?r)"
    by (simp_all add: example_live example_push_def example_session_def)
  from push_requires_token [OF example_wf this prod.collapse [symmetric]] show ?thesis by blast
qed

text \<open>A commit touches no session but its own; its cleanups may evict others.\<close>

lemma cleanup_live:
  assumes "collect_session_cleanup_locked store pinned st now keep = (st', plan)" "store_wf st"
  shows "live st' d \<in> {live st d, None}"
  using cleanup_spec(2) [OF assms] by (cases "live st' d") (auto simp: shrinks_def)

lemma commit_admit_others:
  assumes "commit_admit store pinned now request st = (st', plan, r)" "store_wf st" "d \<noteq> acr_deploy_id request"
  shows "live st' d \<in> {live st d, None}"
proof -
  obtain st1 p1 where cl: "collect_session_cleanup_locked store pinned st now None = (st1, p1)" by force
  have "st' = st1 \<or> st' = update_session (acr_deploy_id request)
      (\<lambda>s. s\<lparr>us_commit_in_progress := True, us_updated_at := now\<rparr>) st1"
    using assms(1) cl by (auto simp: commit_admit_def Let_def split: option.splits if_splits)
  then show ?thesis
    using cleanup_live [OF cl assms(2), of d] assms(3) by (auto simp: live_update_session)
qed

lemma commit_finish_others:
  assumes "commit_finish store pinned now request expected digest_result st = (st', plan, r)" "store_wf st"
    and "d \<noteq> acr_deploy_id request"
  shows "live st' d \<in> {live st d, None}"
proof (cases "live st (acr_deploy_id request)")
  case None
  then show ?thesis using assms(1) by (simp add: commit_finish_def)
next
  case (Some s)
  let ?up = "\<lambda>c. update_session (acr_deploy_id request)
      (\<lambda>_. s\<lparr>us_commit_in_progress := False, us_updated_at := now, us_committed := c\<rparr>) st"
  have wf: "store_wf (?up c)" for c
    using assms(2) Some by (intro store_wf_update_session) (simp_all add: same_upload_def)
  have other: "live (?up c) d = live st d" for c using assms(3) by (simp add: live_update_session)
  have "st' = ?up (us_committed s) \<or> (\<exists>p keep. collect_session_cleanup_locked store pinned (?up True) now keep = (st', p))"
    using assms(1) Some by (auto simp: commit_finish_def Let_def split: sum.splits if_splits prod.splits)
  then show ?thesis
  proof (elim disjE exE)
    assume "st' = ?up (us_committed s)"
    then have "live st' d = live st d" by (simp only: other)
    then show ?thesis by simp
  next
    fix p keep assume "collect_session_cleanup_locked store pinned (?up True) now keep = (st', p)"
    from cleanup_live [OF this wf, of d] show ?thesis by (simp only: other)
  qed
qed

text \<open>
  C20: a commit that succeeds has verified everything it answers for. The request agreed with
  the prepared metadata, no write was in flight, every byte had been received, the file's
  content has the declared digest, the answer carries that digest, and the session is left
  committed. No other session is changed, though the cleanup may evict some.
\<close>

theorem commit_success_verified:
  assumes wf: "store_wf (w_state w)" and id: "acr_deploy_id request \<noteq> ''''"
    and op: "commit store sha fails io now request w = (w', Inr response)"
  shows "\<exists>s content. live (w_state w) (acr_deploy_id request) = Some s \<and>
    us_artifact_digest s = acr_artifact_digest request \<and> us_artifact_size s = acr_artifact_size request \<and>
    us_manifest_digest s = acr_manifest_digest request \<and> us_inflight_writes s = 0 \<and>
    is_complete (us_received_ranges s) (us_artifact_size s) \<and>
    w_files w (us_file_path s) = Some content \<and> sha content = us_artifact_digest s \<and>
    response = \<lparr>acp_artifact_id = us_artifact_digest s, acp_verified = True\<rparr> \<and>
    live (w_state w') (acr_deploy_id request) = Some (s\<lparr>us_committed := True, us_updated_at := now\<rparr>) \<and>
    (\<forall>d. d \<noteq> acr_deploy_id request \<longrightarrow> live (w_state w') d \<in> {live (w_state w) d, None})"
proof -
  obtain st2 plan admitted where admit: "commit_admit store (w_pinned w) now request (w_state w) =
      (st2, plan, admitted)"
    by (metis surj_pair)
  obtain p expected where adm: "admitted = Inr (p, expected)"
    using op admit by (auto simp: commit_def Let_def split: sum.splits)
  obtain st3 plan3 result where fin: "commit_finish store (w_pinned w) now request expected
      (digest_file sha io p (w_files w)) st2 = (st3, plan3, result)"
    by (metis surj_pair)
  have w': "w_state w' = st3" and res: "result = Inr response"
    using op admit adm fin by (auto simp: commit_def Let_def split: sum.splits)
  obtain s where s: "live (w_state w) (acr_deploy_id request) = Some s" "admissible request s"
      "p = us_file_path s" "expected = us_artifact_digest s" "store_wf st2"
      "live st2 (acr_deploy_id request) = Some (s\<lparr>us_commit_in_progress := True, us_updated_at := now\<rparr>)"
    using commit_admit_ok [OF wf admit [unfolded adm]] by blast
  note F = commit_finish_ok [OF s(5,6) id fin [unfolded res]]
  obtain content where "w_files w (us_file_path s) = Some content" "sha content = expected"
    using F(1) s(3) by (auto simp: digest_file_def concat_read_buffers split: option.splits io_outcome.splits)
  moreover have "s\<lparr>us_commit_in_progress := False, us_updated_at := now, us_committed := True\<rparr> =
      s\<lparr>us_committed := True, us_updated_at := now\<rparr>"
    using s(2) by (simp add: admissible_def)
  moreover have "live (w_state w') d \<in> {live (w_state w) d, None}" if "d \<noteq> acr_deploy_id request" for d
    using commit_admit_others [OF admit wf that] commit_finish_others [OF fin s(5) that] w' by auto
  ultimately show ?thesis using F(2,3) s w' by (auto simp: admissible_def)
qed

theorem commit_success_verified_witness:
  "\<exists>content. w_files example_uploaded (session_file_path example_store ''d1'') = Some content \<and>
     example_sha content = ''AB''"
proof -
  obtain w' r where op: "commit example_store example_sha (\<lambda>_. False) IoOk 102 example_commit example_uploaded =
      (w', Inr r)"
    using example_commit_answer by (metis surj_pair snd_conv)
  have "store_wf (w_state example_uploaded)"
      "live (w_state example_uploaded) ''d1'' = Some (example_session [\<lparr>br_offset = 0, br_length = 2\<rparr>] False 101)"
    by (simp_all add: example_uploaded_eq example_wf example_live)
  with commit_success_verified [OF this(1) _ op] show ?thesis
    by (auto simp: example_commit_def example_session_def)
qed

text \<open>
  C23: every prepare response is well formed. For a session whose progress is recorded
  properly the response passes the validator of its message type: a partial upload lists
  at least one missing range and every listed range is non-empty.
\<close>

theorem prepare_response_valid:
  assumes "good_progress (us_artifact_size s) (us_received_ranges s)" and "0 < us_artifact_size s"
    and "\<not> trim_is_empty (us_deploy_id s)" and "\<not> trim_is_empty (us_upload_token s)"
  shows "validate_DeployPrepareResponse (build_prepare_response s ttl now) = Inr ()"
proof -
  let ?miss = "all_missing_ranges (us_received_ranges s) (us_artifact_size s)"
  have "list_all (\<lambda>m. 0 < unat (br_length m)) ?miss"
    using all_missing_correct(2) [OF assms(1)] by (auto simp: list_all_iff positive_iff)
  moreover have "?miss \<noteq> []" if "\<not> is_complete (us_received_ranges s) (us_artifact_size s)"
  proof
    assume "?miss = []"
    then have "{0 ..< unat (us_artifact_size s)} \<subseteq> covered (us_received_ranges s)"
      using all_missing_correct(1) [OF assms(1)] by auto
    moreover have "covered (us_received_ranges s) \<subseteq> {0 ..< unat (us_artifact_size s)}"
      using assms(1) by (auto simp: good_progress_def within_def covered_def list_all_iff)
    ultimately show False
      using that is_complete_iff [OF assms(1)] assms(2) by (simp add: unat_gt_0 subset_antisym)
  qed
  ultimately show ?thesis
    using assms(3,4)
    by (auto simp: validate_DeployPrepareResponse_def build_prepare_response_def Let_def validate_simps
        list_all_iff)
qed

theorem prepare_response_valid_witness:
  "validate_DeployPrepareResponse
     (build_prepare_response (example_session [\<lparr>br_offset = 1, br_length = 1\<rparr>] False 100) 900 100) = Inr ()"
  by (rule prepare_response_valid)
    (simp_all add: example_session_def good_progress_def separated_def rend_def)














text \<open>
  C26: a push that fails does not remove the files of the sessions it evicted. Whatever the
  reason of the failure, the content of an evicted session's file is what it was before.
\<close>

theorem failed_push_keeps_evicted_files:
  assumes wf: "store_wf (w_state w)"
    and paths: "\<And>d s. live (w_state w) d = Some s \<Longrightarrow> us_file_path s = session_file_path store d"
    and op: "push store sha fails io now request w = (w', Inl e)"
    and d: "live (w_state w) d = Some s" "live (w_state w') d = None"
  shows "w_files w' (us_file_path s) = w_files w (us_file_path s)"
proof (cases "push_check store sha request")
  case (Inl e')
  then show ?thesis using op by (auto simp: push_def)
next
  case (Inr chunk_end)
  let ?h = "apr_header request"
  obtain st1 plan admitted where admit: "push_admit store (w_pinned w) now ?h chunk_end (w_state w) =
      (st1, plan, admitted)"
    by (metis surj_pair)
  show ?thesis
  proof (cases admitted)
    case (Inl e')
    then show ?thesis using op Inr admit by (auto simp: push_def Let_def)
  next
    case (Inr p)
    obtain F1 r1 where io: "write_chunk_to_file io p (aph_offset ?h) (apr_chunk request) (w_files w) = (F1, r1)"
      by force
    obtain st2 res where rec: "push_record now ?h chunk_end r1 st1 = (st2, res)" by force
    have w': "w_files w' = F1" "w_state w' = st2"
      using op admit Inr io rec \<open>push_check store sha request = Inr chunk_end\<close>
      by (auto simp: push_def Let_def split: sum.splits)
    obtain s1 where s1: "live (w_state w) (aph_deploy_id ?h) = Some s1" "p = us_file_path s1"
        "live st1 (aph_deploy_id ?h) \<noteq> None"
      using push_admit_ok [OF wf admit [unfolded Inr]] by blast
    have "live st2 (aph_deploy_id ?h) \<noteq> None"
      using rec s1(3) by (auto simp: push_record_def live_update_session Let_def split: option.splits sum.splits)
    then have "us_file_path s \<noteq> p"
      using paths [OF d(1)] paths [OF s1(1)] s1(2) d(2) w'(2) by (auto simp: session_file_path_def)
    then show ?thesis using write_touches_path [OF io] w'(1) by simp
  qed
qed

theorem failed_push_keeps_evicted_files_witness:
  "live (w_state (fst (push example_store example_sha (\<lambda>_. False) IoOk 1000
      (example_push\<lparr>apr_header := (apr_header example_push)\<lparr>aph_deploy_id := ''d2''\<rparr>\<rparr>)
      (example_state (example_session [] False 100) [0, 0])))) ''d1'' = None \<and>
   w_files (fst (push example_store example_sha (\<lambda>_. False) IoOk 1000
      (example_push\<lparr>apr_header := (apr_header example_push)\<lparr>aph_deploy_id := ''d2''\<rparr>\<rparr>)
      (example_state (example_session [] False 100) [0, 0]))) (session_file_path example_store ''d1'') =
     Some [0, 0]"
proof -
  let ?r = "example_push\<lparr>apr_header := (apr_header example_push)\<lparr>aph_deploy_id := ''d2''\<rparr>\<rparr>"
  let ?w = "example_state (example_session [] False 100) [0, 0]"
  let ?s = "example_session [] False 100"
  have check: "push_check example_store example_sha ?r = Inr 2"
    by (simp add: push_check_def example_push_def example_store_def new_store_def example_sha_def
        example_chars u64_of_usize_def checked_add_def)
  have "push example_store example_sha (\<lambda>_. False) IoOk 1000 ?r ?w =
      (?w\<lparr>w_state := \<lparr>ss_sessions = [], ss_idempotency = []\<rparr>\<rparr>,
       Inl (new_error NotFound STAGE_PUSH ''deploy_id is not found''))"
    using example_expired check by (simp add: push_def push_admit_def example_state_def Let_def)
  from failed_push_keeps_evicted_files [OF example_wf _ this, of "''d1''" ?s] this show ?thesis
    by (auto simp: example_state_def example_session_def split: if_splits)
qed

end
