(* ===== verification/Artifact_Upload.thy ===== *)
theory Artifact_Upload
  imports Artifact_Store
begin

text \<open>
  Concurrent requests on one artifact store. The daemon serves every stream in a task of its
  own, so the locked sections of \<open>Artifact_Store\<close> interleave freely with each other and with
  the file accesses between them, and a task that is aborted stops at any point. A system
  state has the store state, the pins, the files, the multiset of tasks that are between two
  sections, and the deploy ids generated so far (the documented uniqueness of version-4
  UUIDs is the side condition that a generated id is new).
\<close>

section \<open>Tasks and steps\<close>

datatype Task =
    PrepareCreate UploadSession CleanupPlan
  | PrepareInsert UploadSession CleanupPlan
  | PushWrite u64 ArtifactPushRequest u64 path CleanupPlan
  | PushRecord u64 ArtifactPushRequest u64 "unit result" CleanupPlan
  | CommitDigest u64 ArtifactCommitRequest path string bytes CleanupPlan
  | CommitFinish u64 ArtifactCommitRequest string "string result" CleanupPlan
  | ApplyCleanup CleanupPlan
  | DetachedWrite ArtifactPushRequest path
  | DetachedCreate path u64

datatype Sys = Sys (sys_state: StoreState) (sys_pinned: "(string, nat) btree") (sys_files: files)
  (sys_tasks: "Task multiset") (sys_ids: "string set")

fun prepare_tasks :: "CleanupPlan \<Rightarrow> PrepareDecision result \<Rightarrow> Task multiset" where
  "prepare_tasks plan (Inl e) = {#ApplyCleanup plan#}"
| "prepare_tasks plan (Inr (Existing response)) = {#ApplyCleanup plan#}"
| "prepare_tasks plan (Inr (Create candidate)) = {#PrepareCreate candidate plan#}"

text \<open>What is left of a task whose future is dropped: a file access already handed to the
  blocking thread pool still takes place.\<close>

fun abandoned :: "Task \<Rightarrow> Task multiset" where
  "abandoned (PrepareCreate candidate plan) =
     {#DetachedCreate (us_file_path candidate) (us_artifact_size candidate)#}"
| "abandoned (PushWrite now request chunk_end file_path plan) = {#DetachedWrite request file_path#}"
| "abandoned (ApplyCleanup (file_path # plan)) = {#ApplyCleanup [file_path]#}"
| "abandoned _ = {#}"

definition push_did :: "ArtifactPushRequest \<Rightarrow> string" where
  "push_did request = aph_deploy_id (apr_header request)"

inductive sys_step :: "ArtifactStore \<Rightarrow> (bytes \<Rightarrow> string) \<Rightarrow> Sys \<Rightarrow> Sys \<Rightarrow> bool"
  for store :: ArtifactStore and sha :: "bytes \<Rightarrow> string" where
  prepare_start:
    "prepare_check store request = Inr () \<Longrightarrow> deploy_id \<notin> ids \<Longrightarrow>
     prepare_decide store sha pinned now deploy_id upload_token request st = (st', plan, decision) \<Longrightarrow>
     sys_step store sha (Sys st pinned F M ids)
       (Sys st' pinned F (M + prepare_tasks plan decision) (insert deploy_id ids))"
| prepare_create:
    "create_preallocated_file io (us_file_path c) (us_artifact_size c) F = (F', created) \<Longrightarrow>
     sys_step store sha (Sys st pinned F (add_mset (PrepareCreate c plan) M) ids)
       (Sys st pinned F'
         (add_mset (case created of Inl e \<Rightarrow> ApplyCleanup plan | Inr _ \<Rightarrow> PrepareInsert c plan) M) ids)"
| prepare_end:
    "prepare_insert store pinned now c st = (st', plan', response) \<Longrightarrow>
     sys_step store sha (Sys st pinned F (add_mset (PrepareInsert c plan) M) ids)
       (Sys st' pinned F (add_mset (ApplyCleanup (plan @ plan')) M) ids)"
| push_start:
    "validate_ArtifactPushRequest request = Inr () \<Longrightarrow> push_check store sha request = Inr chunk_end \<Longrightarrow>
     push_admit store pinned now (apr_header request) chunk_end st = (st', plan, admitted) \<Longrightarrow>
     sys_step store sha (Sys st pinned F M ids)
       (Sys st' pinned F
         (M + (case admitted of Inl e \<Rightarrow> {#} | Inr p \<Rightarrow> {#PushWrite now request chunk_end p plan#})) ids)"
| push_part:
    "F p = Some content \<Longrightarrow>
     sys_step store sha (Sys st pinned F (add_mset (PushWrite now request chunk_end p plan) M) ids)
       (Sys st pinned
         (F(p \<mapsto> overwrite (unat (aph_offset (apr_header request))) (take n (apr_chunk request)) content))
         (add_mset (PushWrite now request chunk_end p plan) M) ids)"
| push_written:
    "write_chunk_to_file io p (aph_offset (apr_header request)) (apr_chunk request) F =
       (F', write_result) \<Longrightarrow>
     sys_step store sha (Sys st pinned F (add_mset (PushWrite now request chunk_end p plan) M) ids)
       (Sys st pinned F' (add_mset (PushRecord now request chunk_end write_result plan) M) ids)"
| push_end:
    "push_record now (apr_header request) chunk_end write_result st = (st', result) \<Longrightarrow>
     sys_step store sha (Sys st pinned F (add_mset (PushRecord now request chunk_end write_result plan) M) ids)
       (Sys st' pinned F
         (M + (case result of Inl e \<Rightarrow> {#} | Inr ack \<Rightarrow> {#ApplyCleanup plan#})) ids)"
| commit_start:
    "commit_admit store pinned now request st = (st', plan, admitted) \<Longrightarrow>
     sys_step store sha (Sys st pinned F M ids)
       (Sys st' pinned F
         (M + (case admitted of Inl e \<Rightarrow> {#}
               | Inr (p, expected) \<Rightarrow> {#CommitDigest now request p expected [] plan#})) ids)"
| commit_read:
    "F p = Some content \<Longrightarrow>
     sys_step store sha (Sys st pinned F (add_mset (CommitDigest now request p expected hashed plan) M) ids)
       (Sys st pinned F
         (add_mset (CommitDigest now request p expected
           (hashed @ take (1024 * 64) (drop (length hashed) content)) plan) M) ids)"
| commit_digest:
    "F p = Some content \<Longrightarrow> drop (length hashed) content = [] \<Longrightarrow>
     sys_step store sha (Sys st pinned F (add_mset (CommitDigest now request p expected hashed plan) M) ids)
       (Sys st pinned F (add_mset (CommitFinish now request expected (Inr (sha hashed)) plan) M) ids)"
| commit_digest_fail:
    "sys_step store sha (Sys st pinned F (add_mset (CommitDigest now request p expected hashed plan) M) ids)
       (Sys st pinned F
         (add_mset (CommitFinish now request expected (Inl (map_internal STAGE_COMMIT msg)) plan) M) ids)"
| commit_end:
    "commit_finish store pinned now request expected digest_result st = (st', plan', result) \<Longrightarrow>
     sys_step store sha (Sys st pinned F (add_mset (CommitFinish now request expected digest_result plan) M) ids)
       (Sys st' pinned F
         (M + (case result of Inl e \<Rightarrow> {#} | Inr r \<Rightarrow> {#ApplyCleanup (plan @ plan')#})) ids)"
| cleanup_file:
    "sys_step store sha (Sys st pinned F (add_mset (ApplyCleanup (p # plan)) M) ids)
       (Sys st pinned (if fails then F else F(p := None)) (add_mset (ApplyCleanup plan) M) ids)"
| cleanup_done:
    "sys_step store sha (Sys st pinned F (add_mset (ApplyCleanup []) M) ids) (Sys st pinned F M ids)"
| lookup:
    "lookup_committed store pinned now deploy_id st = (st', plan, found) \<Longrightarrow>
     sys_step store sha (Sys st pinned F M ids)
       (Sys st' pinned F
         (M + (case found of Inl e \<Rightarrow> {#} | Inr s \<Rightarrow> {#ApplyCleanup plan#})) ids)"
| purge:
    "purge_section store pinned now deploy_id st = (st', plan) \<Longrightarrow>
     sys_step store sha (Sys st pinned F M ids) (Sys st' pinned F (add_mset (ApplyCleanup plan) M) ids)"
| pin:
    "sys_step store sha (Sys st pinned F M ids) (Sys st (pin_deploy_session deploy_id pinned) F M ids)"
| unpin:
    "sys_step store sha (Sys st pinned F M ids) (Sys st (drop_pin_guard deploy_id pinned) F M ids)"
| abort:
    "sys_step store sha (Sys st pinned F (add_mset t M) ids) (Sys st pinned F (M + abandoned t) ids)"
| detached_write:
    "write_chunk_to_file io p (aph_offset (apr_header request)) (apr_chunk request) F =
       (F', write_result) \<Longrightarrow>
     sys_step store sha (Sys st pinned F (add_mset (DetachedWrite request p) M) ids) (Sys st pinned F' M ids)"
| detached_create:
    "create_preallocated_file io p n F = (F', created) \<Longrightarrow>
     sys_step store sha (Sys st pinned F (add_mset (DetachedCreate p n) M) ids) (Sys st pinned F' M ids)"

definition sys_init :: "Sys \<Rightarrow> bool" where
  "sys_init sys \<longleftrightarrow> (\<exists>F. sys = Sys \<lparr>ss_sessions = [], ss_idempotency = []\<rparr> [] F {#} {})"

section \<open>The invariant\<close>

datatype role = Creator | Writer | Committer

fun task_role :: "Task \<Rightarrow> (role \<times> string) option" where
  "task_role (PrepareCreate c plan) = Some (Creator, us_deploy_id c)"
| "task_role (PrepareInsert c plan) = Some (Creator, us_deploy_id c)"
| "task_role (PushWrite now request chunk_end p plan) = Some (Writer, push_did request)"
| "task_role (PushRecord now request chunk_end r plan) = Some (Writer, push_did request)"
| "task_role (DetachedWrite request p) = Some (Writer, push_did request)"
| "task_role (CommitDigest now request p e h plan) = Some (Committer, acr_deploy_id request)"
| "task_role (CommitFinish now request e r plan) = Some (Committer, acr_deploy_id request)"
| "task_role _ = None"

text \<open>The paths a task will still remove or overwrite on behalf of sessions that are gone.\<close>

fun task_paths :: "Task \<Rightarrow> path list" where
  "task_paths (PrepareCreate c plan) = plan"
| "task_paths (PrepareInsert c plan) = plan"
| "task_paths (PushWrite now request chunk_end p plan) = plan"
| "task_paths (PushRecord now request chunk_end r plan) = plan"
| "task_paths (CommitDigest now request p e h plan) = plan"
| "task_paths (CommitFinish now request e r plan) = plan"
| "task_paths (ApplyCleanup plan) = plan"
| "task_paths (DetachedWrite request p) = []"
| "task_paths (DetachedCreate p n) = [p]"

definition holders :: "role \<Rightarrow> string \<Rightarrow> Task multiset \<Rightarrow> nat" where
  "holders r d M = size (filter_mset (\<lambda>t. task_role t = Some (r, d)) M)"

definition candidate_ok :: "ArtifactStore \<Rightarrow> UploadSession \<Rightarrow> bool" where
  "candidate_ok store c \<longleftrightarrow> us_file_path c = session_file_path store (us_deploy_id c) \<and>
     0 < us_artifact_size c \<and> us_artifact_size c \<le> as_max_artifact_size_bytes store \<and>
     us_received_ranges c = [] \<and> \<not> us_committed c \<and>
     us_inflight_writes c = 0 \<and> \<not> us_commit_in_progress c"

definition chunk_fits :: "ArtifactPushRequest \<Rightarrow> u64 \<Rightarrow> u64 \<Rightarrow> bool" where
  "chunk_fits request chunk_end tot \<longleftrightarrow>
     fits_range tot (range_from_start_end (aph_offset (apr_header request)) chunk_end)"

fun task_ok :: "ArtifactStore \<Rightarrow> (bytes \<Rightarrow> string) \<Rightarrow> StoreState \<Rightarrow> files \<Rightarrow> Task \<Rightarrow> bool" where
  "task_ok store sha st F (PrepareCreate c plan) \<longleftrightarrow> candidate_ok store c"
| "task_ok store sha st F (PrepareInsert c plan) \<longleftrightarrow> candidate_ok store c"
| "task_ok store sha st F (PushWrite now request chunk_end p plan) \<longleftrightarrow>
     p = session_file_path store (push_did request) \<and>
     (\<forall>s. live st (push_did request) = Some s \<longrightarrow> chunk_fits request chunk_end (us_artifact_size s))"
| "task_ok store sha st F (PushRecord now request chunk_end r plan) \<longleftrightarrow>
     (\<forall>s. live st (push_did request) = Some s \<longrightarrow> chunk_fits request chunk_end (us_artifact_size s))"
| "task_ok store sha st F (DetachedWrite request p) \<longleftrightarrow>
     p = session_file_path store (push_did request)"
| "task_ok store sha st F (CommitDigest now request p expected hashed plan) \<longleftrightarrow>
     p = session_file_path store (acr_deploy_id request) \<and>
     (\<forall>s. live st (acr_deploy_id request) = Some s \<longrightarrow>
        expected = us_artifact_digest s \<and>
        (\<forall>content. F p = Some content \<longrightarrow> hashed = take (length hashed) content))"
| "task_ok store sha st F (CommitFinish now request expected r plan) \<longleftrightarrow>
     (\<forall>s. live st (acr_deploy_id request) = Some s \<longrightarrow>
        expected = us_artifact_digest s \<and>
        (\<forall>digest. r = Inr digest \<longrightarrow>
           (\<exists>content. F (session_file_path store (acr_deploy_id request)) = Some content \<and>
              digest = sha content)))"
| "task_ok store sha st F _ \<longleftrightarrow> True"

definition session_ok ::
    "ArtifactStore \<Rightarrow> (bytes \<Rightarrow> string) \<Rightarrow> files \<Rightarrow> string \<Rightarrow> UploadSession \<Rightarrow> bool" where
  "session_ok store sha F d s \<longleftrightarrow>
     us_file_path s = session_file_path store d \<and>
     0 < us_artifact_size s \<and> us_artifact_size s \<le> as_max_artifact_size_bytes store \<and>
     good_progress (us_artifact_size s) (us_received_ranges s) \<and>
     us_inflight_writes s \<le> as_max_inflight_chunks store \<and>
     (us_commit_in_progress s \<or> us_committed s \<longrightarrow>
        us_inflight_writes s = 0 \<and> is_complete (us_received_ranges s) (us_artifact_size s)) \<and>
     (us_committed s \<longrightarrow>
        (\<exists>content. F (session_file_path store d) = Some content \<and> sha content = us_artifact_digest s))"

definition id_ok :: "StoreState \<Rightarrow> Task multiset \<Rightarrow> string \<Rightarrow> bool" where
  "id_ok st M d \<longleftrightarrow>
     (case live st d of
        None \<Rightarrow> holders Creator d M = 0 \<or>
                holders Creator d M = 1 \<and> holders Writer d M = 0 \<and> holders Committer d M = 0
      | Some s \<Rightarrow> holders Creator d M = 0 \<and> holders Writer d M \<le> us_inflight_writes s \<and>
                  holders Committer d M \<le> of_bool (us_commit_in_progress s))"

definition known :: "StoreState \<Rightarrow> Task multiset \<Rightarrow> string \<Rightarrow> bool" where
  "known st M d \<longleftrightarrow> live st d \<noteq> None \<or> (\<exists>r. holders r d M \<noteq> 0)"

definition dead_paths :: "ArtifactStore \<Rightarrow> StoreState \<Rightarrow> Task multiset \<Rightarrow> string set \<Rightarrow> path set" where
  "dead_paths store st M ids =
     {session_file_path store d | d. d \<in> ids \<and> live st d = None \<and> holders Creator d M = 0}"

definition upload_inv :: "ArtifactStore \<Rightarrow> (bytes \<Rightarrow> string) \<Rightarrow> Sys \<Rightarrow> bool" where
  "upload_inv store sha sys \<longleftrightarrow>
     (case sys of Sys st pinned F M ids \<Rightarrow>
        store_wf st \<and>
        (\<forall>d s. live st d = Some s \<longrightarrow> session_ok store sha F d s) \<and>
        (\<forall>d. id_ok st M d) \<and>
        (\<forall>d. known st M d \<longrightarrow> d \<in> ids) \<and>
        (\<forall>t \<in># M. task_ok store sha st F t) \<and>
        (\<forall>t \<in># M. set (task_paths t) \<subseteq> dead_paths store st M ids))"


lemma holders_simps [simp]:
  "holders r d {#} = 0"
  "holders r d (add_mset t M) = holders r d M + of_bool (task_role t = Some (r, d))"
  "holders r d (M + N) = holders r d M + holders r d N"
  by (simp_all add: holders_def)

lemma holders_mem: "t \<in># M \<Longrightarrow> task_role t = Some (r, d) \<Longrightarrow> 0 < holders r d M"
  by (auto simp: holders_def size_eq_0_iff_empty filter_mset_eq_conv nonempty_has_size [symmetric]
      dest!: multi_member_split)

lemma session_file_path_inject [simp]:
  "session_file_path store d = session_file_path store d' \<longleftrightarrow> d = d'"
  by (simp add: session_file_path_def)

lemma upload_invI:
  assumes "store_wf st" "\<And>d s. live st d = Some s \<Longrightarrow> session_ok store sha F d s"
    and "\<And>d. id_ok st M d" "\<And>d. known st M d \<Longrightarrow> d \<in> ids"
    and "\<And>t. t \<in># M \<Longrightarrow> task_ok store sha st F t"
    and "\<And>t. t \<in># M \<Longrightarrow> set (task_paths t) \<subseteq> dead_paths store st M ids"
  shows "upload_inv store sha (Sys st pinned F M ids)"
  unfolding upload_inv_def Sys.case using assms by blast

lemma upload_invD:
  assumes "upload_inv store sha (Sys st pinned F M ids)"
  shows "store_wf st" "live st d = Some s \<Longrightarrow> session_ok store sha F d s"
    and "id_ok st M d" "known st M d \<Longrightarrow> d \<in> ids"
    and "t \<in># M \<Longrightarrow> task_ok store sha st F t"
    and "t \<in># M \<Longrightarrow> set (task_paths t) \<subseteq> dead_paths store st M ids"
  using assms unfolding upload_inv_def Sys.case by blast+

lemma dead_paths_mono:
  assumes "\<And>d. live st d = None \<Longrightarrow> live st' d = None"
    and "\<And>d. holders Creator d N \<le> holders Creator d M"
  shows "dead_paths store st M ids \<subseteq> dead_paths store st' N ids"
proof
  fix p assume "p \<in> dead_paths store st M ids"
  then obtain d where "p = session_file_path store d" "d \<in> ids" "live st d = None"
      "holders Creator d M = 0"
    unfolding dead_paths_def by blast
  moreover from this have "live st' d = None" "holders Creator d N = 0"
    using assms(1) [of d] assms(2) [of d] by simp_all
  ultimately show "p \<in> dead_paths store st' N ids" unfolding dead_paths_def by blast
qed

text \<open>A task looks at the declared size and digest of its session only.\<close>

lemma task_ok_cong:
  assumes ok: "task_ok store sha st F t"
    and sub: "\<And>d s'. live st' d = Some s' \<Longrightarrow> \<exists>s. live st d = Some s \<and>
      us_artifact_size s = us_artifact_size s' \<and> us_artifact_digest s = us_artifact_digest s'"
  shows "task_ok store sha st' F t"
proof (cases t)
  case (CommitDigest now request p expected hashed plan)
  then show ?thesis using ok sub [of "acr_deploy_id request"] by fastforce
next
  case (CommitFinish now request expected r plan)
  then show ?thesis using ok sub [of "acr_deploy_id request"] by fastforce
next
  case (PushWrite now request chunk_end p plan)
  then show ?thesis using ok sub [of "push_did request"] by fastforce
next
  case (PushRecord now request chunk_end r plan)
  then show ?thesis using ok sub [of "push_did request"] by fastforce
qed (use ok in auto)

lemma inv_pinned:
  "upload_inv store sha (Sys st pinned F M ids) \<Longrightarrow> upload_inv store sha (Sys st pinned' F M ids)"
  unfolding upload_inv_def Sys.case by assumption

text \<open>The file of a session that is gone, or that has a pending writer, may change.\<close>

lemma inv_files:
  assumes inv: "upload_inv store sha (Sys st pinned F M ids)"
    and F': "\<And>q. q \<noteq> session_file_path store d \<Longrightarrow> F' q = F q"
    and free: "live st d = None \<or> 0 < holders Writer d M"
  shows "upload_inv store sha (Sys st pinned F' M ids)"
proof -
  note I = upload_invD [OF inv]
  have quiet: "\<not> us_commit_in_progress s \<and> \<not> us_committed s \<and> holders Committer d M = 0"
    if s: "live st d = Some s" for s
    using free I(2) [OF s] I(3) [of d] s by (auto simp: session_ok_def id_ok_def)
  have other: "F' (session_file_path store e) = F (session_file_path store e)" if "e \<noteq> d" for e
    using that by (intro F') simp
  show ?thesis
  proof (rule upload_invI)
    fix e s assume s: "live st e = Some s"
    show "session_ok store sha F' e s"
      using I(2) [OF s] quiet s other [of e] by (cases "e = d") (auto simp: session_ok_def)
  next
    fix t assume t: "t \<in># M"
    have "live st e = None \<or> F' (session_file_path store e) = F (session_file_path store e)"
      if "task_role t = Some (Committer, e)" for e
      using holders_mem [OF t that] quiet other [of e] by (cases "e = d"; cases "live st d") auto
    then show "task_ok store sha st F' t" using I(5) [OF t] by (cases t) auto
  qed (use I in auto)
qed

text \<open>A task is replaced by tasks with fewer duties.\<close>

lemma inv_tasks:
  assumes inv: "upload_inv store sha (Sys st pinned F M ids)"
    and fewer: "\<And>r d. holders r d N \<le> holders r d M"
    and tasks: "\<And>t. t \<in># N \<Longrightarrow> t \<in># M \<or>
      task_ok store sha st F t \<and> set (task_paths t) \<subseteq> dead_paths store st N ids"
  shows "upload_inv store sha (Sys st pinned F N ids)"
proof -
  note I = upload_invD [OF inv]
  have mono: "dead_paths store st M ids \<subseteq> dead_paths store st N ids"
    by (rule dead_paths_mono) (auto intro: fewer)
  show ?thesis
  proof (rule upload_invI)
    fix d
    show "id_ok st N d"
      using I(3) [of d] fewer [of Creator d] fewer [of Writer d] fewer [of Committer d]
      by (auto simp: id_ok_def split: option.splits)
  next
    fix d assume "known st N d"
    then show "d \<in> ids" using I(4) [of d] fewer by (metis known_def le_zero_eq)
  next
    fix t assume "t \<in># N"
    then show "task_ok store sha st F t" "set (task_paths t) \<subseteq> dead_paths store st N ids"
      using tasks I(5,6) mono by blast+
  qed (use I in auto)
qed

lemma inv_add_cleanup:
  assumes "upload_inv store sha (Sys st pinned F M ids)"
    and "set plan \<subseteq> dead_paths store st M ids"
  shows "upload_inv store sha (Sys st pinned F (add_mset (ApplyCleanup plan) M) ids)"
  using assms by (intro inv_tasks [OF assms(1)]) (auto simp: dead_paths_def)

text \<open>Sessions disappear: cleanup and purge.\<close>

lemma shrinks_None: "shrinks st st' plan \<Longrightarrow> live st d = None \<Longrightarrow> live st' d = None"
  by (cases "live st' d") (fastforce simp: shrinks_def)+

lemma inv_shrink:
  assumes inv: "upload_inv store sha (Sys st pinned F M ids)"
    and wf: "store_wf st'" and sh: "shrinks st st' plan"
  shows "upload_inv store sha (Sys st' pinned F M ids)" and "set plan \<subseteq> dead_paths store st' M ids"
proof -
  note I = upload_invD [OF inv]
  have sub: "live st d = Some s" if "live st' d = Some s" for d s
    using sh that by (simp add: shrinks_def)
  note none = shrinks_None [OF sh]
  show "upload_inv store sha (Sys st' pinned F M ids)"
  proof (rule upload_invI)
    fix d
    show "id_ok st' M d"
      using I(3) [of d] sub [of d] none [of d]
      by (cases "live st' d"; cases "live st d") (auto simp: id_ok_def)
  next
    fix d assume "known st' M d"
    then show "d \<in> ids" using I(4) [of d] none [of d] by (cases "live st d") (auto simp: known_def)
  next
    fix t assume "t \<in># M"
    then show "task_ok store sha st' F t" using I(5) sub by (blast intro: task_ok_cong)
  next
    fix t assume "t \<in># M"
    then show "set (task_paths t) \<subseteq> dead_paths store st' M ids"
      using I(6) [of t] dead_paths_mono [OF none] by blast
  qed (use wf I(2) sub in auto)
  show "set plan \<subseteq> dead_paths store st' M ids"
  proof
    fix p assume "p \<in> set plan"
    then obtain d s where d: "live st d = Some s" "live st' d = None" "p = us_file_path s"
      using sh by (auto simp: shrinks_def)
    then have "p = session_file_path store d" "d \<in> ids" "holders Creator d M = 0"
      using I(2) [OF d(1)] I(3) [of d] I(4) [of d] by (auto simp: session_ok_def id_ok_def known_def)
    then show "p \<in> dead_paths store st' M ids" using d(2) by (auto simp: dead_paths_def)
  qed
qed

text \<open>One session is updated and the tasks on it change.\<close>

lemma inv_update:
  assumes inv: "upload_inv store sha (Sys st pinned F M ids)"
    and s: "live st d = Some s" and same: "same_upload s (f s)"
    and ok: "session_ok store sha F d (f s)"
    and N_d: "holders Creator d N = 0" "holders Writer d N \<le> us_inflight_writes (f s)"
      "holders Committer d N \<le> of_bool (us_commit_in_progress (f s))"
    and N_other: "\<And>r e. e \<noteq> d \<Longrightarrow> holders r e N \<le> holders r e M"
    and tasks: "\<And>t. t \<in># N \<Longrightarrow> t \<in># M \<or>
      task_ok store sha st F t \<and> set (task_paths t) \<subseteq> dead_paths store st M ids"
  shows "upload_inv store sha (Sys (update_session d f st) pinned F N ids)"
proof -
  note I = upload_invD [OF inv]
  let ?st = "update_session d f st"
  note lv = live_update_session [of d f st]
  have Creator: "holders Creator e N \<le> holders Creator e M" for e
    using N_d(1) N_other [of e Creator] by (cases "e = d") auto
  have mono: "dead_paths store st M ids \<subseteq> dead_paths store ?st N ids"
    using s by (intro dead_paths_mono Creator) (auto simp: lv)
  show ?thesis
  proof (rule upload_invI)
    show "store_wf ?st" using store_wf_update_session [of st d s f] I(1) s same by blast
    show "session_ok store sha F e s'" if "live ?st e = Some s'" for e s'
      using that ok I(2) s by (auto simp: lv split: if_splits)
  next
    fix e
    show "id_ok ?st N e"
      using I(3) [of e] N_d N_other [of e Creator] N_other [of e Writer] N_other [of e Committer] s
      by (cases "e = d") (auto simp: id_ok_def lv split: option.splits)
    show "e \<in> ids" if "known ?st N e"
    proof (cases "e = d")
      case True
      then show ?thesis using I(4) [of d] s by (simp add: known_def)
    next
      case False
      then have "known st M e"
        using that N_other [OF False] by (auto simp: known_def lv)
      then show ?thesis by (rule I(4))
    qed
  next
    fix t assume t: "t \<in># N"
    then have "task_ok store sha st F t" using tasks I(5) by blast
    then show "task_ok store sha ?st F t"
      by (rule task_ok_cong) (use s same in \<open>auto simp: lv same_upload_def split: if_splits\<close>)
    show "set (task_paths t) \<subseteq> dead_paths store ?st N ids"
      using t tasks I(6) mono by blast
  qed
qed


section \<open>Every step keeps the invariant\<close>

lemma inv_cleanup:
  assumes "upload_inv store sha (Sys st pinned F M ids)"
    and "collect_session_cleanup_locked store pinned' st now keep = (st', plan)"
  shows "upload_inv store sha (Sys st' pinned F M ids)" and "set plan \<subseteq> dead_paths store st' M ids"
  using inv_shrink [OF assms(1)] cleanup_spec [OF assms(2) upload_invD(1) [OF assms(1)]] by blast+

lemma session_ok_touch [simp]: "session_ok store sha F d (touch now s) = session_ok store sha F d s"
  by (simp add: session_ok_def touch_def)

lemma inv_touch:
  assumes "upload_inv store sha (Sys st pinned F M ids)" "live st d = Some s"
  shows "upload_inv store sha (Sys (update_session d (touch now) st) pinned F M ids)"
  using upload_invD(2) [OF assms] upload_invD(3) [OF assms(1), of d] assms
  by (intro inv_update [OF assms]) (auto simp: same_upload_def touch_def id_ok_def session_ok_def)

lemma live_touch_None: "live (update_session d (touch now) st) e = None \<longleftrightarrow> live st e = None"
  by (simp add: live_update_session)

lemma dead_paths_touch [simp]:
  "dead_paths store (update_session d (touch now) st) M ids = dead_paths store st M ids"
  by (simp add: dead_paths_def live_touch_None)

lemma inv_new_id:
  assumes "upload_inv store sha (Sys st pinned F M ids)"
  shows "upload_inv store sha (Sys st pinned F M (insert d ids))"
proof -
  note I = upload_invD [OF assms]
  have "dead_paths store st M ids \<subseteq> dead_paths store st M (insert d ids)"
    by (auto simp: dead_paths_def)
  then show ?thesis using I by (intro upload_invI) blast+
qed


lemma inv_new_creator:
  assumes inv: "upload_inv store sha (Sys st pinned F M ids)"
    and new: "us_deploy_id c \<notin> ids" and c: "candidate_ok store c"
    and plan: "set plan \<subseteq> dead_paths store st M ids"
  shows "upload_inv store sha
    (Sys st pinned F (add_mset (PrepareCreate c plan) M) (insert (us_deploy_id c) ids))"
proof -
  note I = upload_invD [OF inv]
  have "\<not> known st M (us_deploy_id c)" using I(4) new by blast
  then have none: "live st (us_deploy_id c) = None" "holders r (us_deploy_id c) M = 0" for r
    by (simp_all add: known_def)
  have mono: "dead_paths store st M ids \<subseteq>
      dead_paths store st (add_mset (PrepareCreate c plan) M) (insert (us_deploy_id c) ids)"
    using new by (auto simp: dead_paths_def)
  show ?thesis
  proof (rule upload_invI)
    fix d
    show "id_ok st (add_mset (PrepareCreate c plan) M) d"
      using I(3) [of d] none by (cases "d = us_deploy_id c") (auto simp: id_ok_def split: option.splits)
    show "d \<in> insert (us_deploy_id c) ids" if "known st (add_mset (PrepareCreate c plan) M) d"
      using that I(4) [of d] by (auto simp: known_def split: if_splits)
  next
    fix t assume "t \<in># add_mset (PrepareCreate c plan) M"
    then show "task_ok store sha st F t"
      "set (task_paths t) \<subseteq>
         dead_paths store st (add_mset (PrepareCreate c plan) M) (insert (us_deploy_id c) ids)"
      using I(5,6) c plan mono by (auto simp del: subset_iff) blast+
  qed (use I in auto)
qed

lemma step_prepare_start:
  assumes inv: "upload_inv store sha (Sys st pinned F M ids)"
    and check: "prepare_check store request = Inr ()" and new: "deploy_id \<notin> ids"
    and decide: "prepare_decide store sha pinned now deploy_id upload_token request st =
      (st', plan, decision)"
  shows "upload_inv store sha
    (Sys st' pinned F (M + prepare_tasks plan decision) (insert deploy_id ids))"
proof -
  obtain st1 p1 where cl: "collect_session_cleanup_locked store pinned st now None = (st1, p1)"
    by force
  note C = inv_cleanup [OF inv cl]
  show ?thesis
  proof (cases "existing_session st1 (dpr_idempotency_key request)")
    case None
    obtain c where c: "decision = Inr (Create c)" "us_deploy_id c = deploy_id" "candidate_ok store c"
        "st' = st1" "plan = p1"
      using decide cl None check
      by (auto simp: prepare_decide_def Let_def candidate_ok_def prepare_check_ok)
    show ?thesis using inv_new_creator [OF C(1) _ c(3)] C(2) c new by simp
  next
    case (Some e)
    obtain d s where e: "e = (d, s)" by force
    note lv = existing_session_live [OF Some [unfolded e]]
    have "prepare_tasks plan decision = {#ApplyCleanup p1#}"
        "st' = st1 \<or> st' = update_session d (touch now) st1"
      using decide cl Some e by (auto simp: prepare_decide_def Let_def split: if_splits)
    then show ?thesis
      using inv_add_cleanup [OF C] inv_add_cleanup [OF inv_touch [OF C(1) lv], of p1] C(2)
      by (auto intro: inv_new_id)
  qed
qed

lemma inv_insert_session:
  assumes inv: "upload_inv store sha (Sys st pinned F (add_mset (PrepareInsert c plan) M) ids)"
    and none: "existing_session st (us_idempotency_key c) = None"
    and st'_def: "st' = \<lparr>ss_sessions = bt_insert (us_deploy_id c) (touch now c) (ss_sessions st),
    ss_idempotency = bt_insert (us_idempotency_key c) (us_deploy_id c) (ss_idempotency st)\<rparr>"
  shows "upload_inv store sha (Sys st' pinned F M ids)"
    and "dead_paths store st (add_mset (PrepareInsert c plan) M) ids = dead_paths store st' M ids"
proof -
  note I = upload_invD [OF inv]
  let ?d = "us_deploy_id c"
  have gone: "live st ?d = None" and free: "holders r ?d M = 0" for r
    using I(3) [of ?d] by (cases r; auto simp: id_ok_def split: option.splits)+
  have lv: "live st' = (live st)(?d \<mapsto> touch now c)"
    by (simp add: st'_def btree_simps)
  have c: "candidate_ok store c" using I(5) [of "PrepareInsert c plan"] by simp
  show dead: "dead_paths store st (add_mset (PrepareInsert c plan) M) ids = dead_paths store st' M ids"
  proof -
    have "live st d = None \<and> holders Creator d (add_mset (PrepareInsert c plan) M) = 0 \<longleftrightarrow>
        live st' d = None \<and> holders Creator d M = 0" for d
      using gone free [of Creator] by (auto simp: lv)
    then show ?thesis by (simp only: dead_paths_def)
  qed
  show "upload_inv store sha (Sys st' pinned F M ids)"
  proof (rule upload_invI)
    show "store_wf st'"
      using store_wf_insert [of st "touch now c"] I(1) none by (simp add: st'_def touch_def)
    show "session_ok store sha F d s" if "live st' d = Some s" for d s
      using that I(2) c by (auto simp: lv session_ok_def candidate_ok_def touch_def good_progress_def
          separated_def split: if_splits)
  next
    fix d
    show "id_ok st' M d"
      using I(3) [of d] free by (cases "d = ?d") (auto simp: id_ok_def lv split: option.splits)
    show "d \<in> ids" if "known st' M d"
      using that I(4) [of d] by (auto simp: known_def lv split: if_splits)
  next
    fix t assume t: "t \<in># M"
    have "task_role t \<noteq> Some (r, ?d)" for r
      using holders_mem [OF t, of r ?d] free [of r] by auto
    then show "task_ok store sha st' F t"
      using I(5) [of t] t by (cases t) (auto simp: lv)
    show "set (task_paths t) \<subseteq> dead_paths store st' M ids"
      using I(6) [of t] t by (simp add: dead)
  qed
qed

lemma step_prepare_end:
  assumes inv: "upload_inv store sha (Sys st pinned F (add_mset (PrepareInsert c plan) M) ids)"
    and ins: "prepare_insert store pinned now c st = (st', plan', response)"
  shows "upload_inv store sha (Sys st' pinned F (add_mset (ApplyCleanup (plan @ plan')) M) ids)"
proof -
  let ?M = "add_mset (PrepareInsert c plan) M"
  obtain st1 p1 where cl: "collect_session_cleanup_locked store pinned st now None = (st1, p1)"
    by force
  note C = inv_cleanup [OF inv cl]
  have plan: "set plan \<subseteq> dead_paths store st1 ?M ids"
    using upload_invD(6) [OF C(1), of "PrepareInsert c plan"] by simp
  show ?thesis
  proof (cases "existing_session st1 (us_idempotency_key c)")
    case None
    then show ?thesis
      using ins cl inv_insert_session [OF C(1) None, of st' now] C(2) plan
      by (auto simp: prepare_insert_def Let_def touch_def intro!: inv_add_cleanup)
  next
    case (Some e)
    obtain d s where e: "e = (d, s)" by force
    note lv = existing_session_live [OF Some [unfolded e]]
    have I1: "upload_inv store sha (Sys st1 pinned F M ids)"
      by (rule inv_tasks [OF C(1)]) auto
    have gone: "live st1 (us_deploy_id c) = None" "us_deploy_id c \<in> ids" "holders Creator (us_deploy_id c) M = 0"
      "us_file_path c = session_file_path store (us_deploy_id c)"
      using upload_invD(3,4) [OF C(1), of "us_deploy_id c"] upload_invD(5) [OF C(1), of "PrepareInsert c plan"]
      by (auto simp: id_ok_def known_def candidate_ok_def split: option.splits)
    have sub: "dead_paths store st1 ?M ids \<subseteq> dead_paths store st1 M ids"
      by (rule dead_paths_mono) auto
    have "us_file_path c \<in> dead_paths store st1 M ids"
      using gone by (auto simp: dead_paths_def)
    then have all: "set (plan @ p1 @ [us_file_path c]) \<subseteq> dead_paths store st1 M ids"
      using plan C(2) sub by auto
    have "plan' = p1 @ [us_file_path c]" "st' = st1 \<or> st' = update_session d (touch now) st1"
      using ins cl Some e by (auto simp: prepare_insert_def Let_def split: if_splits)
    then show ?thesis
      using inv_add_cleanup [OF I1 all] inv_add_cleanup [OF inv_touch [OF I1 lv]] all by auto
  qed
qed


lemma push_range_fits:
  assumes "validate_ArtifactPushRequest request = Inr ()" "push_check store sha request = Inr chunk_end"
    and "chunk_end \<le> tot"
  shows "chunk_fits request chunk_end tot"
proof -
  let ?h = "apr_header request"
  have sum: "unat chunk_end = unat (aph_length ?h) + unat (aph_offset ?h)"
    using assms(2) by (auto simp: push_check_def Let_def checked_add_unat split: if_splits option.splits)
  have "0 < unat (aph_length ?h)"
    using assms(1) by (simp add: validate_push_ok valid_push_def unat_gt_0)
  then show ?thesis
    using sum assms(3)
    by (simp add: chunk_fits_def fits_range_def range_from_start_end_def rend_def word_le_nat_alt
        unat_saturating_sub)
qed

lemma step_push_start:
  assumes inv: "upload_inv store sha (Sys st pinned F M ids)"
    and valid: "validate_ArtifactPushRequest request = Inr ()"
      "push_check store sha request = Inr chunk_end"
    and admit: "push_admit store pinned now (apr_header request) chunk_end st = (st', plan, admitted)"
  shows "upload_inv store sha (Sys st' pinned F
    (M + (case admitted of Inl e \<Rightarrow> {#} | Inr p \<Rightarrow> {#PushWrite now request chunk_end p plan#})) ids)"
proof -
  obtain st1 p1 where cl: "collect_session_cleanup_locked store pinned st now None = (st1, p1)"
    by force
  note C = inv_cleanup [OF inv cl]
  show ?thesis
  proof (cases admitted)
    case (Inl e)
    then have "st' = st1"
      using admit cl by (auto simp: push_admit_def Let_def split: option.splits if_splits)
    then show ?thesis using Inl C(1) by simp
  next
    case (Inr p)
    let ?d = "push_did request"
    let ?f = "\<lambda>s. s\<lparr>us_inflight_writes := us_inflight_writes s + 1, us_updated_at := now\<rparr>"
    obtain s where s: "live st1 ?d = Some s" "\<not> us_commit_in_progress s" "\<not> us_committed s"
        "chunk_end \<le> us_artifact_size s" "us_inflight_writes s < as_max_inflight_chunks store"
      and st': "st' = update_session ?d ?f st1" and p: "p = us_file_path s" "plan = p1"
      using admit cl Inr by (auto simp: push_admit_def push_did_def Let_def not_less
          split: option.splits if_splits)
    have ok: "session_ok store sha F ?d s" by (rule upload_invD(2) [OF C(1) s(1)])
    have "upload_inv store sha
        (Sys st' pinned F (add_mset (PushWrite now request chunk_end p p1) M) ids)"
      unfolding st'
    proof (rule inv_update [OF C(1) s(1)])
      show "session_ok store sha F ?d (?f s)" using ok s by (auto simp: session_ok_def)
    qed (use s ok p C(2) upload_invD(3) [OF C(1), of ?d] push_range_fits [OF valid s(4)] in
        \<open>auto simp: same_upload_def id_ok_def session_ok_def\<close>)
    then show ?thesis using Inr p by simp
  qed
qed

lemma step_push_end:
  assumes inv: "upload_inv store sha
      (Sys st pinned F (add_mset (PushRecord now request chunk_end write_result plan) M) ids)"
    and rec: "push_record now (apr_header request) chunk_end write_result st = (st', result)"
  shows "upload_inv store sha (Sys st' pinned F
    (M + (case result of Inl e \<Rightarrow> {#} | Inr ack \<Rightarrow> {#ApplyCleanup plan#})) ids)"
proof (cases "live st (push_did request)")
  case None
  then have "st' = st" "\<exists>e. result = Inl e"
    using rec by (auto simp: push_record_def push_did_def)
  then show ?thesis by (auto intro!: inv_tasks [OF inv])
next
  case (Some s)
  let ?d = "push_did request"
  let ?t = "PushRecord now request chunk_end write_result plan"
  let ?N = "M + (case result of Inl e \<Rightarrow> {#} | Inr ack \<Rightarrow> {#ApplyCleanup plan#})"
  have ok: "session_ok store sha F ?d s" by (rule upload_invD(2) [OF inv Some])
  have fits: "fits_range (us_artifact_size s)
      (range_from_start_end (aph_offset (apr_header request)) chunk_end)"
    and plan: "set plan \<subseteq> dead_paths store st (add_mset ?t M) ids"
    using upload_invD(5,6) [OF inv, of ?t] Some by (auto simp: chunk_fits_def)
  have W: "holders Writer ?d M + 1 \<le> us_inflight_writes s" "holders Creator ?d M = 0"
      "holders Committer ?d M \<le> of_bool (us_commit_in_progress s)"
    using upload_invD(3) [OF inv, of ?d] Some by (auto simp: id_ok_def)
  then have idle: "\<not> us_commit_in_progress s" "\<not> us_committed s"
    using ok by (auto simp: session_ok_def)
  obtain s' where s': "st' = update_session ?d (\<lambda>_. s') st" "same_upload s s'"
      "us_inflight_writes s' = us_inflight_writes s - 1" "session_ok store sha F ?d s'"
      "us_commit_in_progress s' = us_commit_in_progress s"
    using rec Some ok idle W(1) ledger.good_add [OF _ fits]
    by (cases write_result)
      (auto simp: push_record_def push_did_def Let_def same_upload_def session_ok_def)
  show ?thesis
    unfolding s'(1)
  proof (rule inv_update [OF inv Some])
    show "t \<in># add_mset ?t M \<or> task_ok store sha st F t \<and>
        set (task_paths t) \<subseteq> dead_paths store st (add_mset ?t M) ids" if "t \<in># ?N" for t
      using that plan by (cases result) auto
  qed (use s' W in \<open>auto split: sum.splits\<close>)
qed


lemma step_commit_start:
  assumes inv: "upload_inv store sha (Sys st pinned F M ids)"
    and admit: "commit_admit store pinned now request st = (st', plan, admitted)"
  shows "upload_inv store sha (Sys st' pinned F
    (M + (case admitted of Inl e \<Rightarrow> {#}
          | Inr (p, expected) \<Rightarrow> {#CommitDigest now request p expected [] plan#})) ids)"
proof -
  obtain st1 p1 where cl: "collect_session_cleanup_locked store pinned st now None = (st1, p1)"
    by force
  note C = inv_cleanup [OF inv cl]
  show ?thesis
  proof (cases admitted)
    case (Inl e)
    then have "st' = st1"
      using admit cl by (auto simp: commit_admit_def Let_def split: option.splits if_splits)
    then show ?thesis using Inl C(1) by simp
  next
    case (Inr pe)
    let ?d = "acr_deploy_id request"
    let ?f = "\<lambda>s. s\<lparr>us_commit_in_progress := True, us_updated_at := now\<rparr>"
    obtain s where s: "live st1 ?d = Some s" "\<not> us_commit_in_progress s" "us_inflight_writes s = 0"
        "is_complete (us_received_ranges s) (us_artifact_size s)"
      and st': "st' = update_session ?d ?f st1"
      and p: "pe = (us_file_path s, us_artifact_digest s)" "plan = p1"
      using admit cl Inr by (auto simp: commit_admit_def Let_def split: option.splits if_splits)
    have ok: "session_ok store sha F ?d s" by (rule upload_invD(2) [OF C(1) s(1)])
    have "upload_inv store sha (Sys st' pinned F
        (add_mset (CommitDigest now request (us_file_path s) (us_artifact_digest s) [] p1) M) ids)"
      unfolding st'
    proof (rule inv_update [OF C(1) s(1)])
      show "session_ok store sha F ?d (?f s)" using ok s by (auto simp: session_ok_def)
    qed (use s ok C(2) upload_invD(3) [OF C(1), of ?d] in
        \<open>auto simp: same_upload_def id_ok_def session_ok_def\<close>)
    then show ?thesis using Inr p by simp
  qed
qed

lemma step_commit_end:
  assumes inv: "upload_inv store sha
      (Sys st pinned F (add_mset (CommitFinish now request expected digest_result plan) M) ids)"
    and fin: "commit_finish store pinned now request expected digest_result st = (st', plan', result)"
  shows "upload_inv store sha (Sys st' pinned F
    (M + (case result of Inl e \<Rightarrow> {#} | Inr r \<Rightarrow> {#ApplyCleanup (plan @ plan')#})) ids)"
proof (cases "live st (acr_deploy_id request)")
  case None
  then have "st' = st" "\<exists>e. result = Inl e"
    using fin by (auto simp: commit_finish_def)
  then show ?thesis by (auto intro!: inv_tasks [OF inv])
next
  case (Some s)
  let ?d = "acr_deploy_id request"
  let ?t = "CommitFinish now request expected digest_result plan"
  let ?idle = "s\<lparr>us_commit_in_progress := False, us_updated_at := now\<rparr>"
  let ?done = "?idle\<lparr>us_committed := True\<rparr>"
  have ok: "session_ok store sha F ?d s" by (rule upload_invD(2) [OF inv Some])
  have plan: "set plan \<subseteq> dead_paths store st (add_mset ?t M) ids"
    and digest: "expected = us_artifact_digest s" "digest_result = Inr expected \<Longrightarrow>
      \<exists>content. F (session_file_path store ?d) = Some content \<and> expected = sha content"
    using upload_invD(5,6) [OF inv, of ?t] Some by auto
  have N: "holders Committer ?d M = 0" "holders Creator ?d M = 0"
      "holders Writer ?d M \<le> us_inflight_writes s" "us_commit_in_progress s"
    using upload_invD(3) [OF inv, of ?d] Some
    by (cases "us_commit_in_progress s"; simp add: id_ok_def)+
  have upd: "upload_inv store sha (Sys (update_session ?d (\<lambda>_. s') st) pinned F M ids)"
    if "session_ok store sha F ?d s'" "s' = ?idle \<or> s' = ?done" for s'
    by (rule inv_update [OF inv Some]) (use that N in \<open>auto simp: same_upload_def\<close>)
  have ok_idle: "session_ok store sha F ?d ?idle" using ok by (auto simp: session_ok_def)
  show ?thesis
  proof (cases "digest_result = Inr expected")
    case False
    then have "st' = update_session ?d (\<lambda>_. ?idle) st" "\<exists>e. result = Inl e"
      using fin Some by (auto simp: commit_finish_def Let_def split: sum.splits if_splits)
    then show ?thesis using upd [OF ok_idle] by auto
  next
    case True
    let ?st2 = "update_session ?d (\<lambda>_. ?done) st"
    have ok_done: "session_ok store sha F ?d ?done"
      using ok digest True N by (auto simp: session_ok_def)
    obtain st3 p3 where cl: "collect_session_cleanup_locked store pinned ?st2 now
        (Some (us_deploy_id ?done)) = (st3, p3)"
      by (metis surj_pair)
    have res: "st' = st3" "plan' = p3" "\<exists>r. result = Inr r"
      using fin Some True cl by (auto simp: commit_finish_def Let_def)
    note C = inv_cleanup [OF upd [OF ok_done] cl]
    have "shrinks ?st2 st3 p3"
      using cleanup_spec(2) [OF cl upload_invD(1) [OF upd [OF ok_done]]] by simp
    then have "live st3 e = None" if "live st e = None" for e
      using shrinks_None [of ?st2 st3 p3 e] that Some
      by (cases "e = ?d") (auto simp: live_update_session)
    then have "set plan \<subseteq> dead_paths store st3 M ids"
      using plan dead_paths_mono [of st st3 M "add_mset ?t M" store ids] by auto
    then show ?thesis using inv_add_cleanup [OF C(1)] C(2) res by auto
  qed
qed


lemma step_lookup:
  assumes inv: "upload_inv store sha (Sys st pinned F M ids)"
    and look: "lookup_committed store pinned now deploy_id st = (st', plan, found)"
  shows "upload_inv store sha (Sys st' pinned F
    (M + (case found of Inl e \<Rightarrow> {#} | Inr s \<Rightarrow> {#ApplyCleanup plan#})) ids)"
proof -
  obtain st1 p1 where cl: "collect_session_cleanup_locked store pinned st now (Some deploy_id) = (st1, p1)"
    by force
  note C = inv_cleanup [OF inv cl]
  consider "st' = st1" "\<exists>e. found = Inl e"
    | s r where "live st1 deploy_id = Some s" "st' = update_session deploy_id (touch now) st1"
        "plan = p1" "found = Inr r"
    using look cl by (auto simp: lookup_committed_def Let_def split: option.splits if_splits)
  then show ?thesis
  proof cases
    case 1
    then show ?thesis using C(1) by auto
  next
    case 2
    then show ?thesis using inv_add_cleanup [OF inv_touch [OF C(1) 2(1)], of p1] C(2) by simp
  qed
qed

lemma step_purge:
  assumes inv: "upload_inv store sha (Sys st pinned F M ids)"
    and purge: "purge_section store pinned now deploy_id st = (st', plan)"
  shows "upload_inv store sha (Sys st' pinned F (add_mset (ApplyCleanup plan) M) ids)"
proof -
  obtain st1 p1 where cl: "collect_session_cleanup_locked store pinned st now (Some deploy_id) = (st1, p1)"
    by force
  obtain st2 p2 where rm: "collect_sessions_for_removal_locked st1 [deploy_id] = (st2, p2)"
    by force
  have res: "st' = st2" "plan = p1 @ p2"
    using purge cl rm by (simp_all add: purge_section_def collect_sessions_by_deploy_ids_def)
  have wf: "store_wf st" by (rule upload_invD(1) [OF inv])
  note cs = cleanup_spec [OF cl wf]
  have "store_wf st2" "shrinks st st2 (p1 @ p2)"
    using removal_wf [OF cs(1), of "[deploy_id]"] removal_shrinks [of st1 "[deploy_id]"]
      shrinks_trans [OF cs(2)] rm by auto
  then show ?thesis
    using inv_shrink [OF inv] inv_add_cleanup res by metis
qed

lemma create_touches_path:
  "create_preallocated_file io p n F = (F', r) \<Longrightarrow> q \<noteq> p \<Longrightarrow> F' q = F q"
  by (auto simp: create_preallocated_file_def split: io_outcome.splits)

lemma inv_writer_file:
  assumes inv: "upload_inv store sha (Sys st pinned F M ids)"
    and t: "t \<in># M" "task_role t = Some (Writer, d)"
    and F': "\<And>q. q \<noteq> session_file_path store d \<Longrightarrow> F' q = F q"
  shows "upload_inv store sha (Sys st pinned F' M ids)"
  by (rule inv_files [OF inv F']) (use holders_mem [OF t] in auto)

lemma inv_dead_file:
  assumes inv: "upload_inv store sha (Sys st pinned F M ids)"
    and t: "t \<in># M" "p \<in> set (task_paths t)"
    and F': "\<And>q. q \<noteq> p \<Longrightarrow> F' q = F q"
  shows "upload_inv store sha (Sys st pinned F' M ids)"
proof -
  obtain d where "p = session_file_path store d" "live st d = None"
    using upload_invD(6) [OF inv t(1)] t(2) by (auto simp: dead_paths_def)
  then show ?thesis using inv_files [OF inv, of d F'] F' by blast
qed


lemma step_prepare_create:
  assumes io: "create_preallocated_file io (us_file_path c) (us_artifact_size c) F = (F', created)"
    and inv: "upload_inv store sha (Sys st pinned F (add_mset (PrepareCreate c plan) M) ids)"
  shows "upload_inv store sha (Sys st pinned F'
    (add_mset (case created of Inl e \<Rightarrow> ApplyCleanup plan | Inr _ \<Rightarrow> PrepareInsert c plan) M) ids)"
proof -
  let ?M = "add_mset (PrepareCreate c plan) M"
  have c: "candidate_ok store c" "set plan \<subseteq> dead_paths store st ?M ids" "live st (us_deploy_id c) = None"
    using upload_invD(5,6) [OF inv, of "PrepareCreate c plan"] upload_invD(3) [OF inv, of "us_deploy_id c"]
    by (auto simp: id_ok_def split: option.splits)
  have I: "upload_inv store sha (Sys st pinned F' ?M ids)"
    using inv_files [OF inv, of "us_deploy_id c" F'] create_touches_path [OF io] c
    by (auto simp: candidate_ok_def)
  have "dead_paths store st ?M ids \<subseteq> dead_paths store st M ids"
    by (rule dead_paths_mono) auto
  then show ?thesis
    using c by (intro inv_tasks [OF I]) (auto simp: dead_paths_def split: sum.splits)
qed

lemma step_push_written:
  assumes io: "write_chunk_to_file io p (aph_offset (apr_header request)) (apr_chunk request) F =
      (F', write_result)"
    and inv: "upload_inv store sha (Sys st pinned F (add_mset (PushWrite now request chunk_end p plan) M) ids)"
  shows "upload_inv store sha
    (Sys st pinned F' (add_mset (PushRecord now request chunk_end write_result plan) M) ids)"
proof -
  let ?t = "PushWrite now request chunk_end p plan"
  note I = upload_invD(5,6) [OF inv, of ?t]
  have "upload_inv store sha (Sys st pinned F' (add_mset ?t M) ids)"
    using I write_touches_path [OF io] by (intro inv_writer_file [OF inv, of ?t]) auto
  then show ?thesis using I by (elim inv_tasks) (auto simp: dead_paths_def)
qed

lemma take_extend:
  "xs = take (length xs) ys \<Longrightarrow>
     xs @ take n (drop (length xs) ys) = take (length (xs @ take n (drop (length xs) ys))) ys"
proof -
  assume xs: "xs = take (length xs) ys"
  have *: "xs @ take n (drop (length xs) ys) = take (length xs + n) ys"
    by (subst (1) xs) (simp add: take_add)
  show ?thesis unfolding * by (simp add: min_def)
qed

lemma step_commit_read:
  assumes F: "F p = Some content"
    and inv: "upload_inv store sha
      (Sys st pinned F (add_mset (CommitDigest now request p expected hashed plan) M) ids)"
  shows "upload_inv store sha (Sys st pinned F
    (add_mset (CommitDigest now request p expected
      (hashed @ take (1024 * 64) (drop (length hashed) content)) plan) M) ids)"
proof -
  let ?t = "CommitDigest now request p expected hashed plan"
  obtain h where h: "h = hashed @ take (1024 * 64) (drop (length hashed) content)" by blast
  have t: "task_ok store sha st F ?t" "set plan \<subseteq> dead_paths store st (add_mset ?t M) ids"
    using upload_invD(5,6) [OF inv, of ?t] by simp_all
  have "hashed = take (length hashed) content \<Longrightarrow> h = take (length h) content"
    unfolding h by (rule take_extend)
  then have "task_ok store sha st F (CommitDigest now request p expected h plan)"
    using F t(1) by auto
  then show ?thesis
    unfolding h [symmetric] using t(2)
    by (intro inv_tasks [OF inv]) (auto simp: dead_paths_def simp del: task_ok.simps)
qed

lemma step_commit_digested:
  assumes r: "r = Inl e \<or> r = Inr (sha hashed) \<and> F p = Some content \<and> drop (length hashed) content = []"
    and inv: "upload_inv store sha
      (Sys st pinned F (add_mset (CommitDigest now request p expected hashed plan) M) ids)"
  shows "upload_inv store sha (Sys st pinned F (add_mset (CommitFinish now request expected r plan) M) ids)"
  using upload_invD(5,6) [OF inv, of "CommitDigest now request p expected hashed plan"] r
  by (intro inv_tasks [OF inv]) (auto simp: dead_paths_def)

lemma step_cleanup_file:
  assumes inv: "upload_inv store sha (Sys st pinned F (add_mset (ApplyCleanup (p # plan)) M) ids)"
  shows "upload_inv store sha (Sys st pinned (if fails then F else F(p := None))
    (add_mset (ApplyCleanup plan) M) ids)"
proof -
  have "upload_inv store sha (Sys st pinned (if fails then F else F(p := None))
      (add_mset (ApplyCleanup (p # plan)) M) ids)"
    by (rule inv_dead_file [OF inv, of "ApplyCleanup (p # plan)" p]) auto
  then show ?thesis
    using upload_invD(6) [OF inv, of "ApplyCleanup (p # plan)"]
    by (elim inv_tasks) (auto simp: dead_paths_def)
qed

lemma step_abort:
  assumes inv: "upload_inv store sha (Sys st pinned F (add_mset t M) ids)"
  shows "upload_inv store sha (Sys st pinned F (M + abandoned t) ids)"
proof (rule inv_tasks [OF inv])
  show "holders r d (M + abandoned t) \<le> holders r d (add_mset t M)" for r d
    by (cases t rule: abandoned.cases) auto
  note I = upload_invD [OF inv]
  have "task_ok store sha st F u \<and> set (task_paths u) \<subseteq> dead_paths store st (M + abandoned t) ids"
    if u: "u \<in># abandoned t" for u
  proof (cases t rule: abandoned.cases)
    case (1 c plan)
    then have "d = us_deploy_id c \<longrightarrow> live st d = None \<and> holders Creator d M = 0 \<and> d \<in> ids" for d
      using I(3) [of d] I(4) [of d] by (auto simp: id_ok_def known_def split: option.splits)
    then show ?thesis
      using 1 u I(5) [of t] by (auto simp: candidate_ok_def dead_paths_def)
  next
    case (2 now request chunk_end p plan)
    then show ?thesis using u I(5) [of t] by auto
  next
    case (3 p plan)
    then show ?thesis using u I(6) [of t] by (auto simp: dead_paths_def)
  qed (use u in auto)
  then show "u \<in># add_mset t M \<or> task_ok store sha st F u \<and>
      set (task_paths u) \<subseteq> dead_paths store st (M + abandoned t) ids"
    if "u \<in># M + abandoned t" for u
    using that by auto
qed

lemma step_detached:
  assumes F': "write_chunk_to_file io p (aph_offset (apr_header request)) (apr_chunk request) F =
        (F', r) \<and> t = DetachedWrite request p \<or>
      create_preallocated_file io p n F = (F', r) \<and> t = DetachedCreate p n"
    and inv: "upload_inv store sha (Sys st pinned F (add_mset t M) ids)"
  shows "upload_inv store sha (Sys st pinned F' M ids)"
proof -
  have "upload_inv store sha (Sys st pinned F' (add_mset t M) ids)"
    using F'
  proof (elim disjE conjE)
    assume io: "write_chunk_to_file io p (aph_offset (apr_header request)) (apr_chunk request) F = (F', r)"
      and t: "t = DetachedWrite request p"
    show ?thesis
      using upload_invD(5) [OF inv, of t] t write_touches_path [OF io]
      by (intro inv_writer_file [OF inv, of t]) auto
  next
    assume "create_preallocated_file io p n F = (F', r)" "t = DetachedCreate p n"
    then show ?thesis
      using create_touches_path by (intro inv_dead_file [OF inv, of t p]) auto
  qed
  then show ?thesis by (elim inv_tasks) auto
qed

lemma upload_inv_step:
  assumes "sys_step store sha sys sys'" "upload_inv store sha sys"
  shows "upload_inv store sha sys'"
  using assms
proof (induction rule: sys_step.induct)
  case (push_part F p content st pinned now request chunk_end plan M ids n)
  let ?t = "PushWrite now request chunk_end p plan"
  show ?case
    using upload_invD(5) [OF push_part(2), of ?t]
    by (intro inv_writer_file [OF push_part(2), of ?t]) auto
next
  case (cleanup_done st pinned F M ids)
  then show ?case by (elim inv_tasks) auto
next
  case (commit_digest F p content hashed st pinned now request expected plan M ids)
  then show ?case by (intro step_commit_digested [OF disjI2 commit_digest(3)]) auto
next
  case (commit_digest_fail st pinned F now request p expected hashed plan M ids msg)
  then show ?case by (intro step_commit_digested [OF disjI1 commit_digest_fail]) auto
next
  case (detached_write io p request F F' write_result st pinned M ids)
  then show ?case by (intro step_detached [OF disjI1 detached_write(2)]) auto
next
  case (detached_create io p n F F' created st pinned M ids)
  then show ?case by (intro step_detached [OF disjI2 detached_create(2)]) auto
qed (rule step_prepare_start step_prepare_create step_prepare_end step_push_start step_push_written
    step_push_end step_commit_start step_commit_read step_commit_end step_cleanup_file step_lookup
    step_purge inv_pinned step_abort; assumption)+

interpretation upload: inductive_invariant sys_init "sys_step store sha" "upload_inv store sha"
  for store sha
proof unfold_locales
  show "upload_inv store sha s" if "sys_init s" for s
    using that by (auto simp: sys_init_def upload_inv_def store_wf_def id_ok_def known_def bt_wf_def)
  show "upload_inv store sha t" if "upload_inv store sha s" "sys_step store sha s t" for s t
    using that upload_inv_step by blast
qed


section \<open>The sequential operations are runs of the system\<close>

abbreviation runs :: "ArtifactStore \<Rightarrow> (bytes \<Rightarrow> string) \<Rightarrow> Sys \<Rightarrow> bool" where
  "runs store sha \<equiv> reach sys_init (sys_step store sha)"

lemma run_cleanup:
  "runs store sha (Sys st pinned F (add_mset (ApplyCleanup plan) M) ids) \<Longrightarrow>
   runs store sha (Sys st pinned (apply_cleanup_plan fails plan F) M ids)"
proof (induction plan arbitrary: F)
  case Nil
  then show ?case using reach_step sys_step.cleanup_done by (fastforce simp: apply_cleanup_plan_def)
next
  case (Cons p plan)
  let ?F = "if fails p then F else F(p := None)"
  have "runs store sha (Sys st pinned ?F (add_mset (ApplyCleanup plan) M) ids)"
    using Cons.prems sys_step.cleanup_file by (rule reach_step)
  from Cons.IH [OF this] show ?case by (simp add: apply_cleanup_plan_def)
qed

lemma run_digest:
  assumes "runs store sha (Sys st pinned F (add_mset (CommitDigest now request p expected [] plan) M) ids)"
  shows "runs store sha (Sys st pinned F
    (add_mset (CommitFinish now request expected (digest_file sha io p F) plan) M) ids)"
proof (cases "\<exists>msg. digest_file sha io p F = Inl (map_internal STAGE_COMMIT msg)")
  case True
  then show ?thesis using reach_step [OF assms sys_step.commit_digest_fail] by fastforce
next
  case False
  then obtain content where F: "F p = Some content" and digest: "digest_file sha io p F = Inr (sha content)"
    by (auto simp: digest_file_def concat_read_buffers split: option.splits io_outcome.splits)
  have "runs store sha (Sys st pinned F
      (add_mset (CommitDigest now request p expected (take (k * (1024 * 64)) content) plan) M) ids)" for k
  proof (induction k)
    case 0
    then show ?case using assms by simp
  next
    case (Suc k)
    have "take (k * (1024 * 64)) content @
        take (1024 * 64) (drop (length (take (k * (1024 * 64)) content)) content) =
        take (Suc k * (1024 * 64)) content"
      by (cases "k * (1024 * 64) \<le> length content") (simp_all add: min_def take_add [symmetric] algebra_simps)
    then show ?case using reach_step [OF Suc sys_step.commit_read [where content = content], OF F] by simp
  qed
  from this [of "length content"]
  have "runs store sha (Sys st pinned F
      (add_mset (CommitDigest now request p expected content plan) M) ids)"
    by simp
  from reach_step [OF this sys_step.commit_digest [of F p content content]] F show ?thesis by (simp add: digest)
qed

lemma run_prepare:
  assumes run: "runs store sha (Sys (w_state w) (w_pinned w) (w_files w) M ids)" and new: "deploy_id \<notin> ids"
    and op: "prepare store sha fails io now now2 deploy_id upload_token request w = (w', result)"
  shows "runs store sha (Sys (w_state w') (w_pinned w') (w_files w') M
    (if is_ok (prepare_check store request) then insert deploy_id ids else ids))"
proof (cases "prepare_check store request")
  case (Inl e)
  then show ?thesis using op run by (simp add: prepare_def)
next
  case (Inr u)
  then have check: "prepare_check store request = Inr ()" by simp
  obtain st1 plan decision where dec: "prepare_decide store sha (w_pinned w) now deploy_id upload_token
      request (w_state w) = (st1, plan, decision)"
    by (metis surj_pair)
  note run1 = reach_step [OF run sys_step.prepare_start [OF check new dec]]
  show ?thesis
  proof (cases "\<exists>c. decision = Inr (Create c)")
    case False
    then have "prepare_tasks plan decision = {#ApplyCleanup plan#}"
      by (cases "(plan, decision)" rule: prepare_tasks.cases) auto
    then show ?thesis
      using run_cleanup [of store sha st1 "w_pinned w" "w_files w" plan M "insert deploy_id ids" fails]
        run1 op check dec False
      by (auto simp: prepare_def Let_def split: sum.splits PrepareDecision.splits)
  next
    case True
    then obtain c where c: "decision = Inr (Create c)" by blast
    obtain F1 created where io: "create_preallocated_file io (us_file_path c) (us_artifact_size c)
        (w_files w) = (F1, created)"
      by force
    have run1: "runs store sha (Sys st1 (w_pinned w) (w_files w) (add_mset (PrepareCreate c plan) M)
        (insert deploy_id ids))"
      using run1 c by simp
    note run2 = reach_step [OF run1 sys_step.prepare_create [OF io]]
    obtain st2 plan2 response where ins: "prepare_insert store (w_pinned w) now2 c st1 = (st2, plan2, response)"
      by (metis surj_pair)
    show ?thesis
    proof (cases created)
      case Inl
      then show ?thesis using run2 run_cleanup op check dec c io by (fastforce simp: prepare_def Let_def)
    next
      case (Inr u')
      then have "runs store sha (Sys st2 (w_pinned w) F1 (add_mset (ApplyCleanup (plan @ plan2)) M)
          (insert deploy_id ids))"
        using run2 reach_step sys_step.prepare_end [OF ins] by fastforce
      then show ?thesis
        using run_cleanup op check Inr dec c io ins
        by (fastforce simp: prepare_def Let_def)
    qed
  qed
qed


lemma run_push:
  assumes run: "runs store sha (Sys (w_state w) (w_pinned w) (w_files w) M ids)"
    and valid: "validate_ArtifactPushRequest request = Inr ()"
    and op: "push store sha fails io now request w = (w', result)"
  shows "runs store sha (Sys (w_state w') (w_pinned w') (w_files w') M ids)"
proof (cases "push_check store sha request")
  case (Inl e)
  then show ?thesis using op run by (simp add: push_def)
next
  case (Inr chunk_end)
  obtain st1 plan admitted where admit: "push_admit store (w_pinned w) now (apr_header request) chunk_end
      (w_state w) = (st1, plan, admitted)"
    by (metis surj_pair)
  note run1 = reach_step [OF run sys_step.push_start [OF valid Inr admit]]
  show ?thesis
  proof (cases admitted)
    case (Inl e)
    then show ?thesis using run1 op Inr admit by (auto simp: push_def Let_def)
  next
    case (Inr p)
    obtain F1 r1 where io: "write_chunk_to_file io p (aph_offset (apr_header request)) (apr_chunk request)
        (w_files w) = (F1, r1)"
      by force
    obtain st2 res where rec: "push_record now (apr_header request) chunk_end r1 st1 = (st2, res)"
      by force
    have run1: "runs store sha (Sys st1 (w_pinned w) (w_files w)
        (add_mset (PushWrite now request chunk_end p plan) M) ids)"
      using run1 Inr by simp
    note run3 = reach_step [OF reach_step [OF run1 sys_step.push_written [OF io]] sys_step.push_end [OF rec]]
    show ?thesis
      using run3 run_cleanup [of store sha st2 "w_pinned w" F1 plan M ids fails] op Inr admit io rec
        \<open>push_check store sha request = Inr chunk_end\<close>
      by (cases res) (auto simp: push_def Let_def)
  qed
qed

lemma run_commit:
  assumes run: "runs store sha (Sys (w_state w) (w_pinned w) (w_files w) M ids)"
    and op: "commit store sha fails io now request w = (w', result)"
  shows "runs store sha (Sys (w_state w') (w_pinned w') (w_files w') M ids)"
proof -
  obtain st1 plan admitted where admit: "commit_admit store (w_pinned w) now request (w_state w) =
      (st1, plan, admitted)"
    by (metis surj_pair)
  note run1 = reach_step [OF run sys_step.commit_start [OF admit]]
  show ?thesis
  proof (cases admitted)
    case (Inl e)
    then show ?thesis using run1 op admit by (auto simp: commit_def Let_def)
  next
    case (Inr pe)
    obtain p expected where pe: "pe = (p, expected)" by force
    have run1: "runs store sha (Sys st1 (w_pinned w) (w_files w)
        (add_mset (CommitDigest now request p expected [] plan) M) ids)"
      using run1 Inr pe by simp
    obtain st2 plan2 res where fin: "commit_finish store (w_pinned w) now request expected
        (digest_file sha io p (w_files w)) st1 = (st2, plan2, res)"
      by (metis surj_pair)
    note run2 = reach_step [OF run_digest [OF run1] sys_step.commit_end [OF fin]]
    show ?thesis
      using run2 run_cleanup [of store sha st2 "w_pinned w" "w_files w" "plan @ plan2" M ids fails]
        op Inr pe admit fin
      by (cases res) (auto simp: commit_def Let_def)
  qed
qed


section \<open>An example run\<close>

lemma example_runs:
  "runs example_store example_sha
     (Sys (w_state example_world) (w_pinned example_world) (w_files example_world) {#} {''d1''})"
proof -
  obtain w1 r where w1: "prepare example_store example_sha (\<lambda>_. False) IoOk 100 100 ''d1'' ''t1''
      example_prepare empty_world = (w1, r)"
    by force
  have check: "prepare_check example_store example_prepare = Inr ()"
    by (simp add: prepare_check_ok example_defs)
  have "runs example_store example_sha
      (Sys (w_state empty_world) (w_pinned empty_world) (w_files empty_world) {#} {})"
    by (rule reach_init) (simp add: sys_init_def empty_world_def)
  from run_prepare [OF this _ w1] check
  have "runs example_store example_sha (Sys (w_state w1) (w_pinned w1) (w_files w1) {#} {''d1''})"
    by simp
  moreover have "validate_ArtifactPushRequest example_push = Inr ()"
    by (simp add: validate_push_ok valid_push_def example_push_def)
  ultimately have "runs example_store example_sha (Sys (w_state example_uploaded)
      (w_pinned example_uploaded) (w_files example_uploaded) {#} {''d1''})"
    unfolding example_uploaded_def w1 fst_conv using run_push prod.collapse by metis
  then show ?thesis
    unfolding example_world_def using run_commit prod.collapse by metis
qed

lemma example_world_live:
  "live (w_state example_world) ''d1'' =
     Some (example_session [\<lparr>br_offset = 0, br_length = 2\<rparr>] True 102)"
  by (simp add: example_world_eq example_live)

section \<open>Properties\<close>

text \<open>
  C1: the artifact that a committed session hands to the orchestrator has the digest the
  client declared. However the sections of concurrent prepares, pushes, commits, lookups
  and purges interleave, and whichever tasks are aborted in between, the file of a
  committed session exists and its content has the declared SHA-256 digest.
\<close>

theorem committed_content_verified:
  assumes "runs store sha sys" and "live (sys_state sys) d = Some s" and "us_committed s"
  shows "\<exists>content. sys_files sys (us_file_path s) = Some content \<and> sha content = us_artifact_digest s"
  using upload.reach_invar [OF assms(1)] assms(2,3)
  by (cases sys) (auto dest!: upload_invD(2) simp: session_ok_def)

theorem committed_content_verified_witness:
  "\<exists>content. w_files example_world (session_file_path example_store ''d1'') = Some content \<and>
     example_sha content = ''AB''"
  using committed_content_verified [OF example_runs, of "''d1''"] example_world_live
  by (simp add: example_session_def)

text \<open>
  C13: a commit sees a quiescent upload. While a session is being committed, and ever after,
  every byte of its artifact has been received, no write is counted as in flight, and no
  task of the system, aborted ones included, can still write to its file.
\<close>

theorem commit_sees_quiescent_upload:
  assumes "runs store sha sys" and "live (sys_state sys) d = Some s"
    and "us_commit_in_progress s \<or> us_committed s"
  shows "covered (us_received_ranges s) = {0 ..< unat (us_artifact_size s)} \<and>
    us_inflight_writes s = 0 \<and> (\<forall>t \<in># sys_tasks sys. task_role t \<noteq> Some (Writer, d))"
proof (cases sys)
  case (Sys st pinned F M ids)
  note I = upload_invD [OF upload.reach_invar [OF assms(1), unfolded Sys]]
  have s: "live st d = Some s" using assms(2) Sys by simp
  have "us_inflight_writes s = 0" "is_complete (us_received_ranges s) (us_artifact_size s)"
      "good_progress (us_artifact_size s) (us_received_ranges s)" "0 < us_artifact_size s"
    using I(2) [OF s] assms(3) by (auto simp: session_ok_def)
  moreover from this have "holders Writer d M = 0"
    using I(3) [of d] s by (simp add: id_ok_def)
  ultimately show ?thesis
    using is_complete_iff holders_mem [of _ M Writer d] Sys by (auto simp: unat_gt_0)
qed

theorem commit_sees_quiescent_upload_witness:
  "covered [\<lparr>br_offset = 0, br_length = 2\<rparr>] = {0 ..< unat (2 :: u64)}"
  using commit_sees_quiescent_upload [OF example_runs, of "''d1''"] example_world_live
  by (simp add: example_session_def)

text \<open>
  C15: concurrent work on one upload is bounded. In every reachable state at most
  \<open>max_inflight_chunks\<close> chunk writes are pending for a live session and at most one task
  is committing it.
\<close>

theorem concurrent_work_bounded:
  assumes "runs store sha sys" and "live (sys_state sys) d = Some s"
  shows "holders Writer d (sys_tasks sys) \<le> us_inflight_writes s \<and>
    us_inflight_writes s \<le> as_max_inflight_chunks store \<and> holders Committer d (sys_tasks sys) \<le> 1"
proof (cases sys)
  case (Sys st pinned F M ids)
  note I = upload_invD [OF upload.reach_invar [OF assms(1), unfolded Sys]]
  have "live st d = Some s" using assms(2) Sys by simp
  then show ?thesis
    using I(2) [of d s] I(3) [of d] Sys
    by (cases "us_commit_in_progress s") (auto simp: id_ok_def session_ok_def)
qed

theorem concurrent_work_bounded_witness:
  "us_inflight_writes (example_session [\<lparr>br_offset = 0, br_length = 2\<rparr>] True 102)
     \<le> as_max_inflight_chunks example_store"
  using concurrent_work_bounded [OF example_runs] example_world_live by simp

text \<open>
  C14: removal of files never hits a live upload. No path that a pending cleanup is about to
  remove, in any reachable state, is the file of a live session, and no two live sessions
  share a file.
\<close>

theorem cleanup_spares_live_files:
  assumes "runs store sha sys" and "live (sys_state sys) d = Some s"
  shows "(\<forall>t \<in># sys_tasks sys. us_file_path s \<notin> set (task_paths t)) \<and>
    (\<forall>d' s'. live (sys_state sys) d' = Some s' \<and> us_file_path s' = us_file_path s \<longrightarrow> d' = d)"
proof (cases sys)
  case (Sys st pinned F M ids)
  note I = upload_invD [OF upload.reach_invar [OF assms(1), unfolded Sys]]
  have path: "us_file_path s' = session_file_path store d'" if "live st d' = Some s'" for d' s'
    using I(2) [OF that] by (simp add: session_ok_def)
  have s: "live st d = Some s" using assms(2) Sys by simp
  then have "us_file_path s \<notin> dead_paths store st M ids"
    using path [OF s] by (auto simp: dead_paths_def)
  then show ?thesis using I(6) path s Sys by auto
qed

theorem cleanup_spares_live_files_witness:
  "\<nexists>s'. live (w_state example_world) ''d2'' = Some s' \<and>
     us_file_path s' = session_file_path example_store ''d1''"
  using cleanup_spares_live_files [OF example_runs, of "''d1''"] example_world_live
  by (auto simp: example_session_def)

text \<open>
  C16: an idempotency key names one upload. Two live sessions prepared with the same
  idempotency key are the same session, also when their prepares raced, and the index maps
  the key to that session.
\<close>

theorem idempotency_key_unique:
  assumes "runs store sha sys"
    and "live (sys_state sys) d = Some s" "live (sys_state sys) d' = Some s'"
    and "us_idempotency_key s = us_idempotency_key s'"
  shows "d = d' \<and> bt_get (ss_idempotency (sys_state sys)) (us_idempotency_key s) = Some d"
proof (cases sys)
  case (Sys st pinned F M ids)
  then show ?thesis
    using upload_invD(1) [OF upload.reach_invar [OF assms(1), unfolded Sys]] assms(2-)
    unfolding store_wf_def Sys by (metis Sys.sel(1) option.inject)
qed

theorem idempotency_key_unique_witness:
  "bt_get (ss_idempotency (w_state example_world)) ''k'' = Some ''d1''"
  using idempotency_key_unique [OF example_runs, of "''d1''" _ "''d1''"] example_world_live
  by (simp add: example_session_def)

end
