(* ===== verification/Rust_Text.thy ===== *)
theory Rust_Text
  imports Imago_Prelude
begin

text \<open>
  The parts of Rust's text and path library that the code uses: \<open>str::contains\<close> and \<open>str::trim\<close> on
  UTF-8 text, and \<open>Path::parent\<close>, \<open>file_name\<close>, \<open>join\<close>, \<open>is_absolute\<close> and equality for
  Unix paths. Text and paths are lists of their UTF-8 bytes.
\<close>

section \<open>Searching and quoting text\<close>

text \<open>\<open>str::contains\<close>, \<open>char::is_ascii_alphanumeric\<close>, and a text between apostrophes.\<close>

fun contains_text :: "string \<Rightarrow> string \<Rightarrow> bool" where
  "contains_text pattern [] = (pattern = [])"
| "contains_text pattern (c # cs) = (take (length pattern) (c # cs) = pattern \<or> contains_text pattern cs)"

definition is_ascii_alphanumeric :: "char \<Rightarrow> bool" where
  "is_ascii_alphanumeric c = (let n = of_char c :: nat in 48 \<le> n \<and> n < 58 \<or> 65 \<le> n \<and> n < 91 \<or> 97 \<le> n \<and> n < 123)"

definition quoted :: "string \<Rightarrow> string" where
  "quoted s = [CHR 0x27] @ s @ [CHR 0x27]"

text \<open>\<open>str::split_once\<close> and \<open>str::rsplit_once\<close> at a character.\<close>

definition split_once :: "char \<Rightarrow> string \<Rightarrow> (string \<times> string) option" where
  "split_once c s = (if c \<in> set s then Some (takeWhile (\<lambda>x. x \<noteq> c) s, tl (dropWhile (\<lambda>x. x \<noteq> c) s)) else None)"

definition rsplit_once :: "char \<Rightarrow> string \<Rightarrow> (string \<times> string) option" where
  "rsplit_once c s = map_option (\<lambda>(after, before). (rev before, rev after)) (split_once c (rev s))"

text \<open>\<open>Path::extension\<close> and \<open>Path::file_stem\<close> of a name.\<close>

definition extension :: "string \<Rightarrow> string option" where
  "extension name = (case rsplit_once CHR ''.'' name of Some (before, after) \<Rightarrow> if before = [] then None else Some after | None \<Rightarrow> None)"

definition file_stem :: "string \<Rightarrow> string" where
  "file_stem name = (case rsplit_once CHR ''.'' name of Some (before, _) \<Rightarrow> if before = [] then name else before | None \<Rightarrow> name)"

text \<open>\<open>str::parse\<close> for unsigned integers up to a bound: an optional plus sign and digits.\<close>

definition parse_unsigned :: "nat \<Rightarrow> string \<Rightarrow> string + nat" where
  "parse_unsigned bound raw =
     (let digits = (case raw of c # cs \<Rightarrow> if c = CHR ''+'' then cs else raw | [] \<Rightarrow> []) in
      if raw = [] then Inl ''cannot parse integer from empty string''
      else if digits = [] \<or> \<not> list_all (\<lambda>c. of_char c \<in> {48..<58::nat}) digits then Inl ''invalid digit found in string''
      else if parse_decimal digits \<ge> bound then Inl ''number too large to fit in target type''
      else Inr (parse_decimal digits))"

lemma contains_text_iff: "contains_text p s \<longleftrightarrow> (\<exists>a b. s = a @ p @ b)"
proof (induction s)
  case Nil
  then show ?case by auto
next
  case (Cons c s)
  have "take (length p) (c # s) = p \<longleftrightarrow> (\<exists>b. c # s = p @ b)"
    by (metis append_eq_conv_conj append_take_drop_id)
  moreover have "(\<exists>a b. c # s = a @ p @ b) \<longleftrightarrow> (\<exists>b. c # s = p @ b) \<or> (\<exists>a b. s = a @ p @ b)"
    by (metis append_Cons append_Nil list.inject neq_Nil_conv)
  ultimately show ?case using Cons by simp
qed

lemma split_once_append: "c \<notin> set before \<Longrightarrow> split_once c (before @ c # after) = Some (before, after)"
  by (induction before) (auto simp: split_once_def)

lemma rsplit_once_append: "c \<notin> set after \<Longrightarrow> rsplit_once c (before @ [c] @ after) = Some (before, after)"
  using split_once_append [of c "rev after" "rev before"] by (simp add: rsplit_once_def)

lemma parse_unsigned_decimal: "n < bound \<Longrightarrow> parse_unsigned bound (decimal n) = Inr n"
proof -
  assume n: "n < bound"
  obtain c cs where d: "decimal n = c # cs" by (metis decimal_not_Nil list.exhaust)
  have digits: "list_all (\<lambda>c. of_char c \<in> {48..<58::nat}) (decimal n)" using decimal_digits [of _ n] by (auto simp: list_all_iff)
  then have "c \<noteq> CHR ''+''" using d by auto
  then show ?thesis using n d digits parse_decimal_decimal [of n] by (simp add: parse_unsigned_def Let_def)
qed

section \<open>Trimming white space\<close>

text \<open>The code points with the Unicode property White\_Space, each as its UTF-8 bytes.\<close>

definition white_space :: "string list" where
  "white_space =
     [[CHR 0x09], [CHR 0x0A], [CHR 0x0B], [CHR 0x0C], [CHR 0x0D], [CHR 0x20],
      [CHR 0xC2, CHR 0x85], [CHR 0xC2, CHR 0xA0], [CHR 0xE1, CHR 0x9A, CHR 0x80],
      [CHR 0xE2, CHR 0x80, CHR 0x80], [CHR 0xE2, CHR 0x80, CHR 0x81],
      [CHR 0xE2, CHR 0x80, CHR 0x82], [CHR 0xE2, CHR 0x80, CHR 0x83],
      [CHR 0xE2, CHR 0x80, CHR 0x84], [CHR 0xE2, CHR 0x80, CHR 0x85],
      [CHR 0xE2, CHR 0x80, CHR 0x86], [CHR 0xE2, CHR 0x80, CHR 0x87],
      [CHR 0xE2, CHR 0x80, CHR 0x88], [CHR 0xE2, CHR 0x80, CHR 0x89],
      [CHR 0xE2, CHR 0x80, CHR 0x8A], [CHR 0xE2, CHR 0x80, CHR 0xA8],
      [CHR 0xE2, CHR 0x80, CHR 0xA9], [CHR 0xE2, CHR 0x80, CHR 0xAF],
      [CHR 0xE2, CHR 0x81, CHR 0x9F], [CHR 0xE3, CHR 0x80, CHR 0x80]]"

definition has_white_space :: "string \<Rightarrow> bool" where
  "has_white_space s = list_ex (\<lambda>w. contains_text w s) white_space"

function strip_front :: "string list \<Rightarrow> string \<Rightarrow> string" where
  "strip_front ws s =
     (case find (\<lambda>w. w \<noteq> [] \<and> take (length w) s = w) ws of
        None \<Rightarrow> s
      | Some w \<Rightarrow> strip_front ws (drop (length w) s))"
  by pat_completeness auto

termination
proof (relation "measure (\<lambda>(ws, s). length s)", goal_cases)
  case (2 ws s w)
  then have "w \<noteq> []" "take (length w) s = w" by (auto simp: find_Some_iff)
  then have "s \<noteq> []" by auto
  then show ?case using \<open>w \<noteq> []\<close> by simp
qed simp

declare strip_front.simps [simp del]

definition trim :: "string \<Rightarrow> string" where
  "trim s = rev (strip_front (map rev white_space) (rev (strip_front white_space s)))"

lemma strip_front_fixed:
  "list_all (\<lambda>w. w = [] \<or> take (length w) s \<noteq> w) ws \<Longrightarrow> strip_front ws s = s"
  by (subst strip_front.simps) (auto simp: find_Some_iff list_all_iff split: option.split)

lemma strip_front_result: "list_all (\<lambda>w. w = [] \<or> take (length w) (strip_front ws s) \<noteq> w) ws"
proof (induction ws s rule: strip_front.induct)
  case (1 ws s)
  show ?case
  proof (cases "find (\<lambda>w. w \<noteq> [] \<and> take (length w) s = w) ws")
    case None
    then show ?thesis by (subst strip_front.simps, simp only: option.case) (auto simp: find_None_iff list_all_iff)
  next
    case (Some w)
    then show ?thesis using "1.IH" by (subst strip_front.simps) (simp add: list_all_iff)
  qed
qed

lemma strip_front_suffix: "\<exists>front. s = front @ strip_front ws s"
proof (induction ws s rule: strip_front.induct)
  case (1 ws s)
  show ?case
  proof (cases "find (\<lambda>w. w \<noteq> [] \<and> take (length w) s = w) ws")
    case None
    then show ?thesis by (subst strip_front.simps) simp
  next
    case (Some w)
    then obtain front where "drop (length w) s = front @ strip_front ws (drop (length w) s)"
      using "1.IH" by blast
    then have "s = (take (length w) s @ front) @ strip_front ws (drop (length w) s)"
      by (metis append.assoc append_take_drop_id)
    then have "\<exists>front. s = front @ strip_front ws (drop (length w) s)" by (rule exI)
    then show ?thesis using Some by (subst strip_front.simps) simp
  qed
qed

text \<open>Trimming twice changes nothing, so a trimmed text that is not empty stays so.\<close>

lemma trim_trim [simp]: "trim (trim s) = trim s"
proof -
  define r where "r = strip_front white_space s"
  define t where "t = strip_front (map rev white_space) (rev r)"
  obtain front where "rev r = front @ t"
    using strip_front_suffix [of "rev r" "map rev white_space"] by (auto simp: t_def)
  then have r: "r = rev t @ rev front" by (metis rev_append rev_rev_ident)
  have "strip_front white_space (rev t) = rev t"
  proof (rule strip_front_fixed, unfold list_all_iff, intro ballI)
    fix w assume "w \<in> set white_space"
    then have "w = [] \<or> take (length w) r \<noteq> w"
      using strip_front_result [of white_space s] by (auto simp: r_def list_all_iff)
    then show "w = [] \<or> take (length w) (rev t) \<noteq> w"
      unfolding r by (auto dest: arg_cong [of _ _ length])
  qed
  moreover have "strip_front (map rev white_space) t = t"
    by (rule strip_front_fixed) (simp add: t_def strip_front_result)
  ultimately show ?thesis by (simp add: trim_def flip: r_def t_def)
qed

text \<open>A text whose first and last characters are visible ASCII characters is its own trimmed form.\<close>

lemma white_edges:
  "list_all (\<lambda>w. w \<noteq> [] \<and> of_char (hd w) \<notin> {33..<127 :: nat} \<and> of_char (List.last w) \<notin> {33..<127 :: nat}) white_space"
  by (simp add: white_space_def)

lemma not_prefix_hd: "w \<noteq> [] \<Longrightarrow> hd w \<noteq> hd s \<Longrightarrow> take (length w) s \<noteq> w"
  by (cases w; cases s) auto

lemma trim_visible:
  assumes "s \<noteq> []" "of_char (hd s) \<in> {33..<127 :: nat}" "of_char (List.last s) \<in> {33..<127 :: nat}"
  shows "trim s = s"
proof -
  have edges: "w \<noteq> [] \<and> hd w \<noteq> hd s \<and> List.last w \<noteq> List.last s" if "w \<in> set white_space" for w
    using bspec [OF white_edges [unfolded list_all_iff] that] assms(2,3) by metis
  have "strip_front white_space s = s"
    by (rule strip_front_fixed) (simp add: list_all_iff not_prefix_hd edges)
  moreover have "strip_front (map rev white_space) (rev s) = rev s"
    using not_prefix_hd [of "rev w" "rev s" for w]
    by (intro strip_front_fixed) (auto simp: list_all_iff hd_rev assms(1) edges)
  ultimately show ?thesis by (simp add: trim_def)
qed

section \<open>Unix paths\<close>

abbreviation slash :: char where
  "slash \<equiv> CHR ''/''"

text \<open>Separators and \<open>.\<close> components at the end of a path, which is given reversed here.\<close>

fun strip_end :: "string \<Rightarrow> string" where
  "strip_end [] = []"
| "strip_end [c] = [c]"
| "strip_end (c # d # r) =
     (if c = slash then strip_end (d # r)
      else if c = CHR ''.'' \<and> d = slash then strip_end (d # r)
      else c # d # r)"

definition path_parent :: "string \<Rightarrow> string option" where
  "path_parent path =
     (let r = strip_end (rev path) in
      if r = [] \<or> r = [slash] then None
      else Some (rev (strip_end (dropWhile (\<lambda>c. c \<noteq> slash) r))))"

definition path_file_name :: "string \<Rightarrow> string option" where
  "path_file_name path =
     (let name = rev (takeWhile (\<lambda>c. c \<noteq> slash) (strip_end (rev path))) in
      if name \<in> {'''', ''.'', ''..''} then None else Some name)"

definition is_absolute :: "string \<Rightarrow> bool" where
  "is_absolute path = (path \<noteq> [] \<and> hd path = slash)"

definition path_join :: "string \<Rightarrow> string \<Rightarrow> string" where
  "path_join dir name =
     (if is_absolute name then name
      else if dir = [] then name
      else if List.last dir = slash then dir @ name
      else dir @ [slash] @ name)"

text \<open>Paths are equal if their components are: \<open>Path::eq\<close> ignores repeated separators and \<open>.\<close>.\<close>

fun split_path :: "string \<Rightarrow> string \<Rightarrow> string list" where
  "split_path acc [] = [rev acc]"
| "split_path acc (c # s) = (if c = slash then rev acc # split_path [] s else split_path (c # acc) s)"

definition path_components :: "string \<Rightarrow> bool \<times> string list" where
  "path_components path =
     (let parts = split_path [] path in
      (is_absolute path,
       (if hd parts = ''.'' then [''.''] else []) @ filter (\<lambda>c. c \<noteq> '''' \<and> c \<noteq> ''.'') parts))"

lemma path_join_absolute: "is_absolute dir \<Longrightarrow> is_absolute (path_join dir name)"
  by (auto simp: path_join_def is_absolute_def)

end
