(* ===== verification/Public_Keys.thy ===== *)
theory Public_Keys
  imports Imago_Errors
begin

unbundle bit_operations_syntax

text \<open>
  Ed25519 public keys as the daemon reads and prints them: the hexadecimal form of the
  configuration file and of requests (\<^verbatim>\<open>imagod-config/src/lib.rs\<close>,
  \<open>parse_ed25519_raw_public_key_hex\<close>), the printed form of the session log and the
  extraction of the raw key from the peer's SubjectPublicKeyInfo
  (\<^verbatim>\<open>imagod-server/src/protocol_handler/session_loop.rs\<close>). A key is a list of 32 bytes.
\<close>

section \<open>Hexadecimal\<close>

definition decode_hex_nibble :: "u8 \<Rightarrow> u8 option" where
  "decode_hex_nibble v =
     (if 48 \<le> v \<and> v \<le> 57 then Some (v - 48)
      else if 97 \<le> v \<and> v \<le> 102 then Some (v - 97 + 10)
      else if 65 \<le> v \<and> v \<le> 70 then Some (v - 65 + 10)
      else None)"

definition invalid_hex :: "nat \<Rightarrow> string" where
  "invalid_hex pos = ''must contain only hex characters (invalid byte at position '' @ decimal pos @ '')''"

text \<open>The loop over the pairs of digits; \<open>pos\<close> is the position of the next one. The caller has
  checked that the number of digits is even, so that a single digit is never left over.\<close>

fun decode_hex_pairs :: "nat \<Rightarrow> bytes \<Rightarrow> string + bytes" where
  "decode_hex_pairs pos [] = Inr []"
| "decode_hex_pairs pos [h] = Inr []"
| "decode_hex_pairs pos (h # l # rest) =
     (case decode_hex_nibble h of
        None \<Rightarrow> Inl (invalid_hex pos)
      | Some hi \<Rightarrow> (case decode_hex_nibble l of
          None \<Rightarrow> Inl (invalid_hex (pos + 1))
        | Some lo \<Rightarrow> and_then (decode_hex_pairs (pos + 2) rest) (\<lambda>out. Inr ((push_bit 4 hi OR lo) # out))))"

definition parse_ed25519_raw_public_key_hex :: "string \<Rightarrow> string + bytes" where
  "parse_ed25519_raw_public_key_hex s =
     (if length s \<noteq> 64 then Inl (''must be 64 hex characters (got '' @ decimal (length s) @ '')'')
      else decode_hex_pairs 0 (as_bytes s))"

text \<open>\<open>write!(out, "{byte:02x}")\<close>.\<close>

definition hex_digit :: "nat \<Rightarrow> char" where
  "hex_digit n = char_of (if n < 10 then 48 + n else 87 + n)"

definition encode_hex :: "bytes \<Rightarrow> string" where
  "encode_hex key = concat (map (\<lambda>b. [hex_digit (unat b div 16), hex_digit (unat b mod 16)]) key)"

text \<open>\<open>str::to_ascii_lowercase\<close>.\<close>

definition lower_char :: "char \<Rightarrow> char" where
  "lower_char c = (let n = of_char c :: nat in if 65 \<le> n \<and> n \<le> 90 then char_of (n + 32) else c)"

definition to_ascii_lowercase :: "string \<Rightarrow> string" where
  "to_ascii_lowercase s = map lower_char s"

section \<open>SubjectPublicKeyInfo\<close>

definition ED25519_SPKI_PREFIX :: bytes where
  "ED25519_SPKI_PREFIX = [0x30, 0x2a, 0x30, 0x05, 0x06, 0x03, 0x2b, 0x65, 0x70, 0x03, 0x21, 0x00]"

definition extract_ed25519_public_key :: "bytes \<Rightarrow> bytes result" where
  "extract_ed25519_public_key spki_der =
     (if length spki_der \<noteq> length ED25519_SPKI_PREFIX + 32
      then Inl (new_error Unauthorized ''session.auth'' ''peer public key (SPKI) must contain an ed25519 raw public key'')
      else if take (length ED25519_SPKI_PREFIX) spki_der \<noteq> ED25519_SPKI_PREFIX
      then Inl (new_error Unauthorized ''session.auth'' ''peer public key (SPKI) is not ed25519'')
      else Inr (drop (length ED25519_SPKI_PREFIX) spki_der))"

text \<open>
  The peer identity of a TLS session: absent, of another type than a certificate chain, or a
  chain of certificates.
\<close>

datatype peer_identity = NoIdentity | OtherIdentity | CertificateChain "bytes list"

fun extract_peer_public_key :: "peer_identity \<Rightarrow> bytes result" where
  "extract_peer_public_key NoIdentity =
     Inl (new_error Unauthorized ''session.auth'' ''peer identity is missing'')"
| "extract_peer_public_key OtherIdentity =
     Inl (new_error Unauthorized ''session.auth'' ''peer identity type is not certificate chain'')"
| "extract_peer_public_key (CertificateChain []) =
     Inl (new_error Unauthorized ''session.auth'' ''peer certificate chain is empty'')"
| "extract_peer_public_key (CertificateChain (first_certificate # _)) =
     extract_ed25519_public_key first_certificate"

section \<open>Digits\<close>

lemma of_char_u8: "(of_char c :: u8) = of_nat (of_char c)"
  by (rule of_nat_of_char [symmetric])

lemma nibble_value:
  assumes "decode_hex_nibble (of_char c) = Some n"
  shows "unat n < 16" "hex_digit (unat n) = lower_char c"
proof -
  define m where "m = (of_char c :: nat)"
  have c: "c = char_of m" and m: "m < 256" by (simp_all add: m_def)
  have w: "(of_char c :: u8) = of_nat m" by (simp only: m_def of_char_u8)
  have u: "unat (of_nat m :: u8) = m" using m by (simp add: unat_of_nat)
  have "(48 \<le> m \<and> m \<le> 57 \<and> unat n = m - 48) \<or> (97 \<le> m \<and> m \<le> 102 \<and> unat n = m - 87) \<or>
      (65 \<le> m \<and> m \<le> 70 \<and> unat n = m - 55)"
    using assms unfolding w decode_hex_nibble_def
    by (auto simp: word_le_nat_alt u unat_word_ariths unat_sub_if' split: if_splits)
  then show "unat n < 16" "hex_digit (unat n) = lower_char c"
    using m by (auto simp: hex_digit_def lower_char_def c Let_def)
qed

lemma nibble_digit: "n < 16 \<Longrightarrow> decode_hex_nibble (of_char (hex_digit n)) = Some (of_nat n)"
proof -
  assume n: "n < 16"
  define m where "m = (if n < 10 then 48 + n else 87 + n)"
  have m: "m < 256" using n by (simp add: m_def)
  then have "(of_char (hex_digit n) :: u8) = of_nat m"
    by (simp add: hex_digit_def of_char_u8 flip: m_def)
  then show ?thesis
    using n m by (auto simp: decode_hex_nibble_def word_le_nat_alt unat_of_nat m_def word_unat_eq_iff
        unat_word_ariths unat_sub_if')
qed

lemma nibble_lower: "decode_hex_nibble (of_char (lower_char c)) = decode_hex_nibble (of_char c)"
proof -
  define m where "m = (of_char c :: nat)"
  have c: "c = char_of m" and m: "m < 256" by (simp_all add: m_def)
  show ?thesis
  proof (cases "65 \<le> m \<and> m \<le> 90")
    case True
    have u: "k < 256 \<Longrightarrow> unat (of_nat k :: u8) = k" for k by (simp add: unat_of_nat)
    have l: "(of_char (lower_char c) :: u8) = of_nat (m + 32)" "(of_char c :: u8) = of_nat m"
      using True m by (simp_all add: lower_char_def of_char_u8 c Let_def del: of_nat_add)
    show ?thesis
      unfolding l decode_hex_nibble_def using True m
      by (auto simp: word_le_nat_alt u word_unat_eq_iff unat_word_ariths unat_sub_if')
  next
    case False
    then show ?thesis by (auto simp: lower_char_def simp flip: m_def)
  qed
qed

lemma byte_of_nibbles:
  assumes "unat hi < 16" "unat lo < 16"
  shows "unat (push_bit 4 hi OR lo :: u8) = 16 * unat hi + unat lo"
proof -
  have "unat (push_bit 4 hi) = 16 * unat hi"
    using assms by (simp add: push_bit_eq_mult unat_word_ariths)
  moreover have "push_bit 4 hi AND lo = 0"
  proof (rule bit_word_eqI)
    fix k assume "k < LENGTH(8)"
    have "\<not> bit lo k" if "4 \<le> k"
    proof -
      have "(2 :: nat) ^ 4 \<le> 2 ^ k" by (rule power_increasing [OF that]) simp
      then have "unat lo div 2 ^ k = 0" using assms(2) by simp
      then have "\<not> bit (unat lo) k" by (simp add: bit_iff_odd)
      then show ?thesis using \<open>k < LENGTH(8)\<close> by (simp add: bit_unsigned_iff)
    qed
    then show "bit (push_bit 4 hi AND lo) k = bit (0 :: u8) k"
      by (auto simp: bit_and_iff bit_push_bit_iff)
  qed
  ultimately have "push_bit 4 hi OR lo = push_bit 4 hi + lo" by (simp add: disjunctive_add_eq_or)
  then show ?thesis
    using assms \<open>unat (push_bit 4 hi) = 16 * unat hi\<close> by (simp add: unat_word_ariths)
qed

section \<open>Printing and parsing are inverse\<close>

lemma decode_pairs_encode: "decode_hex_pairs pos (as_bytes (encode_hex key)) = Inr key"
proof (induction key arbitrary: pos)
  case (Cons b key)
  have "unat b div 16 < 16" "unat b mod 16 < 16"
    using unsigned_less [where ?'a = nat, of b] by auto
  moreover from this have "push_bit 4 (of_nat (unat b div 16)) OR of_nat (unat b mod 16) = b"
    by (intro word_unat_eq_iff [THEN iffD2]) (subst byte_of_nibbles; simp add: unat_of_nat)
  ultimately show ?case
    using Cons by (simp add: encode_hex_def as_bytes_def nibble_digit)
qed (simp add: encode_hex_def as_bytes_def)

lemma decode_pairs_Inr:
  assumes "decode_hex_pairs pos (as_bytes s) = Inr key" and "even (length s)"
  shows "encode_hex key = to_ascii_lowercase s \<and> 2 * length key = length s"
  using assms
proof (induction s arbitrary: pos key rule: induct_list012)
  case (3 a b s)
  from "3.prems" obtain hi lo out where parts:
      "decode_hex_nibble (of_char a) = Some hi" "decode_hex_nibble (of_char b) = Some lo"
      "decode_hex_pairs (pos + 2) (as_bytes s) = Inr out" "key = (push_bit 4 hi OR lo) # out"
    by (auto simp: as_bytes_def split: option.splits)
  have "unat (push_bit 4 hi OR lo) = 16 * unat hi + unat lo"
    by (rule byte_of_nibbles) (use nibble_value parts in blast)+
  moreover have "encode_hex out = to_ascii_lowercase s \<and> 2 * length out = length s"
    using "3.IH"(1) [OF parts(3)] "3.prems"(2) by simp
  ultimately show ?case
    using parts(4) nibble_value [OF parts(1)] nibble_value [OF parts(2)]
    by (simp add: encode_hex_def to_ascii_lowercase_def)
qed (simp_all add: as_bytes_def encode_hex_def to_ascii_lowercase_def)

lemma decode_pairs_lower: "decode_hex_pairs pos (as_bytes (to_ascii_lowercase s)) = decode_hex_pairs pos (as_bytes s)"
  by (induction s arbitrary: pos rule: induct_list012)
    (simp_all add: as_bytes_def to_ascii_lowercase_def nibble_lower split: option.split)

lemma length_to_ascii_lowercase [simp]: "length (to_ascii_lowercase s) = length s"
  by (simp add: to_ascii_lowercase_def)

lemma parse_lower [simp]: "parse_ed25519_raw_public_key_hex (to_ascii_lowercase s) = parse_ed25519_raw_public_key_hex s"
  by (simp add: parse_ed25519_raw_public_key_hex_def decode_pairs_lower)

lemma parse_key_Inr:
  assumes "parse_ed25519_raw_public_key_hex s = Inr key"
  shows "length key = 32" "encode_hex key = to_ascii_lowercase s"
  using assms decode_pairs_Inr [of 0 s key]
  by (auto simp: parse_ed25519_raw_public_key_hex_def split: if_splits)

lemma length_encode_hex: "length (encode_hex key) = 2 * length key"
  by (induction key) (simp_all add: encode_hex_def)

lemma parse_encode: "length key = 32 \<Longrightarrow> parse_ed25519_raw_public_key_hex (encode_hex key) = Inr key"
  by (simp add: parse_ed25519_raw_public_key_hex_def decode_pairs_encode length_encode_hex)

text \<open>Two accepted texts denote the same key exactly if they differ in case only.\<close>

lemma same_key_iff:
  assumes "parse_ed25519_raw_public_key_hex s = Inr k" and "parse_ed25519_raw_public_key_hex t = Inr l"
  shows "k = l \<longleftrightarrow> to_ascii_lowercase s = to_ascii_lowercase t"
  by (metis assms parse_encode parse_key_Inr(1) parse_key_Inr(2) sum.inject(2))

end
