(* ===== verification/Daemon_Config.thy ===== *)
theory Daemon_Config
  imports Rust_Text Public_Keys "HOL-Library.Monad_Syntax" "HOL-Library.Countable"
begin

text \<open>
  The daemon's configuration (\<^verbatim>\<open>imagod-config\<close>): the settings with their defaults, the typed
  decoding of \<^verbatim>\<open>imagod.toml\<close>, its validation, the creation of a default file at first boot and
  the updates of the key lists that \<open>bindings.cert.upload\<close> and the trust-on-first-use of remote
  nodes perform on the file.

  The TOML library and the primitive conversions of the deserializer are parameters
  (\<open>TomlLib\<close>); the field-by-field decoding follows the declarations of the source. The outcomes
  of the operating system calls are parameters as well (\<open>ConfigIo\<close>), and the file system is a
  function from paths to the contents of files.
\<close>

section \<open>Settings\<close>

record TlsConfig =
  tls_server_key :: string
  tls_client_public_keys :: "string list"
  tls_known_public_keys :: "(string, string) btree"

datatype RuntimeFeatures = Enabled bool | Packages "string list"

record RuntimeConfig =
  rt_chunk_size :: nat
  rt_max_inflight_chunks :: nat
  rt_max_artifact_size_bytes :: u64
  rt_upload_session_ttl_secs :: u64
  rt_stop_grace_timeout_secs :: u64
  rt_runner_ready_timeout_secs :: u64
  rt_runner_log_buffer_bytes :: nat
  rt_retained_logs_capacity_bytes :: nat
  rt_committed_session_ttl_secs :: u64
  rt_max_committed_sessions :: nat
  rt_epoch_tick_interval_ms :: u64
  rt_wasm_memory_reservation_bytes :: u64
  rt_wasm_memory_reservation_for_growth_bytes :: u64
  rt_wasm_memory_guard_size_bytes :: u64
  rt_wasm_guard_before_linear_memory :: bool
  rt_wasm_parallel_compilation :: bool
  rt_http_worker_count :: u32
  rt_http_worker_queue_capacity :: u32
  rt_http_queue_memory_budget_bytes :: u64
  rt_manager_control_read_timeout_ms :: u64
  rt_max_concurrent_sessions :: u32
  rt_deploy_stream_timeout_secs :: u64
  rt_transport_keepalive_interval_secs :: u64
  rt_transport_max_idle_timeout_secs :: u64
  rt_boot_plugin_gc_enabled :: bool
  rt_boot_restore_enabled :: bool
  rt_features :: RuntimeFeatures

record ImagodConfig =
  cfg_listen_addr :: string
  cfg_control_socket_path :: string
  cfg_tls :: TlsConfig
  cfg_storage_root :: string
  cfg_runtime :: RuntimeConfig
  cfg_server_version :: string

section \<open>Defaults\<close>

definition MAX_CHUNK_SIZE_BYTES :: nat where
  "MAX_CHUNK_SIZE_BYTES = 8 * 1024 * 1024"

definition MAX_HTTP_QUEUE_MEMORY_BUDGET_BYTES :: u64 where
  "MAX_HTTP_QUEUE_MEMORY_BUDGET_BYTES = 64 * 1024 * 1024"

definition DEFAULT_SERVER_KEY_FILENAME :: string where
  "DEFAULT_SERVER_KEY_FILENAME = ''server.key''"

definition DEFAULT_CONTROL_SOCKET_FILENAME :: string where
  "DEFAULT_CONTROL_SOCKET_FILENAME = ''imagod.sock''"

definition DEFAULT_CONFIG_PATH :: string where
  "DEFAULT_CONFIG_PATH = ''/etc/imago/imagod.toml''"

definition DEFAULT_CONTROL_SOCKET_PATH :: string where
  "DEFAULT_CONTROL_SOCKET_PATH = ''/run/imago/imagod.sock''"

definition IMAGOD_SCHEMA_URL :: string where
  "IMAGOD_SCHEMA_URL = ''https://raw.githubusercontent.com/yieldspace/imago/main/schemas/imagod.schema.json''"

definition newline :: string where
  "newline = [char_of (10 :: nat)]"

definition AUTOCREATED_CONFIG_COMMENTS :: string where
  "AUTOCREATED_CONFIG_COMMENTS =
     ''# This file was autogenerated by imagod.'' @ newline @
     ''# Review tls.server_key and tls.client_public_keys before production use.'' @ newline @
     ''# Add peer public keys to tls.client_public_keys to allow RPC clients.'' @ newline"

text \<open>What the build fixes: the target system, the override of the storage root, the version.\<close>

record Build =
  build_os :: string
  build_storage_root :: "string option"
  build_version :: string

definition default_listen_addr :: string where
  "default_listen_addr = ''[::]:4443''"

definition resolve_default_storage_root :: "string \<Rightarrow> string option \<Rightarrow> string" where
  "resolve_default_storage_root target_os build_override =
     (case build_override of
        Some path \<Rightarrow>
          if path \<noteq> [] then path
          else if target_os = ''macos'' then ''/usr/local/var/imago''
          else if target_os = ''windows'' then ''C:'' @ [char_of (92 :: nat)] @ ''ProgramData'' @ [char_of (92 :: nat)] @ ''imago''
          else ''/var/lib/imago''
      | None \<Rightarrow>
          if target_os = ''macos'' then ''/usr/local/var/imago''
          else if target_os = ''windows'' then ''C:'' @ [char_of (92 :: nat)] @ ''ProgramData'' @ [char_of (92 :: nat)] @ ''imago''
          else ''/var/lib/imago'')"

definition default_storage_root :: "Build \<Rightarrow> string" where
  "default_storage_root build = resolve_default_storage_root (build_os build) (build_storage_root build)"

definition default_server_version :: "Build \<Rightarrow> string" where
  "default_server_version build = ''imagod/'' @ build_version build"

definition default_RuntimeConfig :: RuntimeConfig where
  "default_RuntimeConfig =
     \<lparr>rt_chunk_size = 1024 * 1024, rt_max_inflight_chunks = 16,
      rt_max_artifact_size_bytes = 64 * 1024 * 1024, rt_upload_session_ttl_secs = 15 * 60,
      rt_stop_grace_timeout_secs = 30, rt_runner_ready_timeout_secs = 60,
      rt_runner_log_buffer_bytes = 256 * 1024, rt_retained_logs_capacity_bytes = 256 * 1024 * 2,
      rt_committed_session_ttl_secs = 120, rt_max_committed_sessions = 16,
      rt_epoch_tick_interval_ms = 50, rt_wasm_memory_reservation_bytes = 64 * 1024 * 1024,
      rt_wasm_memory_reservation_for_growth_bytes = 16 * 1024 * 1024,
      rt_wasm_memory_guard_size_bytes = 64 * 1024, rt_wasm_guard_before_linear_memory = False,
      rt_wasm_parallel_compilation = False, rt_http_worker_count = 2,
      rt_http_worker_queue_capacity = 4, rt_http_queue_memory_budget_bytes = 32 * 1024 * 1024,
      rt_manager_control_read_timeout_ms = 500, rt_max_concurrent_sessions = 256,
      rt_deploy_stream_timeout_secs = 15, rt_transport_keepalive_interval_secs = 5,
      rt_transport_max_idle_timeout_secs = 180, rt_boot_plugin_gc_enabled = True,
      rt_boot_restore_enabled = True, rt_features = Enabled False\<rparr>"

section \<open>Built-in plugins\<close>

record BuiltinNativePluginDescriptor =
  bd_package_name :: string
  bd_default_enabled :: bool

definition BUILTIN_NATIVE_PLUGIN_DESCRIPTORS :: "BuiltinNativePluginDescriptor list" where
  "BUILTIN_NATIVE_PLUGIN_DESCRIPTORS =
     [\<lparr>bd_package_name = ''imago:admin'', bd_default_enabled = True\<rparr>,
      \<lparr>bd_package_name = ''imago:node'', bd_default_enabled = True\<rparr>,
      \<lparr>bd_package_name = ''imago:experimental-gpio'', bd_default_enabled = False\<rparr>,
      \<lparr>bd_package_name = ''imago:experimental-i2c'', bd_default_enabled = False\<rparr>,
      \<lparr>bd_package_name = ''imago:usb'', bd_default_enabled = False\<rparr>,
      \<lparr>bd_package_name = ''imago:v4l2'', bd_default_enabled = False\<rparr>]"

definition is_builtin_native_plugin_package_name :: "string \<Rightarrow> bool" where
  "is_builtin_native_plugin_package_name package_name =
     list_ex (\<lambda>d. bd_package_name d = package_name) BUILTIN_NATIVE_PLUGIN_DESCRIPTORS"

definition effective_builtin_native_plugin_package_names :: "RuntimeFeatures \<Rightarrow> string list" where
  "effective_builtin_native_plugin_package_names features =
     (let requested = (case features of
         Enabled True \<Rightarrow> None
       | Enabled False \<Rightarrow> Some []
       | Packages package_names \<Rightarrow> Some package_names) in
      map bd_package_name (filter (\<lambda>d. bd_default_enabled d \<or> requested = None \<or>
        (case requested of None \<Rightarrow> False | Some names \<Rightarrow> bd_package_name d \<in> set names))
        BUILTIN_NATIVE_PLUGIN_DESCRIPTORS))"

section \<open>Decoding\<close>

datatype toml_value =
    TString string
  | TInteger "64 word"
  | TFloat string
  | TBoolean bool
  | TDatetime string
  | TArray "toml_value list"
  | TTable "(string \<times> toml_value) list"

type_synonym toml_table = "(string, toml_value) btree"

text \<open>
  The TOML library: parsing, printing, the conversion of one value to a type of the source, and
  the text of its decoding errors. An integer of TOML is an \<open>i64\<close>.
\<close>

record TomlLib =
  from_str :: "string \<Rightarrow> string + toml_value"
  to_string_pretty :: "toml_table \<Rightarrow> string + string"
  de_string :: "toml_value \<Rightarrow> string option"
  de_bool :: "toml_value \<Rightarrow> bool option"
  de_usize :: "toml_value \<Rightarrow> nat option"
  de_u32 :: "toml_value \<Rightarrow> u32 option"
  de_u64 :: "toml_value \<Rightarrow> u64 option"
  de_seq :: "toml_value \<Rightarrow> toml_value list option"
  de_map :: "toml_value \<Rightarrow> toml_table option"
  decode_text :: "toml_value \<Rightarrow> string"

text \<open>What the library documents of the conversions the update of the key lists relies on: a
  string, an array and a table convert to themselves.\<close>

definition toml_conversions :: "TomlLib \<Rightarrow> bool" where
  "toml_conversions lib \<longleftrightarrow>
     (\<forall>s. de_string lib (TString s) = Some s) \<and> (\<forall>vs. de_seq lib (TArray vs) = Some vs) \<and>
     (\<forall>t. de_map lib (TTable t) = Some t)"

text \<open>A table that is printed can be read back, also below the comments of a generated file.\<close>

definition toml_round_trip :: "TomlLib \<Rightarrow> bool" where
  "toml_round_trip lib \<longleftrightarrow>
     (\<forall>table body. to_string_pretty lib table = Inr body \<longrightarrow>
        from_str lib body = Inr (TTable table) \<and>
        from_str lib (AUTOCREATED_CONFIG_COMMENTS @ newline @ body) = Inr (TTable table))"

fun de_each :: "('a \<Rightarrow> 'b option) \<Rightarrow> 'a list \<Rightarrow> 'b list option" where
  "de_each f [] = Some []"
| "de_each f (x # xs) = do { y \<leftarrow> f x; ys \<leftarrow> de_each f xs; Some (y # ys) }"

definition de_strings :: "TomlLib \<Rightarrow> toml_value \<Rightarrow> string list option" where
  "de_strings lib v = de_seq lib v \<bind> de_each (de_string lib)"

definition de_string_map :: "TomlLib \<Rightarrow> toml_value \<Rightarrow> (string, string) btree option" where
  "de_string_map lib v =
     de_map lib v \<bind> de_each (\<lambda>(k, x). do { s \<leftarrow> de_string lib x; Some (k, s) })"

text \<open>An untagged enum takes the first variant that the value converts to.\<close>

definition de_features :: "TomlLib \<Rightarrow> toml_value \<Rightarrow> RuntimeFeatures option" where
  "de_features lib v =
     (case de_bool lib v of
        Some b \<Rightarrow> Some (Enabled b)
      | None \<Rightarrow> map_option Packages (de_strings lib v))"

text \<open>A required field, and a field with \<open>#[serde(default)]\<close>.\<close>

definition req_field :: "toml_table \<Rightarrow> string \<Rightarrow> (toml_value \<Rightarrow> 'a option) \<Rightarrow> 'a option" where
  "req_field table key de = bt_get table key \<bind> de"

definition opt_field :: "toml_table \<Rightarrow> string \<Rightarrow> (toml_value \<Rightarrow> 'a option) \<Rightarrow> 'a \<Rightarrow> 'a option" where
  "opt_field table key de def = (case bt_get table key of None \<Rightarrow> Some def | Some v \<Rightarrow> de v)"

definition de_TlsConfig :: "TomlLib \<Rightarrow> toml_value \<Rightarrow> TlsConfig option" where
  "de_TlsConfig lib v = do {
     t \<leftarrow> de_map lib v;
     server_key \<leftarrow> req_field t ''server_key'' (de_string lib);
     client_public_keys \<leftarrow> req_field t ''client_public_keys'' (de_strings lib);
     known_public_keys \<leftarrow> opt_field t ''known_public_keys'' (de_string_map lib) [];
     Some \<lparr>tls_server_key = server_key, tls_client_public_keys = client_public_keys,
          tls_known_public_keys = known_public_keys\<rparr> }"

definition de_RuntimeConfig :: "TomlLib \<Rightarrow> toml_value \<Rightarrow> RuntimeConfig option" where
  "de_RuntimeConfig lib v = do {
     t \<leftarrow> de_map lib v;
     chunk_size \<leftarrow> opt_field t ''chunk_size'' (de_usize lib) (rt_chunk_size default_RuntimeConfig);
     max_inflight_chunks \<leftarrow> opt_field t ''max_inflight_chunks'' (de_usize lib) (rt_max_inflight_chunks default_RuntimeConfig);
     max_artifact_size_bytes \<leftarrow> opt_field t ''max_artifact_size_bytes'' (de_u64 lib) (rt_max_artifact_size_bytes default_RuntimeConfig);
     upload_session_ttl_secs \<leftarrow> opt_field t ''upload_session_ttl_secs'' (de_u64 lib) (rt_upload_session_ttl_secs default_RuntimeConfig);
     stop_grace_timeout_secs \<leftarrow> opt_field t ''stop_grace_timeout_secs'' (de_u64 lib) (rt_stop_grace_timeout_secs default_RuntimeConfig);
     runner_ready_timeout_secs \<leftarrow> opt_field t ''runner_ready_timeout_secs'' (de_u64 lib) (rt_runner_ready_timeout_secs default_RuntimeConfig);
     runner_log_buffer_bytes \<leftarrow> opt_field t ''runner_log_buffer_bytes'' (de_usize lib) (rt_runner_log_buffer_bytes default_RuntimeConfig);
     retained_logs_capacity_bytes \<leftarrow> opt_field t ''retained_logs_capacity_bytes'' (de_usize lib) (rt_retained_logs_capacity_bytes default_RuntimeConfig);
     committed_session_ttl_secs \<leftarrow> opt_field t ''committed_session_ttl_secs'' (de_u64 lib) (rt_committed_session_ttl_secs default_RuntimeConfig);
     max_committed_sessions \<leftarrow> opt_field t ''max_committed_sessions'' (de_usize lib) (rt_max_committed_sessions default_RuntimeConfig);
     epoch_tick_interval_ms \<leftarrow> opt_field t ''epoch_tick_interval_ms'' (de_u64 lib) (rt_epoch_tick_interval_ms default_RuntimeConfig);
     wasm_memory_reservation_bytes \<leftarrow> opt_field t ''wasm_memory_reservation_bytes'' (de_u64 lib) (rt_wasm_memory_reservation_bytes default_RuntimeConfig);
     wasm_memory_reservation_for_growth_bytes \<leftarrow> opt_field t ''wasm_memory_reservation_for_growth_bytes'' (de_u64 lib) (rt_wasm_memory_reservation_for_growth_bytes default_RuntimeConfig);
     wasm_memory_guard_size_bytes \<leftarrow> opt_field t ''wasm_memory_guard_size_bytes'' (de_u64 lib) (rt_wasm_memory_guard_size_bytes default_RuntimeConfig);
     wasm_guard_before_linear_memory \<leftarrow> opt_field t ''wasm_guard_before_linear_memory'' (de_bool lib) (rt_wasm_guard_before_linear_memory default_RuntimeConfig);
     wasm_parallel_compilation \<leftarrow> opt_field t ''wasm_parallel_compilation'' (de_bool lib) (rt_wasm_parallel_compilation default_RuntimeConfig);
     http_worker_count \<leftarrow> opt_field t ''http_worker_count'' (de_u32 lib) (rt_http_worker_count default_RuntimeConfig);
     http_worker_queue_capacity \<leftarrow> opt_field t ''http_worker_queue_capacity'' (de_u32 lib) (rt_http_worker_queue_capacity default_RuntimeConfig);
     http_queue_memory_budget_bytes \<leftarrow> opt_field t ''http_queue_memory_budget_bytes'' (de_u64 lib) (rt_http_queue_memory_budget_bytes default_RuntimeConfig);
     manager_control_read_timeout_ms \<leftarrow> opt_field t ''manager_control_read_timeout_ms'' (de_u64 lib) (rt_manager_control_read_timeout_ms default_RuntimeConfig);
     max_concurrent_sessions \<leftarrow> opt_field t ''max_concurrent_sessions'' (de_u32 lib) (rt_max_concurrent_sessions default_RuntimeConfig);
     deploy_stream_timeout_secs \<leftarrow> opt_field t ''deploy_stream_timeout_secs'' (de_u64 lib) (rt_deploy_stream_timeout_secs default_RuntimeConfig);
     transport_keepalive_interval_secs \<leftarrow> opt_field t ''transport_keepalive_interval_secs'' (de_u64 lib) (rt_transport_keepalive_interval_secs default_RuntimeConfig);
     transport_max_idle_timeout_secs \<leftarrow> opt_field t ''transport_max_idle_timeout_secs'' (de_u64 lib) (rt_transport_max_idle_timeout_secs default_RuntimeConfig);
     boot_plugin_gc_enabled \<leftarrow> opt_field t ''boot_plugin_gc_enabled'' (de_bool lib) (rt_boot_plugin_gc_enabled default_RuntimeConfig);
     boot_restore_enabled \<leftarrow> opt_field t ''boot_restore_enabled'' (de_bool lib) (rt_boot_restore_enabled default_RuntimeConfig);
     features \<leftarrow> opt_field t ''features'' (de_features lib) (rt_features default_RuntimeConfig);
     Some \<lparr>rt_chunk_size = chunk_size, rt_max_inflight_chunks = max_inflight_chunks,
          rt_max_artifact_size_bytes = max_artifact_size_bytes,
          rt_upload_session_ttl_secs = upload_session_ttl_secs,
          rt_stop_grace_timeout_secs = stop_grace_timeout_secs,
          rt_runner_ready_timeout_secs = runner_ready_timeout_secs,
          rt_runner_log_buffer_bytes = runner_log_buffer_bytes,
          rt_retained_logs_capacity_bytes = retained_logs_capacity_bytes,
          rt_committed_session_ttl_secs = committed_session_ttl_secs,
          rt_max_committed_sessions = max_committed_sessions,
          rt_epoch_tick_interval_ms = epoch_tick_interval_ms,
          rt_wasm_memory_reservation_bytes = wasm_memory_reservation_bytes,
          rt_wasm_memory_reservation_for_growth_bytes = wasm_memory_reservation_for_growth_bytes,
          rt_wasm_memory_guard_size_bytes = wasm_memory_guard_size_bytes,
          rt_wasm_guard_before_linear_memory = wasm_guard_before_linear_memory,
          rt_wasm_parallel_compilation = wasm_parallel_compilation,
          rt_http_worker_count = http_worker_count,
          rt_http_worker_queue_capacity = http_worker_queue_capacity,
          rt_http_queue_memory_budget_bytes = http_queue_memory_budget_bytes,
          rt_manager_control_read_timeout_ms = manager_control_read_timeout_ms,
          rt_max_concurrent_sessions = max_concurrent_sessions,
          rt_deploy_stream_timeout_secs = deploy_stream_timeout_secs,
          rt_transport_keepalive_interval_secs = transport_keepalive_interval_secs,
          rt_transport_max_idle_timeout_secs = transport_max_idle_timeout_secs,
          rt_boot_plugin_gc_enabled = boot_plugin_gc_enabled,
          rt_boot_restore_enabled = boot_restore_enabled, rt_features = features\<rparr> }"

text \<open>The document is a table; \<open>$schema\<close> is an optional string of its own, and the other keys are
  the fields of the configuration.\<close>

definition de_ImagodConfig :: "Build \<Rightarrow> TomlLib \<Rightarrow> toml_table \<Rightarrow> ImagodConfig option" where
  "de_ImagodConfig build lib t = do {
     listen_addr \<leftarrow> opt_field t ''listen_addr'' (de_string lib) default_listen_addr;
     control_socket_path \<leftarrow> opt_field t ''control_socket_path'' (de_string lib) DEFAULT_CONTROL_SOCKET_PATH;
     tls \<leftarrow> req_field t ''tls'' (de_TlsConfig lib);
     storage_root \<leftarrow> opt_field t ''storage_root'' (de_string lib) (default_storage_root build);
     runtime \<leftarrow> opt_field t ''runtime'' (de_RuntimeConfig lib) default_RuntimeConfig;
     server_version \<leftarrow> opt_field t ''server_version'' (de_string lib) (default_server_version build);
     Some \<lparr>cfg_listen_addr = listen_addr, cfg_control_socket_path = control_socket_path, cfg_tls = tls,
          cfg_storage_root = storage_root, cfg_runtime = runtime, cfg_server_version = server_version\<rparr> }"

definition de_ImagodTomlDocument :: "Build \<Rightarrow> TomlLib \<Rightarrow> toml_value \<Rightarrow> ImagodConfig option" where
  "de_ImagodTomlDocument build lib v = do {
     t \<leftarrow> de_map lib v;
     schema \<leftarrow> opt_field t ''$schema'' (map_option Some \<circ> de_string lib) None;
     de_ImagodConfig build lib t }"

definition parse :: "TomlLib \<Rightarrow> string \<Rightarrow> string \<Rightarrow> toml_value result" where
  "parse lib path content =
     map_err (\<lambda>e. with_detail (bad_request ''config.load'' (''config parse failed: '' @ e)) ''path'' path)
       (from_str lib content)"

definition decode :: "Build \<Rightarrow> TomlLib \<Rightarrow> string \<Rightarrow> toml_value \<Rightarrow> ImagodConfig result" where
  "decode build lib path raw =
     (case de_ImagodTomlDocument build lib raw of
        Some config \<Rightarrow> Inr config
      | None \<Rightarrow> Inl (with_detail (bad_request ''config.load'' (''config decode failed: '' @ decode_text lib raw)) ''path'' path))"

section \<open>Validation\<close>

definition reject_if :: "bool \<Rightarrow> string \<Rightarrow> unit result" where
  "reject_if bad message = (if bad then Inl (bad_request ''config.load'' message) else Inr ())"

fun parse_unique_loop :: "string \<Rightarrow> nat \<Rightarrow> bytes list \<Rightarrow> string list \<Rightarrow> bytes list result" where
  "parse_unique_loop fld i seen [] = Inr seen"
| "parse_unique_loop fld i seen (key_hex # rest) =
     and_then (map_err (\<lambda>reason. with_detail (bad_request ''config.load''
         (fld @ ''['' @ decimal i @ ''] '' @ reason)) ''index'' (decimal i))
       (parse_ed25519_raw_public_key_hex key_hex)) (\<lambda>decoded.
     if decoded \<in> set seen then
       Inl (with_detail (bad_request ''config.load'' (fld @ ''['' @ decimal i @ ''] is duplicated''))
         ''index'' (decimal i))
     else parse_unique_loop fld (i + 1) (decoded # seen) rest)"

text \<open>The set of decoded keys is the list of its elements.\<close>

definition parse_unique_public_key_hexes :: "string list \<Rightarrow> string \<Rightarrow> bytes list result" where
  "parse_unique_public_key_hexes key_hexes fld = parse_unique_loop fld 0 [] key_hexes"

fun parse_known_public_key_map :: "(string, string) btree \<Rightarrow> unit result" where
  "parse_known_public_key_map [] = Inr ()"
| "parse_known_public_key_map ((authority, key_hex) # entries) =
     (let trimmed = trim authority in
      if trimmed = [] then Inl (bad_request ''config.load'' ''tls.known_public_keys authority must not be empty'')
      else
        and_then (map_err (\<lambda>reason. with_detail (bad_request ''config.load''
            (''tls.known_public_keys[''@ [CHR 0x27] @ trimmed @ [CHR 0x27] @ ''] '' @ reason)) ''authority'' trimmed)
          (parse_ed25519_raw_public_key_hex key_hex)) (\<lambda>_.
        parse_known_public_key_map entries))"

fun join_names :: "string list \<Rightarrow> string" where
  "join_names [] = []"
| "join_names [n] = n"
| "join_names (n # ns) = n @ '', '' @ join_names ns"

fun features_loop :: "nat \<Rightarrow> string list \<Rightarrow> unit result" where
  "features_loop i [] = Inr ()"
| "features_loop i (package_name # rest) =
     (if is_builtin_native_plugin_package_name package_name then features_loop (i + 1) rest
      else Inl (with_detail (with_detail (bad_request ''config.load''
        (''runtime.features['' @ decimal i @ ''] must be one of: '' @
         join_names (map bd_package_name BUILTIN_NATIVE_PLUGIN_DESCRIPTORS) @
         '' (got '' @ [CHR 0x27] @ package_name @ [CHR 0x27] @ '')''))
        ''index'' (decimal i)) ''value'' package_name))"

fun validate_runtime_features :: "RuntimeFeatures \<Rightarrow> unit result" where
  "validate_runtime_features (Enabled _) = Inr ()"
| "validate_runtime_features (Packages package_names) = features_loop 0 package_names"

fun first_error :: "unit result list \<Rightarrow> unit result" where
  "first_error [] = Inr ()"
| "first_error (r # rs) = and_then r (\<lambda>_. first_error rs)"

definition validate :: "ImagodConfig \<Rightarrow> unit result" where
  "validate config = (let runtime = cfg_runtime config; tls = cfg_tls config in
     first_error
       [reject_if (cfg_control_socket_path config = []) ''control_socket_path must not be empty'',
        reject_if (\<not> is_absolute (cfg_control_socket_path config))
          (''control_socket_path must be an absolute path: '' @ cfg_control_socket_path config),
        and_then (parse_unique_public_key_hexes (tls_client_public_keys tls) ''tls.client_public_keys'') (\<lambda>_. Inr ()),
        parse_known_public_key_map (tls_known_public_keys tls),
        validate_runtime_features (rt_features runtime),
        reject_if (rt_stop_grace_timeout_secs runtime = 0) ''runtime.stop_grace_timeout_secs must be greater than 0'',
        reject_if (rt_epoch_tick_interval_ms runtime = 0) ''runtime.epoch_tick_interval_ms must be greater than 0'',
        reject_if (rt_wasm_memory_reservation_bytes runtime = 0)
          ''runtime.wasm_memory_reservation_bytes must be greater than 0'',
        reject_if (rt_wasm_memory_reservation_for_growth_bytes runtime = 0)
          ''runtime.wasm_memory_reservation_for_growth_bytes must be greater than 0'',
        reject_if (rt_runner_ready_timeout_secs runtime = 0) ''runtime.runner_ready_timeout_secs must be greater than 0'',
        reject_if (rt_runner_log_buffer_bytes runtime = 0) ''runtime.runner_log_buffer_bytes must be greater than 0'',
        reject_if (rt_retained_logs_capacity_bytes runtime = 0) ''runtime.retained_logs_capacity_bytes must be greater than 0'',
        reject_if (rt_committed_session_ttl_secs runtime = 0) ''runtime.committed_session_ttl_secs must be greater than 0'',
        reject_if (rt_max_committed_sessions runtime = 0) ''runtime.max_committed_sessions must be greater than 0'',
        reject_if (\<not> (1 \<le> rt_http_worker_count runtime \<and> rt_http_worker_count runtime \<le> 4))
          ''runtime.http_worker_count must be between 1 and 4'',
        reject_if (\<not> (1 \<le> rt_http_worker_queue_capacity runtime \<and> rt_http_worker_queue_capacity runtime \<le> 16))
          ''runtime.http_worker_queue_capacity must be between 1 and 16'',
        reject_if (rt_http_queue_memory_budget_bytes runtime = 0
            \<or> rt_http_queue_memory_budget_bytes runtime > MAX_HTTP_QUEUE_MEMORY_BUDGET_BYTES)
          (''runtime.http_queue_memory_budget_bytes must be in range 1..='' @
           decimal (unat MAX_HTTP_QUEUE_MEMORY_BUDGET_BYTES)),
        reject_if (rt_manager_control_read_timeout_ms runtime = 0)
          ''runtime.manager_control_read_timeout_ms must be greater than 0'',
        reject_if (rt_max_concurrent_sessions runtime = 0) ''runtime.max_concurrent_sessions must be greater than 0'',
        reject_if (rt_deploy_stream_timeout_secs runtime = 0) ''runtime.deploy_stream_timeout_secs must be greater than 0'',
        reject_if (rt_transport_keepalive_interval_secs runtime = 0)
          ''runtime.transport_keepalive_interval_secs must be greater than 0'',
        reject_if (rt_transport_max_idle_timeout_secs runtime = 0)
          ''runtime.transport_max_idle_timeout_secs must be greater than 0'',
        reject_if (rt_transport_keepalive_interval_secs runtime \<ge> rt_transport_max_idle_timeout_secs runtime)
          ''runtime.transport_keepalive_interval_secs must be less than runtime.transport_max_idle_timeout_secs'',
        reject_if (rt_max_artifact_size_bytes runtime = 0) ''runtime.max_artifact_size_bytes must be greater than 0'',
        reject_if (rt_chunk_size runtime = 0) ''runtime.chunk_size must be greater than 0'',
        reject_if (rt_chunk_size runtime > MAX_CHUNK_SIZE_BYTES)
          (''runtime.chunk_size must be less than or equal to '' @ decimal MAX_CHUNK_SIZE_BYTES),
        reject_if (rt_max_inflight_chunks runtime = 0) ''runtime.max_inflight_chunks must be greater than 0''])"

section \<open>Files\<close>

type_synonym files = "string \<Rightarrow> string option"

datatype ErrorKind = ErrNotFound | ErrAlreadyExists | ErrOther

text \<open>
  The outcomes of the operating system's calls. \<open>io_write\<close> and \<open>io_key_write\<close> give, for a call
  that fails, what it left in the file.
\<close>

record ConfigIo =
  io_read :: "string \<Rightarrow> string option"
  io_missing :: "string"
  io_stat :: "string \<Rightarrow> (ErrorKind \<times> string) + bool"
  io_create_dir_all :: "string \<Rightarrow> string option"
  io_canonicalize :: "string \<Rightarrow> string + string"
  io_generate_key :: "string + string"
  io_key_write :: "(ErrorKind \<times> string \<times> string option) option"
  io_nanos :: nat
  io_create :: "string option"
  io_write :: "(string \<times> string) option"
  io_sync :: "string option"
  io_rename :: "string option"

definition read_file :: "ConfigIo \<Rightarrow> files \<Rightarrow> string \<Rightarrow> string + string" where
  "read_file io files path =
     (case io_read io path of
        Some e \<Rightarrow> Inl e
      | None \<Rightarrow> (case files path of None \<Rightarrow> Inl (io_missing io) | Some content \<Rightarrow> Inr content))"

definition read_to_string :: "ConfigIo \<Rightarrow> files \<Rightarrow> string \<Rightarrow> string result" where
  "read_to_string io files path =
     map_err (\<lambda>e. with_detail (bad_request ''config.load'' (''config read failed: '' @ e)) ''path'' path)
       (read_file io files path)"

definition load :: "Build \<Rightarrow> TomlLib \<Rightarrow> ConfigIo \<Rightarrow> files \<Rightarrow> string \<Rightarrow> ImagodConfig result" where
  "load build lib io files path =
     and_then (read_to_string io files path) (\<lambda>content.
     and_then (parse lib path content) (\<lambda>raw.
     and_then (decode build lib path raw) (\<lambda>config.
     and_then (validate config) (\<lambda>_. Inr config))))"

definition resolve_config_path :: "string option \<Rightarrow> string option \<Rightarrow> string" where
  "resolve_config_path cli_path imagod_config =
     (case cli_path of
        Some path \<Rightarrow> path
      | None \<Rightarrow> (case imagod_config of Some path \<Rightarrow> path | None \<Rightarrow> DEFAULT_CONFIG_PATH))"

definition config_parent_dir :: "string \<Rightarrow> string" where
  "config_parent_dir config_path =
     (case path_parent config_path of
        Some parent \<Rightarrow> if parent \<noteq> [] then parent else ''.''
      | None \<Rightarrow> ''.'')"

section \<open>Writing the file\<close>

definition temp_path :: "ConfigIo \<Rightarrow> string \<Rightarrow> string" where
  "temp_path io config_path =
     path_join (config_parent_dir config_path)
       (''.'' @ (case path_file_name config_path of Some name \<Rightarrow> name | None \<Rightarrow> ''imagod.toml'') @
        ''.tmp-'' @ decimal (io_nanos io))"

text \<open>Creating the file truncates it; renaming moves the contents to the new path.\<close>

definition write_toml_body_atomic :: "ConfigIo \<Rightarrow> files \<Rightarrow> string \<Rightarrow> string \<Rightarrow> string \<Rightarrow> unit result \<times> files" where
  "write_toml_body_atomic io files config_path body stage =
     (let parent = config_parent_dir config_path; tmp = temp_path io config_path;
          failed = (\<lambda>what path e. Inl (new_error Internal stage (''failed to '' @ what @ '' '' @ path @ '': '' @ e))) in
      case io_create_dir_all io parent of
        Some e \<Rightarrow> (failed ''create parent dir'' parent e, files)
      | None \<Rightarrow>
      case io_create io of
        Some e \<Rightarrow> (failed ''create temp file'' tmp e, files)
      | None \<Rightarrow>
      case io_write io of
        Some (e, left) \<Rightarrow> (failed ''write temp file'' tmp e, files(tmp \<mapsto> left))
      | None \<Rightarrow>
      case io_sync io of
        Some e \<Rightarrow> (failed ''flush temp file'' tmp e, files(tmp \<mapsto> body))
      | None \<Rightarrow>
      case io_rename io of
        Some e \<Rightarrow> (failed ''atomically replace'' (config_path @ '' with '' @ tmp) e, files(tmp \<mapsto> body))
      | None \<Rightarrow> (Inr (), files(tmp := None, config_path \<mapsto> body)))"

definition write_toml_root_atomic :: "TomlLib \<Rightarrow> ConfigIo \<Rightarrow> files \<Rightarrow> string \<Rightarrow> toml_table \<Rightarrow> unit result \<times> files" where
  "write_toml_root_atomic lib io files config_path root =
     (case to_string_pretty lib root of
        Inl e \<Rightarrow> (Inl (new_error Internal ''config.update'' (''failed to serialize config: '' @ e)), files)
      | Inr body \<Rightarrow> write_toml_body_atomic io files config_path body ''config.update'')"

section \<open>Updating the key lists\<close>

definition config_update_error :: "string \<Rightarrow> ImagodError" where
  "config_update_error message = bad_request ''config.update'' message"

definition load_toml_root :: "TomlLib \<Rightarrow> ConfigIo \<Rightarrow> files \<Rightarrow> string \<Rightarrow> toml_table result" where
  "load_toml_root lib io files config_path =
     and_then (map_err (\<lambda>e. new_error Internal ''config.update'' (''failed to read '' @ config_path @ '': '' @ e))
       (read_file io files config_path)) (\<lambda>body.
     and_then (map_err (\<lambda>e. config_update_error (''failed to parse '' @ config_path @ '': '' @ e))
       (from_str lib body)) (\<lambda>parsed.
     case parsed of TTable root \<Rightarrow> Inr root | _ \<Rightarrow> Inl (config_update_error ''root must be a table'')))"

text \<open>\<open>contains_key\<close>/\<open>insert\<close> followed by \<open>get_mut\<close>: the value of a key that is added if absent.\<close>

definition get_or_insert :: "toml_table \<Rightarrow> string \<Rightarrow> toml_value \<Rightarrow> toml_value" where
  "get_or_insert table key def = (case bt_get table key of Some v \<Rightarrow> v | None \<Rightarrow> def)"

definition ensure_tls_table_mut :: "toml_table \<Rightarrow> toml_table result" where
  "ensure_tls_table_mut root =
     (case get_or_insert root ''tls'' (TTable []) of
        TTable tls \<Rightarrow> Inr tls
      | _ \<Rightarrow> Inl (config_update_error ''tls must be a table''))"

fun normalized_keys :: "nat \<Rightarrow> toml_value list \<Rightarrow> string list result" where
  "normalized_keys i [] = Inr []"
| "normalized_keys i (TString text # vs) =
     and_then (normalized_keys (i + 1) vs) (\<lambda>rest. Inr (to_ascii_lowercase text # rest))"
| "normalized_keys i (v # vs) =
     Inl (config_update_error (''tls.client_public_keys['' @ decimal i @ ''] must be a string''))"

definition upsert_client_public_key_value :: "toml_table \<Rightarrow> string \<Rightarrow> toml_table result" where
  "upsert_client_public_key_value tls key_hex =
     (case get_or_insert tls ''client_public_keys'' (TArray []) of
        TArray array \<Rightarrow>
          and_then (normalized_keys 0 array) (\<lambda>normalized.
          let normalized' = (if key_hex \<in> set normalized then normalized else normalized @ [key_hex]) in
          Inr (bt_insert ''client_public_keys'' (TArray (map TString normalized')) tls))
      | _ \<Rightarrow> Inl (config_update_error ''tls.client_public_keys must be an array''))"

fun is_toml_string :: "toml_value \<Rightarrow> bool" where
  "is_toml_string (TString _) = True"
| "is_toml_string _ = False"

definition upsert_known_public_key_value :: "toml_table \<Rightarrow> string \<Rightarrow> string \<Rightarrow> toml_table result" where
  "upsert_known_public_key_value tls authority key_hex =
     (case get_or_insert tls ''known_public_keys'' (TTable []) of
        TTable entries \<Rightarrow>
          (case find (\<lambda>(_, v). \<not> is_toml_string v) entries of
             Some (existing, _) \<Rightarrow>
               Inl (config_update_error (''tls.known_public_keys['' @ [CHR 0x27] @ existing @ [CHR 0x27] @ ''] must be a string''))
           | None \<Rightarrow> Inr (bt_insert ''known_public_keys'' (TTable (bt_insert authority (TString key_hex) entries)) tls))
      | _ \<Rightarrow> Inl (config_update_error ''tls.known_public_keys must be a table''))"

text \<open>The checks both updates start with; the result is the trimmed authority.\<close>

definition check_key_update :: "string \<Rightarrow> string \<Rightarrow> string result" where
  "check_key_update authority public_key_hex =
     (let authority = trim authority in
      if authority = [] then Inl (config_update_error ''authority must not be empty'')
      else and_then (map_err (\<lambda>reason. config_update_error (''public key is invalid: '' @ reason))
        (parse_ed25519_raw_public_key_hex public_key_hex)) (\<lambda>_. Inr authority))"

text \<open>The file is written and then loaded; \<open>io'\<close> are the outcomes of that second access.\<close>

definition write_and_reload ::
    "Build \<Rightarrow> TomlLib \<Rightarrow> ConfigIo \<Rightarrow> ConfigIo \<Rightarrow> files \<Rightarrow> string \<Rightarrow> toml_table result \<Rightarrow> unit result \<times> files" where
  "write_and_reload build lib io io' files config_path updated =
     (case updated of
        Inl e \<Rightarrow> (Inl e, files)
      | Inr root \<Rightarrow> (case write_toml_root_atomic lib io files config_path root of
          (Inl e, files') \<Rightarrow> (Inl e, files')
        | (Inr _, files') \<Rightarrow> (and_then (load build lib io' files' config_path) (\<lambda>_. Inr ()), files')))"

definition upsert_tls_known_client_key ::
    "Build \<Rightarrow> TomlLib \<Rightarrow> ConfigIo \<Rightarrow> ConfigIo \<Rightarrow> files \<Rightarrow> string \<Rightarrow> string \<Rightarrow> string \<Rightarrow> unit result \<times> files" where
  "upsert_tls_known_client_key build lib io io' files config_path authority public_key_hex =
     write_and_reload build lib io io' files config_path
       (and_then (check_key_update authority public_key_hex) (\<lambda>authority.
        and_then (load_toml_root lib io files config_path) (\<lambda>root.
        and_then (ensure_tls_table_mut root) (\<lambda>tls.
        let key_lower = to_ascii_lowercase public_key_hex in
        and_then (upsert_client_public_key_value tls key_lower) (\<lambda>tls.
        and_then (upsert_known_public_key_value tls authority key_lower) (\<lambda>tls.
        Inr (bt_insert ''tls'' (TTable tls) root)))))))"

definition upsert_tls_known_public_key ::
    "Build \<Rightarrow> TomlLib \<Rightarrow> ConfigIo \<Rightarrow> ConfigIo \<Rightarrow> files \<Rightarrow> string \<Rightarrow> string \<Rightarrow> string \<Rightarrow> unit result \<times> files" where
  "upsert_tls_known_public_key build lib io io' files config_path authority public_key_hex =
     write_and_reload build lib io io' files config_path
       (and_then (check_key_update authority public_key_hex) (\<lambda>authority.
        and_then (load_toml_root lib io files config_path) (\<lambda>root.
        and_then (ensure_tls_table_mut root) (\<lambda>tls.
        and_then (upsert_known_public_key_value tls authority (to_ascii_lowercase public_key_hex)) (\<lambda>tls.
        Inr (bt_insert ''tls'' (TTable tls) root))))))"

section \<open>First boot\<close>

definition config_init_error :: "string \<Rightarrow> string \<Rightarrow> ImagodError" where
  "config_init_error config_path message =
     with_detail (new_error Internal ''config.init'' message) ''path'' config_path"

definition ensure_default_config_dir :: "ConfigIo \<Rightarrow> string \<Rightarrow> string result" where
  "ensure_default_config_dir io config_path =
     (let config_dir = config_parent_dir config_path in
      case io_create_dir_all io config_dir of
        Some e \<Rightarrow> Inl (config_init_error config_path (''failed to create config dir '' @ config_dir @ '': '' @ e))
      | None \<Rightarrow>
          map_err (\<lambda>e. config_init_error config_path (''failed to canonicalize config dir '' @ config_dir @ '': '' @ e))
            (io_canonicalize io config_dir))"

definition resolve_generated_control_socket_path :: "ConfigIo \<Rightarrow> string \<Rightarrow> string result" where
  "resolve_generated_control_socket_path io config_path =
     (if path_components config_path = path_components DEFAULT_CONFIG_PATH then Inr DEFAULT_CONTROL_SOCKET_PATH
      else and_then (ensure_default_config_dir io config_path)
        (\<lambda>dir. Inr (path_join dir DEFAULT_CONTROL_SOCKET_FILENAME)))"

text \<open>\<open>write_private_key_create_new\<close> fails if the file exists.\<close>

definition create_default_server_key_file :: "ConfigIo \<Rightarrow> files \<Rightarrow> string \<Rightarrow> string \<Rightarrow> unit result \<times> files" where
  "create_default_server_key_file io files server_key_path config_path =
     (case io_generate_key io of
        Inl e \<Rightarrow> (Inl (config_init_error config_path (''failed to generate default server key: '' @ e)), files)
      | Inr pem \<Rightarrow> (case io_key_write io of
          None \<Rightarrow> (Inr (), files(server_key_path \<mapsto> pem))
        | Some (ErrAlreadyExists, _, _) \<Rightarrow> (Inr (), files)
        | Some (_, e, left) \<Rightarrow>
            (Inl (config_init_error config_path (''failed to write server key '' @ server_key_path @ '': '' @ e)),
             (case left of None \<Rightarrow> files | Some content \<Rightarrow> files(server_key_path \<mapsto> content)))))"

definition ensure_default_server_key :: "ConfigIo \<Rightarrow> files \<Rightarrow> string \<Rightarrow> string result \<times> files" where
  "ensure_default_server_key io files config_path =
     (case ensure_default_config_dir io config_path of
        Inl e \<Rightarrow> (Inl e, files)
      | Inr config_dir \<Rightarrow>
          (let server_key_path = path_join config_dir DEFAULT_SERVER_KEY_FILENAME in
           case io_stat io server_key_path of
             Inr is_dir \<Rightarrow>
               if is_dir then
                 (Inl (config_init_error config_path (''server key path points to a directory: '' @ server_key_path)), files)
               else (Inr server_key_path, files)
           | Inl (ErrNotFound, _) \<Rightarrow>
               (case create_default_server_key_file io files server_key_path config_path of
                  (Inl e, files') \<Rightarrow> (Inl e, files')
                | (Inr _, files') \<Rightarrow> (Inr server_key_path, files'))
           | Inl (_, e) \<Rightarrow>
               (Inl (config_init_error config_path (''failed to inspect server key path '' @ server_key_path @ '': '' @ e)), files)))"

definition default_config_table :: "Build \<Rightarrow> string \<Rightarrow> string \<Rightarrow> toml_table" where
  "default_config_table build control_socket_path server_key_path =
     fold (\<lambda>(k, v). bt_insert k v)
       [(''$schema'', TString IMAGOD_SCHEMA_URL),
        (''listen_addr'', TString default_listen_addr),
        (''control_socket_path'', TString control_socket_path),
        (''server_version'', TString (default_server_version build)),
        (''tls'', TTable (fold (\<lambda>(k, v). bt_insert k v)
           [(''server_key'', TString server_key_path), (''client_public_keys'', TArray [])] []))] []"

definition write_default_config_atomic :: "Build \<Rightarrow> TomlLib \<Rightarrow> ConfigIo \<Rightarrow> files \<Rightarrow> string \<Rightarrow> unit result \<times> files" where
  "write_default_config_atomic build lib io files config_path =
     (case ensure_default_server_key io files config_path of
        (Inl e, files') \<Rightarrow> (Inl e, files')
      | (Inr server_key_path, files') \<Rightarrow>
      (case resolve_generated_control_socket_path io config_path of
        Inl e \<Rightarrow> (Inl e, files')
      | Inr control_socket_path \<Rightarrow>
      (case to_string_pretty lib (default_config_table build control_socket_path server_key_path) of
        Inl e \<Rightarrow> (Inl (config_init_error config_path (''failed to serialize default config '' @ config_path @ '': '' @ e)), files')
      | Inr toml_body \<Rightarrow>
          (case write_toml_body_atomic io files' config_path (AUTOCREATED_CONFIG_COMMENTS @ newline @ toml_body) ''config.init'' of
             (r, files'') \<Rightarrow>
               (map_err (\<lambda>err. config_init_error config_path
                  (''failed to create default config '' @ config_path @ '': '' @ err_message err)) r, files'')))))"

record LoadOrCreateResult =
  lc_config :: ImagodConfig
  lc_created_default :: bool

text \<open>The text \<open>display\<close> of an error is the one derived by \<open>thiserror\<close>; the name of its code is
  given by \<open>code_name\<close>.\<close>

definition load_or_create_default ::
    "(ErrorCode \<Rightarrow> string) \<Rightarrow> Build \<Rightarrow> TomlLib \<Rightarrow> ConfigIo \<Rightarrow> files \<Rightarrow> string \<Rightarrow> LoadOrCreateResult result \<times> files" where
  "load_or_create_default code_name build lib io files path =
     (case io_stat io path of
        Inr _ \<Rightarrow>
          (and_then (load build lib io files path)
             (\<lambda>config. Inr \<lparr>lc_config = config, lc_created_default = False\<rparr>), files)
      | Inl (ErrNotFound, _) \<Rightarrow>
          (case write_default_config_atomic build lib io files path of
             (Inl e, files') \<Rightarrow> (Inl e, files')
           | (Inr _, files') \<Rightarrow>
               (and_then (map_err (\<lambda>load_err. config_init_error path
                    (''failed to reload generated default config '' @ path @ '': '' @
                     code_name (err_code load_err) @ '' at '' @ err_stage load_err @ '': '' @ err_message load_err))
                  (load build lib io files' path))
                  (\<lambda>config. Inr \<lparr>lc_config = config, lc_created_default = True\<rparr>), files'))
      | Inl (_, e) \<Rightarrow> (Inl (config_init_error path (''failed to stat config '' @ path @ '': '' @ e)), files))"

section \<open>What validation accepts\<close>

lemma reject_if_ok [simp]: "reject_if bad message = Inr u \<longleftrightarrow> \<not> bad"
  by (simp add: reject_if_def)

lemma first_error_ok: "first_error rs = Inr u \<longleftrightarrow> (\<forall>r \<in> set rs. r = Inr ())"
  by (induction rs) auto

text \<open>The text of a list of keys is accepted, and the keys it denotes.\<close>

definition valid_key :: "string \<Rightarrow> bool" where
  "valid_key s = is_ok (parse_ed25519_raw_public_key_hex s)"

definition key_of :: "string \<Rightarrow> bytes" where
  "key_of s = projr (parse_ed25519_raw_public_key_hex s)"

lemma valid_key_iff: "valid_key s \<longleftrightarrow> parse_ed25519_raw_public_key_hex s = Inr (key_of s)"
  by (auto simp: valid_key_def key_of_def is_ok_iff)

lemma parse_unique_loop_ok:
  "parse_unique_loop fld i seen ss = Inr ks \<longleftrightarrow>
     list_all valid_key ss \<and> distinct (map key_of ss) \<and> set seen \<inter> set (map key_of ss) = {} \<and>
     ks = rev (map key_of ss) @ seen"
proof (induction ss arbitrary: i seen)
  case (Cons s ss)
  show ?case
  proof (cases "parse_ed25519_raw_public_key_hex s")
    case (Inl e)
    then show ?thesis by (simp add: valid_key_def)
  next
    case (Inr k)
    then show ?thesis using Cons by (auto simp: valid_key_def key_of_def)
  qed
qed auto

lemma parse_unique_ok:
  "parse_unique_public_key_hexes ss fld = Inr ks \<longleftrightarrow>
     list_all valid_key ss \<and> distinct (map key_of ss) \<and> ks = rev (map key_of ss)"
  by (auto simp: parse_unique_public_key_hexes_def parse_unique_loop_ok)

lemma parse_known_ok:
  "parse_known_public_key_map entries = Inr u \<longleftrightarrow> list_all (\<lambda>(a, s). trim a \<noteq> [] \<and> valid_key s) entries"
  by (induction entries rule: parse_known_public_key_map.induct)
    (auto simp: Let_def valid_key_def is_ok_iff)

lemma features_ok:
  "validate_runtime_features features = Inr u \<longleftrightarrow>
     (case features of Enabled _ \<Rightarrow> True | Packages names \<Rightarrow> list_all is_builtin_native_plugin_package_name names)"
proof -
  have "features_loop i names = Inr u \<longleftrightarrow> list_all is_builtin_native_plugin_package_name names" for i names
    by (induction i names rule: features_loop.induct) auto
  then show ?thesis by (cases features) simp_all
qed

definition runtime_limits_ok :: "RuntimeConfig \<Rightarrow> bool" where
  "runtime_limits_ok r \<longleftrightarrow>
     0 < rt_stop_grace_timeout_secs r \<and> 0 < rt_epoch_tick_interval_ms r \<and>
     0 < rt_wasm_memory_reservation_bytes r \<and> 0 < rt_wasm_memory_reservation_for_growth_bytes r \<and>
     0 < rt_runner_ready_timeout_secs r \<and> 0 < rt_runner_log_buffer_bytes r \<and>
     0 < rt_retained_logs_capacity_bytes r \<and> 0 < rt_committed_session_ttl_secs r \<and>
     0 < rt_max_committed_sessions r \<and> rt_http_worker_count r \<in> {1..4} \<and>
     rt_http_worker_queue_capacity r \<in> {1..16} \<and>
     0 < rt_http_queue_memory_budget_bytes r \<and> rt_http_queue_memory_budget_bytes r \<le> 67108864 \<and>
     0 < rt_manager_control_read_timeout_ms r \<and> 0 < rt_max_concurrent_sessions r \<and>
     0 < rt_deploy_stream_timeout_secs r \<and> 0 < rt_transport_keepalive_interval_secs r \<and>
     rt_transport_keepalive_interval_secs r < rt_transport_max_idle_timeout_secs r \<and>
     0 < rt_max_artifact_size_bytes r \<and> rt_chunk_size r \<in> {1..8388608} \<and> 0 < rt_max_inflight_chunks r"

definition tls_ok :: "TlsConfig \<Rightarrow> bool" where
  "tls_ok tls \<longleftrightarrow>
     list_all valid_key (tls_client_public_keys tls) \<and> distinct (map key_of (tls_client_public_keys tls)) \<and>
     list_all (\<lambda>(a, s). trim a \<noteq> [] \<and> valid_key s) (tls_known_public_keys tls)"

lemma validate_ok:
  "validate config = Inr u \<longleftrightarrow>
     is_absolute (cfg_control_socket_path config) \<and> tls_ok (cfg_tls config) \<and>
     is_ok (validate_runtime_features (rt_features (cfg_runtime config))) \<and> runtime_limits_ok (cfg_runtime config)"
proof -
  have keys: "and_then (parse_unique_public_key_hexes ss fld) (\<lambda>_. Inr ()) = Inr () \<longleftrightarrow>
      list_all valid_key ss \<and> distinct (map key_of ss)" for ss fld
    by (simp add: parse_unique_ok)
  have features: "validate_runtime_features f = Inr () \<longleftrightarrow> is_ok (validate_runtime_features f)" for f
    by (simp add: is_ok_iff)
  have one_le: "1 \<le> w \<longleftrightarrow> w \<noteq> 0" for w :: u32
    by (simp add: word_le_nat_alt Suc_le_eq unat_gt_0)
  show ?thesis
    unfolding validate_def Let_def first_error_ok runtime_limits_ok_def tls_ok_def
    by (simp only: list.set ball_simps keys parse_known_ok features reject_if_ok)
      (auto simp: is_absolute_def word_gt_0 MAX_HTTP_QUEUE_MEMORY_BUDGET_BYTES_def MAX_CHUNK_SIZE_BYTES_def
        one_le not_le not_less)
qed

section \<open>The temporary file is another file\<close>

lemma digits_plain: "c \<in> set (decimal n) \<Longrightarrow> c \<noteq> slash \<and> c \<noteq> CHR ''.''"
  using decimal_digits [of c n] by auto

lemma file_name_no_slash: "path_file_name path = Some name \<Longrightarrow> slash \<notin> set name"
  by (auto simp: path_file_name_def Let_def split: if_splits dest: set_takeWhileD)

lemma file_name_of:
  assumes "slash \<notin> set name" "name \<noteq> []" "List.last name \<noteq> CHR ''.''" "front = [] \<or> List.last front = slash"
  shows "path_file_name (front @ name) = Some name"
proof -
  obtain r c where name: "name = r @ [c]" using assms(2) by (cases name rule: rev_cases) auto
  have c: "c \<noteq> slash" "c \<noteq> CHR ''.''" using assms(1,3) by (auto simp: name)
  have "strip_end (c # x) = c # x" for x using c by (cases x) auto
  then have "strip_end (rev (front @ name)) = rev name @ rev front" by (simp add: name)
  moreover have "takeWhile (\<lambda>c. c \<noteq> slash) (rev name @ rev front) = rev name"
    using assms(1,4) by (cases front rule: rev_cases) (auto simp: takeWhile_append)
  moreover have "name \<notin> {'''', ''.'', ''..''}" using assms(2,3) by auto
  ultimately show ?thesis by (simp add: path_file_name_def)
qed

lemma temp_path_other: "temp_path io config_path \<noteq> config_path"
proof
  assume same: "temp_path io config_path = config_path"
  define name where "name = (case path_file_name config_path of Some n \<Rightarrow> n | None \<Rightarrow> ''imagod.toml'')"
  define full where "full = ''.'' @ name @ ''.tmp-'' @ decimal (io_nanos io)"
  have "slash \<notin> set name" by (auto simp: name_def dest: file_name_no_slash split: option.splits)
  then have full: "slash \<notin> set full" "full \<noteq> []" "List.last full \<noteq> CHR ''.''" "\<not> is_absolute full"
    using digits_plain [of _ "io_nanos io"] by (auto simp: full_def is_absolute_def)
  obtain front where "config_path = front @ full" "front = [] \<or> List.last front = slash"
  proof -
    have "config_path = path_join (config_parent_dir config_path) full"
      using same by (simp add: temp_path_def full_def name_def)
    then show thesis
      using that [of "[]"] that [of "config_parent_dir config_path"] that [of "config_parent_dir config_path @ [slash]"] full(4)
      by (auto simp: path_join_def split: if_splits)
  qed
  then have "path_file_name config_path = Some full" using file_name_of [OF full(1-3)] by simp
  then have "name = full" by (simp add: name_def)
  then have "length name = length full" by simp
  then show False by (simp add: full_def)
qed

text \<open>The file at the configured path is replaced as a whole or not at all.\<close>

lemma write_atomic:
  "write_toml_body_atomic io files path body stage = (r, files') \<Longrightarrow>
     (r = Inr () \<and> files' path = Some body) \<or> (\<not> is_ok r \<and> files' path = files path)"
  using temp_path_other [of io path]
  by (auto simp: write_toml_body_atomic_def Let_def split: option.splits)

lemma write_atomic_ok:
  "io_create_dir_all io (config_parent_dir path) = None \<Longrightarrow> io_create io = None \<Longrightarrow> io_write io = None \<Longrightarrow>
   io_sync io = None \<Longrightarrow> io_rename io = None \<Longrightarrow>
   write_toml_body_atomic io files path body stage = (Inr (), files(temp_path io path := None, path \<mapsto> body))"
  by (simp add: write_toml_body_atomic_def Let_def)

section \<open>The update of the key lists\<close>

text \<open>A list of strings and a table of strings as TOML values.\<close>

definition string_table :: "(string, string) btree \<Rightarrow> toml_table" where
  "string_table m = map (\<lambda>(k, s). (k, TString s)) m"

lemma de_each_strings: "toml_conversions lib \<Longrightarrow> de_each (de_string lib) (map TString ss) = Some ss"
  by (induction ss) (simp_all add: toml_conversions_def)

lemma de_strings_array: "toml_conversions lib \<Longrightarrow> de_strings lib (TArray (map TString ss)) = Some ss"
  by (simp add: de_strings_def de_each_strings) (simp add: toml_conversions_def de_each_strings)

lemma de_string_map_table: "toml_conversions lib \<Longrightarrow> de_string_map lib (TTable (string_table m)) = Some m"
proof -
  assume lib: "toml_conversions lib"
  then have "de_each (\<lambda>(k, x). do { s \<leftarrow> de_string lib x; Some (k, s) }) (string_table m) = Some m"
    by (induction m) (auto simp: string_table_def toml_conversions_def)
  then show ?thesis using lib by (simp add: de_string_map_def toml_conversions_def)
qed

lemma string_table_insert: "bt_insert k (TString s) (string_table m) = string_table (bt_insert k s m)"
  by (induction m) (auto simp: string_table_def)

lemma normalized_keys_strings: "normalized_keys i (map TString ss) = Inr (map to_ascii_lowercase ss)"
  by (induction ss arbitrary: i) simp_all

text \<open>The allowlist after a key is added: the texts in lower case, the new one once.\<close>

definition add_key :: "string \<Rightarrow> string list \<Rightarrow> string list" where
  "add_key key ss = (let normalized = map to_ascii_lowercase ss in if key \<in> set normalized then normalized else normalized @ [key])"

lemma upsert_client_strings:
  assumes "bt_get tls ''client_public_keys'' = Some (TArray (map TString ss))"
  shows "upsert_client_public_key_value tls key =
    Inr (bt_insert ''client_public_keys'' (TArray (map TString (add_key key ss))) tls)"
  using assms by (simp add: upsert_client_public_key_value_def get_or_insert_def normalized_keys_strings add_key_def Let_def)

lemma upsert_known_strings:
  assumes "get_or_insert tls ''known_public_keys'' (TTable []) = TTable (string_table m)"
  shows "upsert_known_public_key_value tls authority key =
    Inr (bt_insert ''known_public_keys'' (TTable (string_table (bt_insert authority key m))) tls)"
proof -
  have "find (\<lambda>(_, v). \<not> is_toml_string v) (string_table m) = None"
    by (auto simp: find_None_iff string_table_def)
  then show ?thesis
    by (simp add: upsert_known_public_key_value_def assms string_table_insert)
qed

lemma valid_key_lower [simp]: "valid_key (to_ascii_lowercase s) = valid_key s"
  by (simp add: valid_key_def)

lemma key_of_lower [simp]: "key_of (to_ascii_lowercase s) = key_of s"
  by (simp add: key_of_def)

lemma lower_eq_iff: "valid_key s \<Longrightarrow> valid_key t \<Longrightarrow> to_ascii_lowercase s = to_ascii_lowercase t \<longleftrightarrow> key_of s = key_of t"
  by (metis same_key_iff valid_key_iff)

lemma add_key_keys:
  assumes "list_all valid_key ss" "distinct (map key_of ss)" "valid_key key"
  shows "list_all valid_key (add_key (to_ascii_lowercase key) ss)"
    and "distinct (map key_of (add_key (to_ascii_lowercase key) ss))"
    and "set (map key_of (add_key (to_ascii_lowercase key) ss)) = insert (key_of key) (set (map key_of ss))"
proof -
  have "to_ascii_lowercase key \<in> set (map to_ascii_lowercase ss) \<longleftrightarrow> key_of key \<in> set (map key_of ss)"
    using assms lower_eq_iff [of key] by (fastforce simp: list_all_iff)
  moreover have "key_of \<circ> to_ascii_lowercase = key_of" by (simp add: fun_eq_iff)
  ultimately show "list_all valid_key (add_key (to_ascii_lowercase key) ss)"
    "distinct (map key_of (add_key (to_ascii_lowercase key) ss))"
    "set (map key_of (add_key (to_ascii_lowercase key) ss)) = insert (key_of key) (set (map key_of ss))"
    using assms by (auto simp: add_key_def Let_def list_all_iff image_image)
qed

text \<open>Decoding a document whose key lists were replaced.\<close>

lemma de_TlsConfig_update:
  assumes "toml_conversions lib" and "de_TlsConfig lib (TTable tls) = Some c"
  shows "de_TlsConfig lib (TTable (bt_insert ''known_public_keys'' (TTable (string_table m))
      (bt_insert ''client_public_keys'' (TArray (map TString ss)) tls))) =
    Some (c\<lparr>tls_client_public_keys := ss, tls_known_public_keys := m\<rparr>)"
proof -
  have "de_map lib (TTable t) = Some t" for t using assms(1) by (simp add: toml_conversions_def)
  then show ?thesis
    using assms by (auto simp: de_TlsConfig_def req_field_def opt_field_def btree_simps de_strings_array
        de_string_map_table split: bind_splits)
qed

lemma de_document_update:
  assumes "toml_conversions lib" and "de_ImagodTomlDocument build lib (TTable root) = Some config"
    and "de_TlsConfig lib (TTable tls) = Some c"
  shows "de_ImagodTomlDocument build lib (TTable (bt_insert ''tls'' (TTable tls) root)) = Some (config\<lparr>cfg_tls := c\<rparr>)"
proof -
  have "de_map lib (TTable t) = Some t" for t using assms(1) by (simp add: toml_conversions_def)
  then show ?thesis
    using assms(2,3) by (auto simp: de_ImagodTomlDocument_def de_ImagodConfig_def req_field_def opt_field_def
        btree_simps split: bind_splits)
qed

lemma set_bt_insert: "set (bt_insert k v m) \<subseteq> insert (k, v) (set m)"
  by (induction m) (auto split: if_splits)

lemma de_TlsConfig_lists:
  assumes "toml_conversions lib" and "de_TlsConfig lib (TTable tls) = Some c"
    and "bt_get tls ''client_public_keys'' = Some (TArray (map TString ss))"
    and "get_or_insert tls ''known_public_keys'' (TTable []) = TTable (string_table m)"
  shows "tls_client_public_keys c = ss \<and> tls_known_public_keys c = m"
  using assms(2-) de_strings_array [OF assms(1)] de_string_map_table [OF assms(1)] assms(1)
  by (auto simp: toml_conversions_def de_TlsConfig_def req_field_def opt_field_def get_or_insert_def string_table_def
      split: bind_splits option.splits)

lemma add_known_ok:
  assumes "list_all (\<lambda>(a, s). trim a \<noteq> [] \<and> valid_key s) m" and "trim a \<noteq> []" and "valid_key s"
  shows "list_all (\<lambda>(a, s). trim a \<noteq> [] \<and> valid_key s) (bt_insert a s m)"
  using assms set_bt_insert [of a s m] by (fastforce simp: list_all_iff)

text \<open>The calls of the operating system that a write and a read of the file need succeed.\<close>

definition io_works :: "ConfigIo \<Rightarrow> string \<Rightarrow> bool" where
  "io_works io path \<longleftrightarrow>
     io_read io path = None \<and> io_create_dir_all io (config_parent_dir path) = None \<and> io_create io = None \<and>
     io_write io = None \<and> io_sync io = None \<and> io_rename io = None"

lemma load_ok:
  assumes "io_read io path = None" and "files path = Some body" and "from_str lib body = Inr raw"
  shows "load build lib io files path = Inr config \<longleftrightarrow>
    de_ImagodTomlDocument build lib raw = Some config \<and> validate config = Inr ()"
  using assms
  by (auto simp: load_def read_to_string_def read_file_def parse_def decode_def split: option.splits)

lemma write_and_reload_ok:
  assumes "io_works io path" and "to_string_pretty lib root = Inr body"
  shows "write_and_reload build lib io io' files path (Inr root) =
    (and_then (load build lib io' (files(temp_path io path := None, path \<mapsto> body)) path) (\<lambda>_. Inr ()),
     files(temp_path io path := None, path \<mapsto> body))"
  using assms write_atomic_ok [of io path files body "''config.update''"]
  by (simp add: write_and_reload_def write_toml_root_atomic_def io_works_def)

text \<open>The document with a key added to both lists.\<close>

definition with_client_key :: "string \<Rightarrow> string \<Rightarrow> string list \<Rightarrow> (string, string) btree \<Rightarrow> toml_table \<Rightarrow> toml_table \<Rightarrow> toml_table" where
  "with_client_key authority key ss m tls root =
     bt_insert ''tls'' (TTable (bt_insert ''known_public_keys'' (TTable (string_table (bt_insert authority key m)))
       (bt_insert ''client_public_keys'' (TArray (map TString (add_key key ss))) tls))) root"

lemma upsert_client_key_writes:
  assumes "io_works io path" and "files path = Some body" and "from_str lib body = Inr (TTable root)"
    and "bt_get root ''tls'' = Some (TTable tls)"
    and "bt_get tls ''client_public_keys'' = Some (TArray (map TString ss))"
    and "get_or_insert tls ''known_public_keys'' (TTable []) = TTable (string_table m)"
    and "trim authority \<noteq> []" and "parse_ed25519_raw_public_key_hex key = Inr k"
  shows "upsert_tls_known_client_key build lib io io' files path authority key =
    write_and_reload build lib io io' files path
      (Inr (with_client_key (trim authority) (to_ascii_lowercase key) ss m tls root))"
proof -
  have "and_then (check_key_update authority key) f = f (trim authority)" for f :: "string \<Rightarrow> toml_table result"
    using assms(7,8) by (simp add: check_key_update_def Let_def)
  moreover have "load_toml_root lib io files path = Inr root"
    using assms(1-3) by (simp add: load_toml_root_def read_file_def io_works_def)
  moreover have "ensure_tls_table_mut root = Inr tls" using assms(4) by (simp add: ensure_tls_table_mut_def get_or_insert_def)
  moreover have "get_or_insert (bt_insert ''client_public_keys'' v tls) ''known_public_keys'' (TTable []) = TTable (string_table m)" for v
    using assms(6) by (simp add: get_or_insert_def btree_simps)
  ultimately show ?thesis
    by (simp add: upsert_tls_known_client_key_def upsert_client_strings [OF assms(5)] upsert_known_strings
        with_client_key_def Let_def)
qed

lemma with_client_key_decodes:
  assumes "toml_conversions lib" and "de_ImagodTomlDocument build lib (TTable root) = Some config"
    and "bt_get root ''tls'' = Some (TTable tls)"
    and "bt_get tls ''client_public_keys'' = Some (TArray (map TString ss))"
    and "get_or_insert tls ''known_public_keys'' (TTable []) = TTable (string_table m)"
  shows "tls_client_public_keys (cfg_tls config) = ss \<and> tls_known_public_keys (cfg_tls config) = m \<and>
    de_ImagodTomlDocument build lib (TTable (with_client_key authority key ss m tls root)) =
      Some (config\<lparr>cfg_tls := (cfg_tls config)\<lparr>tls_client_public_keys := add_key key ss,
        tls_known_public_keys := bt_insert authority key m\<rparr>\<rparr>)"
proof -
  have conv: "de_map lib (TTable t) = Some t" for t using assms(1) by (simp add: toml_conversions_def)
  have tls: "de_TlsConfig lib (TTable tls) = Some (cfg_tls config)"
    using assms(2,3) conv
    by (auto simp: de_ImagodTomlDocument_def de_ImagodConfig_def req_field_def split: bind_splits)
  then show ?thesis
    using de_TlsConfig_lists [OF assms(1) tls assms(4,5)]
      de_document_update [OF assms(1,2) de_TlsConfig_update [OF assms(1) tls]]
    by (simp add: with_client_key_def)
qed

lemma with_client_key_valid:
  assumes "validate config = Inr ()" and "trim authority \<noteq> []" and "valid_key key"
    and "tls_client_public_keys (cfg_tls config) = ss" and "tls_known_public_keys (cfg_tls config) = m"
  shows "validate (config\<lparr>cfg_tls := (cfg_tls config)\<lparr>tls_client_public_keys := add_key (to_ascii_lowercase key) ss,
        tls_known_public_keys := bt_insert authority (to_ascii_lowercase key) m\<rparr>\<rparr>) = Inr ()"
  using assms add_key_keys [of ss key] add_known_ok [of m authority "to_ascii_lowercase key"]
  by (simp add: validate_ok tls_ok_def)

lemma write_and_reload_atomic:
  assumes "write_and_reload build lib io io' files path updated = (r, files')"
  shows "(files' path = files path \<or> (\<exists>root body. to_string_pretty lib root = Inr body \<and> files' path = Some body)) \<and>
    (is_ok r \<longrightarrow> is_ok (load build lib io' files' path)) \<and>
    (\<not> is_ok r \<longrightarrow> files' path = files path \<or> \<not> is_ok (load build lib io' files' path))"
proof (cases updated)
  case (Inl e)
  then show ?thesis using assms by (auto simp: write_and_reload_def)
next
  case (Inr root)
  show ?thesis
  proof (cases "to_string_pretty lib root")
    case (Inl e)
    then show ?thesis using assms Inr by (auto simp: write_and_reload_def write_toml_root_atomic_def)
  next
    case body: (Inr body)
    obtain w files'' where w: "write_toml_body_atomic io files path body ''config.update'' = (w, files'')" by force
    then show ?thesis
      using assms Inr body write_atomic [OF w]
      by (cases w) (auto simp: write_and_reload_def write_toml_root_atomic_def is_ok_and_then is_ok_iff)
  qed
qed

lemma default_config_decodes:
  assumes "toml_conversions lib"
  shows "de_ImagodTomlDocument build lib (TTable (default_config_table build socket key)) =
    Some \<lparr>cfg_listen_addr = ''[::]:4443'', cfg_control_socket_path = socket,
      cfg_tls = \<lparr>tls_server_key = key, tls_client_public_keys = [], tls_known_public_keys = []\<rparr>,
      cfg_storage_root = default_storage_root build, cfg_runtime = default_RuntimeConfig,
      cfg_server_version = default_server_version build\<rparr>"
proof -
  have "de_map lib (TTable t) = Some t" "de_string lib (TString s) = Some s" for t s
    using assms by (simp_all add: toml_conversions_def)
  moreover have "de_strings lib (TArray []) = Some []"
    using de_strings_array [OF assms, of "[]"] by simp
  ultimately show ?thesis
    by (simp add: default_config_table_def de_ImagodTomlDocument_def de_ImagodConfig_def de_TlsConfig_def
        req_field_def opt_field_def btree_simps default_listen_addr_def)
qed

lemma default_config_valid:
  "is_absolute socket \<Longrightarrow> validate \<lparr>cfg_listen_addr = addr, cfg_control_socket_path = socket,
      cfg_tls = \<lparr>tls_server_key = key, tls_client_public_keys = [], tls_known_public_keys = []\<rparr>,
      cfg_storage_root = storage, cfg_runtime = default_RuntimeConfig, cfg_server_version = version\<rparr> = Inr ()"
  by (simp add: validate_ok tls_ok_def runtime_limits_ok_def default_RuntimeConfig_def)

lemma upsert_client_key_effect:
  assumes "toml_conversions lib" and "toml_round_trip lib" and "\<forall>table. is_ok (to_string_pretty lib table)"
    and "io_works io path" and "io_read io' path = None"
    and "files path = Some body" and "from_str lib body = Inr (TTable root)"
    and "bt_get root ''tls'' = Some (TTable tls)"
    and "bt_get tls ''client_public_keys'' = Some (TArray (map TString ss))"
    and "get_or_insert tls ''known_public_keys'' (TTable []) = TTable (string_table m)"
    and "load build lib io files path = Inr config"
    and "trim authority \<noteq> []" and "parse_ed25519_raw_public_key_hex key = Inr k"
  shows "\<exists>files' keys. upsert_tls_known_client_key build lib io io' files path authority key = (Inr (), files') \<and>
    load build lib io' files' path = Inr (config\<lparr>cfg_tls := (cfg_tls config)\<lparr>tls_client_public_keys := keys,
      tls_known_public_keys := bt_insert (trim authority) (encode_hex k) (tls_known_public_keys (cfg_tls config))\<rparr>\<rparr>) \<and>
    list_all valid_key keys \<and> distinct (map key_of keys) \<and>
    set (map key_of keys) = insert k (set (map key_of (tls_client_public_keys (cfg_tls config))))"
proof -
  let ?root = "with_client_key (trim authority) (to_ascii_lowercase key) ss m tls root"
  obtain body' where body': "to_string_pretty lib ?root = Inr body'" using assms(3) by (auto simp: is_ok_iff)
  let ?files = "files(temp_path io path := None, path \<mapsto> body')"
  have "io_read io path = None" using assms(4) by (simp add: io_works_def)
  from load_ok [of io path files body, OF this assms(6,7)] assms(11)
  have doc: "de_ImagodTomlDocument build lib (TTable root) = Some config" "validate config = Inr ()" by simp_all
  note new = with_client_key_decodes [OF assms(1) doc(1) assms(8-10)]
  have key: "valid_key key" "key_of key = k" "encode_hex k = to_ascii_lowercase key"
    using assms(13) parse_key_Inr [OF assms(13)] by (simp_all add: valid_key_def key_of_def)
  have ok: "list_all valid_key ss" "distinct (map key_of ss)"
    using doc(2) new by (simp_all add: validate_ok tls_ok_def)
  have "from_str lib body' = Inr (TTable ?root)" using assms(2) body' by (auto simp: toml_round_trip_def)
  then have load: "load build lib io' ?files path = Inr (config\<lparr>cfg_tls := (cfg_tls config)\<lparr>
      tls_client_public_keys := add_key (to_ascii_lowercase key) ss,
      tls_known_public_keys := bt_insert (trim authority) (to_ascii_lowercase key) m\<rparr>\<rparr>)"
    using load_ok [of io' path ?files body'] assms(5,12) new
      with_client_key_valid [OF doc(2) _ key(1), of "trim authority" ss m] by simp
  then have "upsert_tls_known_client_key build lib io io' files path authority key = (Inr (), ?files)"
    using upsert_client_key_writes [of io path files, OF assms(4,6-10,12,13)] write_and_reload_ok [OF assms(4) body', of build io' files]
    by simp
  then show ?thesis using load add_key_keys [OF ok key(1)] key new by auto
qed

section \<open>Properties\<close>

text \<open>
  An uploaded client key takes effect and nothing else changes. On a configuration file that
  loads, adding a valid key for a non-blank authority succeeds; the file then loads with the same
  settings, except that the allowlist denotes the earlier keys and the new one, each once, and the
  authority's known key is the new one. So the daemon accepts the file at its next start.
\<close>

theorem uploaded_key_takes_effect:
  assumes "toml_conversions lib" and "toml_round_trip lib" and "\<forall>table. is_ok (to_string_pretty lib table)"
    and "io_works io path" and "io_read io' path = None"
    and "files path = Some body" and "from_str lib body = Inr (TTable root)"
    and "bt_get root ''tls'' = Some (TTable tls)"
    and "bt_get tls ''client_public_keys'' = Some (TArray (map TString ss))"
    and "get_or_insert tls ''known_public_keys'' (TTable []) = TTable (string_table m)"
    and "load build lib io files path = Inr config"
    and "trim authority \<noteq> []" and "parse_ed25519_raw_public_key_hex key = Inr k"
  shows "\<exists>files' keys. upsert_tls_known_client_key build lib io io' files path authority key = (Inr (), files') \<and>
    load build lib io' files' path = Inr (config\<lparr>cfg_tls := (cfg_tls config)\<lparr>tls_client_public_keys := keys,
      tls_known_public_keys := bt_insert (trim authority) (encode_hex k) (tls_known_public_keys (cfg_tls config))\<rparr>\<rparr>) \<and>
    list_all valid_key keys \<and> distinct (map key_of keys) \<and>
    set (map key_of keys) = insert k (set (map key_of (tls_client_public_keys (cfg_tls config))))"
  by (rule upsert_client_key_effect [OF assms])

text \<open>
  C39: the configuration file is replaced as a whole. Whatever call fails, after either update the
  file holds what it held before or the complete text of a document; the update is reported as
  done only if the daemon could start with the file as it is then, and an error leaves the old
  file in place unless the new one does not load.
\<close>

theorem config_update_atomic:
  assumes "update \<in> {upsert_tls_known_client_key build lib io io', upsert_tls_known_public_key build lib io io'}"
    and "update files path authority key = (r, files')"
  shows "(files' path = files path \<or> (\<exists>root body. to_string_pretty lib root = Inr body \<and> files' path = Some body)) \<and>
    (is_ok r \<longrightarrow> is_ok (load build lib io' files' path)) \<and>
    (\<not> is_ok r \<longrightarrow> files' path = files path \<or> \<not> is_ok (load build lib io' files' path))"
proof -
  obtain updated where "write_and_reload build lib io io' files path updated = (r, files')"
    using assms by (auto simp: upsert_tls_known_client_key_def upsert_tls_known_public_key_def)
  then show ?thesis by (rule write_and_reload_atomic)
qed

text \<open>
  C40: the first boot produces a configuration the daemon accepts, and later boots leave it alone.
  When no file exists, the directory can be created and the calls succeed, the daemon writes a
  file that loads to the documented defaults, with the server key and the control socket in the
  directory of the file (or the system's socket for the system's path) and no client allowed;
  the next boot loads the same settings and writes nothing.
\<close>

theorem first_boot_config:
  assumes "toml_conversions lib" and "toml_round_trip lib" and "\<forall>table. is_ok (to_string_pretty lib table)"
    and "io_works io path" and "io_stat io path = Inl (ErrNotFound, e)"
    and "io_canonicalize io (config_parent_dir path) = Inr dir" and "is_absolute dir"
    and "io_stat io (path_join dir DEFAULT_SERVER_KEY_FILENAME) = Inl (ErrNotFound, e')"
    and "io_generate_key io = Inr pem" and "io_key_write io = None"
    and "io_read io' path = None" and "io_stat io' path = Inr False"
  shows "\<exists>config files'. load_or_create_default code_name build lib io files path =
      (Inr \<lparr>lc_config = config, lc_created_default = True\<rparr>, files') \<and>
    config = \<lparr>cfg_listen_addr = ''[::]:4443'',
      cfg_control_socket_path =
        (if path_components path = path_components ''/etc/imago/imagod.toml'' then ''/run/imago/imagod.sock''
         else path_join dir ''imagod.sock''),
      cfg_tls = \<lparr>tls_server_key = path_join dir ''server.key'', tls_client_public_keys = [], tls_known_public_keys = []\<rparr>,
      cfg_storage_root = default_storage_root build, cfg_runtime = default_RuntimeConfig,
      cfg_server_version = default_server_version build\<rparr> \<and>
    load_or_create_default code_name build lib io' files' path =
      (Inr \<lparr>lc_config = config, lc_created_default = False\<rparr>, files')"
proof -
  define socket where "socket = (if path_components path = path_components ''/etc/imago/imagod.toml''
    then ''/run/imago/imagod.sock'' else path_join dir ''imagod.sock'')"
  define key where "key = path_join dir ''server.key''"
  let ?table = "default_config_table build socket key"
  obtain body where body: "to_string_pretty lib ?table = Inr body" using assms(3) by (auto simp: is_ok_iff)
  let ?body = "AUTOCREATED_CONFIG_COMMENTS @ newline @ body"
  let ?files = "files(key \<mapsto> pem, temp_path io path := None, path \<mapsto> ?body)"
  let ?config = "\<lparr>cfg_listen_addr = ''[::]:4443'', cfg_control_socket_path = socket,
    cfg_tls = \<lparr>tls_server_key = key, tls_client_public_keys = [], tls_known_public_keys = []\<rparr>,
    cfg_storage_root = default_storage_root build, cfg_runtime = default_RuntimeConfig,
    cfg_server_version = default_server_version build\<rparr>"
  have dir: "ensure_default_config_dir io path = Inr dir"
    using assms(4,6) by (simp add: ensure_default_config_dir_def io_works_def)
  have key: "ensure_default_server_key io files path = (Inr key, files(key \<mapsto> pem))"
    using assms(8-10) dir by (simp add: ensure_default_server_key_def create_default_server_key_file_def key_def
        DEFAULT_SERVER_KEY_FILENAME_def Let_def)
  have socket: "resolve_generated_control_socket_path io path = Inr socket"
    using dir by (simp add: resolve_generated_control_socket_path_def socket_def DEFAULT_CONFIG_PATH_def
        DEFAULT_CONTROL_SOCKET_PATH_def DEFAULT_CONTROL_SOCKET_FILENAME_def)
  have "is_absolute socket"
    using assms(7) path_join_absolute by (simp add: socket_def is_absolute_def)
  then have "validate ?config = Inr ()" by (simp add: default_config_valid)
  moreover have "from_str lib ?body = Inr (TTable ?table)" using assms(2) body by (auto simp: toml_round_trip_def)
  ultimately have load: "load build lib i ?files path = Inr ?config" if "io_read i path = None" for i
    using load_ok [of i path ?files ?body] that default_config_decodes [OF assms(1), of build socket key] by simp
  have written: "write_default_config_atomic build lib io files path = (Inr (), ?files)"
    using write_atomic_ok [of io path "files(key \<mapsto> pem)" ?body "''config.init''"] assms(4) key socket body
    by (simp add: write_default_config_atomic_def io_works_def)
  have "io_read io path = None" using assms(4) by (simp add: io_works_def)
  then show ?thesis
    using written load assms(5,11,12) by (simp add: load_or_create_default_def flip: socket_def key_def)
qed

text \<open>A library that prints a table as a number, and a file system with an empty allowlist.\<close>

instance toml_value :: countable
  by countable_datatype

definition example_lib :: TomlLib where
  "example_lib =
     \<lparr>from_str = (\<lambda>s. Inr (TTable (from_nat (parse_decimal
          (let c = AUTOCREATED_CONFIG_COMMENTS @ newline in if take (length c) s = c then drop (length c) s else s))))),
      to_string_pretty = (\<lambda>t. Inr (decimal (to_nat t))),
      de_string = (\<lambda>v. case v of TString s \<Rightarrow> Some s | _ \<Rightarrow> None),
      de_bool = (\<lambda>v. case v of TBoolean b \<Rightarrow> Some b | _ \<Rightarrow> None),
      de_usize = (\<lambda>v. case v of TInteger i \<Rightarrow> if 0 \<le> sint i then Some (unat i) else None | _ \<Rightarrow> None),
      de_u32 = (\<lambda>v. case v of TInteger i \<Rightarrow> if 0 \<le> sint i \<and> sint i < 2 ^ 32 then Some (ucast i) else None | _ \<Rightarrow> None),
      de_u64 = (\<lambda>v. case v of TInteger i \<Rightarrow> if 0 \<le> sint i then Some i else None | _ \<Rightarrow> None),
      de_seq = (\<lambda>v. case v of TArray vs \<Rightarrow> Some vs | _ \<Rightarrow> None),
      de_map = (\<lambda>v. case v of TTable t \<Rightarrow> Some t | _ \<Rightarrow> None),
      decode_text = (\<lambda>_. ''type mismatch'')\<rparr>"

definition example_build :: Build where
  "example_build = \<lparr>build_os = ''linux'', build_storage_root = None, build_version = ''0.9.2''\<rparr>"

definition example_io :: "(string \<Rightarrow> (ErrorKind \<times> string) + bool) \<Rightarrow> ConfigIo" where
  "example_io stat =
     \<lparr>io_read = (\<lambda>_. None), io_missing = ''missing'', io_stat = stat, io_create_dir_all = (\<lambda>_. None),
      io_canonicalize = (\<lambda>_. Inr ''/srv''), io_generate_key = Inr ''pem'', io_key_write = None, io_nanos = 7,
      io_create = None, io_write = None, io_sync = None, io_rename = None\<rparr>"

definition example_files :: files where
  "example_files = [''/srv/imagod.toml'' \<mapsto> decimal (to_nat (default_config_table example_build ''/srv/s'' ''/srv/k''))]"

lemma example_conversions: "toml_conversions example_lib"
  by (simp add: toml_conversions_def example_lib_def)

lemma example_round_trip: "toml_round_trip example_lib"
proof -
  have "take (length c) (decimal n) \<noteq> c" if "c = AUTOCREATED_CONFIG_COMMENTS @ newline" for c n
  proof
    assume "take (length c) (decimal n) = c"
    then have "set c \<subseteq> set (decimal n)" by (metis set_take_subset)
    moreover have "CHR ''#'' \<in> set c" by (simp add: that AUTOCREATED_CONFIG_COMMENTS_def)
    ultimately have "CHR ''#'' \<in> set (decimal n)" by blast
    then show False using decimal_digits [of "CHR ''#''" n] by simp
  qed
  then show ?thesis
    by (auto simp: toml_round_trip_def example_lib_def Let_def parse_decimal_decimal simp del: parse_decimal.simps)
qed

lemma example_prints: "is_ok (to_string_pretty example_lib table)"
  by (simp add: example_lib_def)

lemma example_io_works: "io_works (example_io stat) path" "io_read (example_io stat) path = None"
  by (simp_all add: io_works_def example_io_def)

lemma example_key: "parse_ed25519_raw_public_key_hex (encode_hex (replicate 32 17)) = Inr (replicate 32 17)"
  by (rule parse_encode) simp

definition example_config :: ImagodConfig where
  "example_config =
     \<lparr>cfg_listen_addr = ''[::]:4443'', cfg_control_socket_path = ''/srv/s'',
      cfg_tls = \<lparr>tls_server_key = ''/srv/k'', tls_client_public_keys = [], tls_known_public_keys = []\<rparr>,
      cfg_storage_root = default_storage_root example_build, cfg_runtime = default_RuntimeConfig,
      cfg_server_version = default_server_version example_build\<rparr>"

abbreviation example_root :: toml_table where
  "example_root \<equiv> default_config_table example_build ''/srv/s'' ''/srv/k''"

lemma example_load:
  "example_files ''/srv/imagod.toml'' = Some (decimal (to_nat example_root))"
  "from_str example_lib (decimal (to_nat example_root)) = Inr (TTable example_root)"
  "load example_build example_lib (example_io stat) example_files ''/srv/imagod.toml'' = Inr example_config"
proof -
  show contents: "example_files ''/srv/imagod.toml'' = Some (decimal (to_nat example_root))" by (simp add: example_files_def)
  have "to_string_pretty example_lib example_root = Inr (decimal (to_nat example_root))" by (simp add: example_lib_def)
  then show parsed: "from_str example_lib (decimal (to_nat example_root)) = Inr (TTable example_root)"
    using example_round_trip by (auto simp: toml_round_trip_def)
  have "validate example_config = Inr ()"
    unfolding example_config_def by (rule default_config_valid) (simp add: is_absolute_def)
  then show "load example_build example_lib (example_io stat) example_files ''/srv/imagod.toml'' = Inr example_config"
    using load_ok [where path = "''/srv/imagod.toml''" and files = example_files and build = example_build and config = example_config,
        OF example_io_works(2) contents parsed]
      default_config_decodes [OF example_conversions, of example_build "''/srv/s''" "''/srv/k''"]
    by (simp add: example_config_def)
qed

abbreviation example_tls_table :: toml_table where
  "example_tls_table \<equiv> [(''client_public_keys'', TArray (map TString [])), (''server_key'', TString ''/srv/k'')]"

lemma example_tls:
  "bt_get example_root ''tls'' = Some (TTable example_tls_table)"
  "bt_get example_tls_table ''client_public_keys'' = Some (TArray (map TString []))"
  "get_or_insert example_tls_table ''known_public_keys'' (TTable []) = TTable (string_table [])"
  by (simp_all add: default_config_table_def btree_simps get_or_insert_def string_table_def)

lemma example_authority: "trim ''rpc://node:4443'' \<noteq> []"
  by (subst trim_visible) simp_all

theorem uploaded_key_takes_effect_witness:
  "\<exists>files' keys. upsert_tls_known_client_key example_build example_lib (example_io (\<lambda>_. Inr False)) (example_io (\<lambda>_. Inr False))
     example_files ''/srv/imagod.toml'' ''rpc://node:4443'' (encode_hex (replicate 32 17)) = (Inr (), files') \<and>
     list_all valid_key keys \<and> set (map key_of keys) = {replicate 32 17}"
  using uploaded_key_takes_effect [OF example_conversions example_round_trip _ example_io_works(1) example_io_works(2) [of "\<lambda>_. Inr False"]
      example_load(1,2) example_tls example_load(3) example_authority example_key] example_prints
  by (fastforce simp: example_config_def)

theorem config_update_atomic_witness:
  "example_files ''/srv/imagod.toml'' = snd (upsert_tls_known_public_key example_build example_lib
     (example_io (\<lambda>_. Inr False)) (example_io (\<lambda>_. Inr False)) example_files ''/srv/imagod.toml'' '' '' ''00'') ''/srv/imagod.toml''"
proof -
  have "trim '' '' = []" by (simp add: trim_def strip_front.simps white_space_def)
  then have "check_key_update '' '' ''00'' = Inl (config_update_error ''authority must not be empty'')"
    by (simp add: check_key_update_def)
  then have run: "upsert_tls_known_public_key example_build example_lib (example_io (\<lambda>_. Inr False)) (example_io (\<lambda>_. Inr False))
      example_files ''/srv/imagod.toml'' '' '' ''00'' = (Inl (config_update_error ''authority must not be empty''), example_files)"
    by (simp add: upsert_tls_known_public_key_def write_and_reload_def)
  show ?thesis
    using config_update_atomic [where update = "upsert_tls_known_public_key example_build example_lib
        (example_io (\<lambda>_. Inr False)) (example_io (\<lambda>_. Inr False))", OF _ run] example_load
    by (auto simp: run is_ok_iff)
qed

theorem first_boot_config_witness:
  "\<exists>config files'. load_or_create_default (\<lambda>_. ''error'') example_build example_lib
      (example_io (\<lambda>_. Inl (ErrNotFound, ''missing''))) Map.empty ''/srv/imagod.toml'' =
      (Inr \<lparr>lc_config = config, lc_created_default = True\<rparr>, files') \<and>
    cfg_control_socket_path config = ''/srv/imagod.sock'' \<and> tls_client_public_keys (cfg_tls config) = []"
proof -
  let ?io = "example_io (\<lambda>_. Inl (ErrNotFound, ''missing''))"
  have abs: "is_absolute ''/srv''" by (simp add: is_absolute_def)
  have socket: "path_components ''/srv/imagod.toml'' \<noteq> path_components ''/etc/imago/imagod.toml''"
    "path_join ''/srv'' ''imagod.sock'' = ''/srv/imagod.sock''"
    by (simp_all add: path_components_def path_join_def is_absolute_def)
  have io: "io_stat ?io p = Inl (ErrNotFound, ''missing'')" "io_canonicalize ?io p = Inr ''/srv''"
    "io_generate_key ?io = Inr ''pem''" "io_key_write ?io = None" "io_stat (example_io (\<lambda>_. Inr False)) p = Inr False" for p
    by (simp_all add: example_io_def)
  show ?thesis
    using first_boot_config [where path = "''/srv/imagod.toml''" and code_name = "\<lambda>_. ''error''" and build = example_build and files = Map.empty,
        OF example_conversions example_round_trip _ example_io_works(1) io(1) io(2) abs io(1) io(3,4)
        example_io_works(2) io(5)]
      example_prints socket by auto
qed

end
