(* ===== verification/Access_Control.thy ===== *)
theory Access_Control
  imports Protocol_Messages Daemon_Config
begin

text \<open>
  Who may send what: the roles and the registry of client keys
  (\<^verbatim>\<open>imagod-server/src/protocol_handler.rs\<close>), how a session gets its role from the peer's
  certificate or from the credentials of the control socket, and the check of a request's type
  against the role (\<^verbatim>\<open>imagod-server/src/protocol_handler/session_loop.rs\<close>).
\<close>

section \<open>Roles and the registry of keys\<close>

datatype DynamicClientRole = Admin | Client | Unknown

text \<open>The set of keys is the list of its elements.\<close>

record DynamicPublicKeys =
  client_keys :: "bytes list"

definition STAGE_DYNAMIC_KEYS :: string where
  "STAGE_DYNAMIC_KEYS = ''protocol.keys''"

fun parse_configured_loop :: "string \<Rightarrow> nat \<Rightarrow> string list \<Rightarrow> bytes list \<Rightarrow> bytes list result" where
  "parse_configured_loop field_name i [] parsed = Inr parsed"
| "parse_configured_loop field_name i (key_hex # keys) parsed =
     and_then (map_err (\<lambda>reason. new_error Internal STAGE_DYNAMIC_KEYS
         (''invalid '' @ field_name @ ''['' @ decimal i @ '']: '' @ reason))
       (parse_ed25519_raw_public_key_hex key_hex)) (\<lambda>key.
     parse_configured_loop field_name (i + 1) keys (List.insert key parsed))"

definition parse_configured_public_keys :: "string list \<Rightarrow> string \<Rightarrow> bytes list result" where
  "parse_configured_public_keys keys field_name = parse_configured_loop field_name 0 keys []"

definition sync_dynamic_public_keys_from_config :: "ImagodConfig \<Rightarrow> DynamicPublicKeys \<Rightarrow> DynamicPublicKeys \<times> unit result" where
  "sync_dynamic_public_keys_from_config config keys =
     (case parse_configured_public_keys (tls_client_public_keys (cfg_tls config)) ''tls.client_public_keys'' of
        Inl e \<Rightarrow> (keys, Inl e)
      | Inr parsed \<Rightarrow> (\<lparr>client_keys = parsed\<rparr>, Inr ()))"

text \<open>The result tells whether the key is new.\<close>

definition upsert_dynamic_client_public_key :: "string \<Rightarrow> DynamicPublicKeys \<Rightarrow> DynamicPublicKeys \<times> bool result" where
  "upsert_dynamic_client_public_key public_key_hex keys =
     (case parse_ed25519_raw_public_key_hex public_key_hex of
        Inl reason \<Rightarrow>
          (keys, Inl (bad_request ''bindings.cert.upload'' (''public_key_hex is invalid: '' @ reason)))
      | Inr key \<Rightarrow>
          (keys\<lparr>client_keys := List.insert key (client_keys keys)\<rparr>, Inr (key \<notin> set (client_keys keys))))"

definition resolve_dynamic_client_role :: "DynamicPublicKeys \<Rightarrow> bytes \<Rightarrow> DynamicClientRole" where
  "resolve_dynamic_client_role keys public_key =
     (if public_key \<in> set (client_keys keys) then Client else Unknown)"

definition is_tls_client_key_allowlisted :: "DynamicPublicKeys \<Rightarrow> bytes \<Rightarrow> bool" where
  "is_tls_client_key_allowlisted keys public_key = (public_key \<in> set (client_keys keys))"

section \<open>The role of a session\<close>

record SessionAuthContext =
  sa_role :: DynamicClientRole
  sa_public_key_hex :: string

definition local_admin :: "string \<Rightarrow> SessionAuthContext" where
  "local_admin public_key_hex = \<lparr>sa_role = Admin, sa_public_key_hex = public_key_hex\<rparr>"

definition resolve_session_auth_context :: "DynamicPublicKeys \<Rightarrow> peer_identity \<Rightarrow> SessionAuthContext result" where
  "resolve_session_auth_context keys identity =
     and_then (extract_peer_public_key identity) (\<lambda>public_key.
     Inr \<lparr>sa_role = resolve_dynamic_client_role keys public_key, sa_public_key_hex = encode_hex public_key\<rparr>)"

definition authorize_local_uid :: "u32 \<Rightarrow> u32 \<Rightarrow> unit result" where
  "authorize_local_uid peer_uid daemon_euid =
     (if peer_uid = 0 \<or> peer_uid = daemon_euid then Inr ()
      else Inl (with_detail (with_detail
        (new_error Unauthorized ''session.auth'' ''local control socket peer uid is not authorized'')
        ''peer_uid'' (decimal (unat peer_uid))) ''daemon_euid'' (decimal (unat daemon_euid))))"

text \<open>\<open>peer_cred\<close> is the user id of the peer of the socket, or why it cannot be determined.\<close>

definition resolve_local_auth_context :: "string + u32 \<Rightarrow> u32 \<Rightarrow> SessionAuthContext result" where
  "resolve_local_auth_context peer_cred daemon_euid =
     and_then (map_err (\<lambda>err. new_error Unauthorized ''session.auth''
       (''failed to inspect local control socket peer credentials: '' @ err)) peer_cred) (\<lambda>peer_uid.
     and_then (authorize_local_uid peer_uid daemon_euid) (\<lambda>_.
     Inr (local_admin (''local-control-socket:'' @ decimal (unat peer_uid)))))"

section \<open>The check of a request\<close>

fun message_type_name :: "MessageType \<Rightarrow> string" where
  "message_type_name HelloNegotiate = ''hello.negotiate''"
| "message_type_name DeployPrepare = ''deploy.prepare''"
| "message_type_name ArtifactPush = ''artifact.push''"
| "message_type_name ArtifactCommit = ''artifact.commit''"
| "message_type_name CommandStart = ''command.start''"
| "message_type_name MT_CommandEvent = ''command.event''"
| "message_type_name MT_StateRequest = ''state.request''"
| "message_type_name MT_StateResponse = ''state.response''"
| "message_type_name ServicesList = ''services.list''"
| "message_type_name CommandCancel = ''command.cancel''"
| "message_type_name LogsRequest = ''logs.request''"
| "message_type_name LogsChunk = ''logs.chunk''"
| "message_type_name LogsEnd = ''logs.end''"
| "message_type_name RpcInvoke = ''rpc.invoke''"
| "message_type_name BindingsCertInspect = ''bindings.cert.inspect''"
| "message_type_name BindingsCertUpload = ''bindings.cert.upload''"

definition not_allowed :: "string \<Rightarrow> string \<Rightarrow> MessageType \<Rightarrow> SessionAuthContext \<Rightarrow> ImagodError" where
  "not_allowed message role message_type auth_context =
     with_detail (with_detail (with_detail (new_error Unauthorized ''session.authorize'' message)
       ''role'' role) ''message_type'' (message_type_name message_type))
       ''client_public_key'' (sa_public_key_hex auth_context)"

definition ensure_message_type_allowed :: "MessageType \<Rightarrow> SessionAuthContext \<Rightarrow> unit result" where
  "ensure_message_type_allowed message_type auth_context =
     (case sa_role auth_context of
        Admin \<Rightarrow> Inr ()
      | Client \<Rightarrow>
          if message_type = HelloNegotiate \<or> message_type = RpcInvoke then Inr ()
          else Inl (not_allowed (''message type '' @ message_type_name message_type @ '' is not allowed for client role'')
            ''client'' message_type auth_context)
      | Unknown \<Rightarrow>
          Inl (not_allowed ''client public key does not have an assigned role'' ''unknown'' message_type auth_context))"

section \<open>Lemmas\<close>

lemma parse_configured_loop_ok:
  "parse_configured_loop fld i ss parsed = Inr ks \<Longrightarrow>
     list_all valid_key ss \<and> set ks = set parsed \<union> key_of ` set ss"
proof (induction ss arbitrary: i parsed)
  case (Cons s ss)
  then show ?case
    by (cases "parse_ed25519_raw_public_key_hex s") (force simp: valid_key_def key_of_def)+
qed simp

lemma parse_configured_loop_valid:
  "list_all valid_key ss \<Longrightarrow> \<exists>ks. parse_configured_loop fld i ss parsed = Inr ks \<and> set ks = set parsed \<union> key_of ` set ss"
  by (induction ss arbitrary: i parsed) (force simp: valid_key_iff)+

lemma sync_loaded:
  assumes "tls_ok (cfg_tls config)"
  shows "\<exists>keys'. sync_dynamic_public_keys_from_config config keys = (keys', Inr ()) \<and>
    set (client_keys keys') = key_of ` set (tls_client_public_keys (cfg_tls config))"
  using parse_configured_loop_valid [of "tls_client_public_keys (cfg_tls config)" "''tls.client_public_keys''" 0 "[]"] assms
  by (auto simp: sync_dynamic_public_keys_from_config_def parse_configured_public_keys_def tls_ok_def)

text \<open>A session over the network is never an administrator; its key decides between the other roles.\<close>

lemma extract_peer_public_key_Inr:
  "extract_peer_public_key identity = Inr k \<longleftrightarrow>
     length k = 32 \<and> (\<exists>rest. identity = CertificateChain ((ED25519_SPKI_PREFIX @ k) # rest))"
proof (cases identity rule: extract_peer_public_key.cases)
  case (4 cert rest)
  have "length cert = length ED25519_SPKI_PREFIX + 32 \<and> take (length ED25519_SPKI_PREFIX) cert = ED25519_SPKI_PREFIX \<and>
      drop (length ED25519_SPKI_PREFIX) cert = k \<longleftrightarrow> length k = 32 \<and> cert = ED25519_SPKI_PREFIX @ k"
    using append_eq_conv_conj [of ED25519_SPKI_PREFIX k cert] by auto
  then show ?thesis by (auto simp: 4 extract_ed25519_public_key_def)
qed auto

lemma network_session_role:
  "resolve_session_auth_context keys identity = Inr auth \<longleftrightarrow>
     (\<exists>k. extract_peer_public_key identity = Inr k \<and>
        auth = \<lparr>sa_role = (if is_tls_client_key_allowlisted keys k then Client else Unknown), sa_public_key_hex = encode_hex k\<rparr>)"
  by (auto simp: resolve_session_auth_context_def resolve_dynamic_client_role_def is_tls_client_key_allowlisted_def)

lemma local_session_role:
  "resolve_local_auth_context peer_cred daemon_euid = Inr auth \<longleftrightarrow>
     (\<exists>uid. peer_cred = Inr uid \<and> (uid = 0 \<or> uid = daemon_euid) \<and>
        auth = local_admin (''local-control-socket:'' @ decimal (unat uid)))"
  by (auto simp: resolve_local_auth_context_def authorize_local_uid_def split: if_splits)

lemma allowed_iff:
  "is_ok (ensure_message_type_allowed mt auth) \<longleftrightarrow>
     sa_role auth = Admin \<or> (sa_role auth = Client \<and> mt \<in> {HelloNegotiate, RpcInvoke})"
  by (auto simp: ensure_message_type_allowed_def split: DynamicClientRole.splits)

end
