(* ===== verification/Operation_State.thy ===== *)
theory Operation_State
  imports Protocol_Messages
begin

text \<open>
  The operation manager (\<^verbatim>\<open>imagod-control/src/operation_state.rs\<close>): the table of command
  operations in flight, keyed by request id. Every method holds the lock for its whole body,
  so each is one function on the table; \<open>now\<close> is the clock reading in seconds.
\<close>

section \<open>State\<close>

datatype OperationPhase = Starting | Spawned

record OperationEntry =
  oe_state :: CommandState
  oe_stage :: string
  oe_updated_at :: string
  oe_cancel_requested :: bool
  oe_phase :: OperationPhase

type_synonym operations = "(uuid, OperationEntry) btree"

datatype SpawnTransition = TransitionSpawned | TransitionCanceled

fun is_terminal :: "CommandState \<Rightarrow> bool" where
  "is_terminal St_Succeeded = True"
| "is_terminal St_Failed = True"
| "is_terminal St_Canceled = True"
| "is_terminal _ = False"

definition now_unix_secs :: "u64 \<Rightarrow> string" where
  "now_unix_secs now = decimal (unat now)"

section \<open>Operations\<close>

definition not_running :: "string \<Rightarrow> ImagodError" where
  "not_running stage = new_error NotFound stage ''request_id is not running''"

definition op_start :: "u64 \<Rightarrow> uuid \<Rightarrow> operations \<Rightarrow> operations \<times> unit result" where
  "op_start now request_id inner =
     (if bt_contains inner request_id
      then (inner, Inl (new_error Busy ''command.start'' ''request_id is already running''))
      else (bt_insert request_id
              \<lparr>oe_state = St_Accepted, oe_stage = ''accepted'', oe_updated_at = now_unix_secs now,
               oe_cancel_requested = False, oe_phase = Starting\<rparr> inner, Inr ()))"

definition op_set_state ::
    "u64 \<Rightarrow> uuid \<Rightarrow> CommandState \<Rightarrow> string \<Rightarrow> operations \<Rightarrow> operations \<times> unit result" where
  "op_set_state now request_id state stage inner =
     (case bt_get inner request_id of
        None \<Rightarrow> (inner, Inl (not_running ''operation.state''))
      | Some entry \<Rightarrow>
          (bt_update request_id (\<lambda>e. e\<lparr>oe_state := state, oe_stage := stage,
             oe_updated_at := now_unix_secs now\<rparr>) inner, Inr ()))"

definition mark_spawned_if_not_canceled ::
    "u64 \<Rightarrow> uuid \<Rightarrow> string \<Rightarrow> operations \<Rightarrow> operations \<times> SpawnTransition result" where
  "mark_spawned_if_not_canceled now request_id stage inner =
     (case bt_get inner request_id of
        None \<Rightarrow> (inner, Inl (not_running ''operation.state''))
      | Some entry \<Rightarrow>
          if oe_cancel_requested entry
          then (bt_update request_id (\<lambda>e. e\<lparr>oe_stage := ''cancel-pending'',
                  oe_updated_at := now_unix_secs now, oe_phase := Spawned,
                  oe_cancel_requested := False\<rparr>) inner,
                Inr TransitionCanceled)
          else (bt_update request_id (\<lambda>e. e\<lparr>oe_phase := Spawned, oe_stage := stage,
                  oe_updated_at := now_unix_secs now\<rparr>) inner,
                Inr TransitionSpawned))"

definition snapshot_running :: "uuid \<Rightarrow> operations \<Rightarrow> StateResponse result" where
  "snapshot_running request_id inner =
     (case bt_get inner request_id of
        None \<Rightarrow> Inl (not_running ''state.request'')
      | Some entry \<Rightarrow>
          if is_terminal (oe_state entry) then Inl (not_running ''state.request'')
          else Inr \<lparr>srs_request_id = request_id, srs_state = oe_state entry,
                 srs_stage = oe_stage entry, srs_updated_at = oe_updated_at entry\<rparr>)"

definition request_cancel ::
    "u64 \<Rightarrow> uuid \<Rightarrow> operations \<Rightarrow> operations \<times> CommandCancelResponse result" where
  "request_cancel now request_id inner =
     (case bt_get inner request_id of
        None \<Rightarrow> (inner, Inl (not_running ''command.cancel''))
      | Some entry \<Rightarrow>
          if is_terminal (oe_state entry) then (inner, Inl (not_running ''command.cancel''))
          else if oe_phase entry = Spawned
          then (inner, Inr \<lparr>ccp_cancellable = False, ccp_final_state = oe_state entry\<rparr>)
          else (bt_update request_id (\<lambda>e. e\<lparr>oe_cancel_requested := True,
                  oe_updated_at := now_unix_secs now\<rparr>) inner,
                Inr \<lparr>ccp_cancellable = True, ccp_final_state = St_Canceled\<rparr>))"

definition op_finish ::
    "u64 \<Rightarrow> uuid \<Rightarrow> CommandState \<Rightarrow> string \<Rightarrow> operations \<Rightarrow> operations" where
  "op_finish now request_id state stage inner =
     bt_update request_id (\<lambda>e. e\<lparr>oe_state := state, oe_stage := stage,
       oe_updated_at := now_unix_secs now, oe_phase := Spawned, oe_cancel_requested := False\<rparr>) inner"

definition op_remove :: "uuid \<Rightarrow> operations \<Rightarrow> operations" where
  "op_remove request_id inner = bt_remove request_id inner"

section \<open>Well-formed tables\<close>

text \<open>
  Every entry has a non-blank stage and a numeric time, so that a state response built from
  it passes its validator, and a cancel can only be pending before the spawn.
\<close>

definition entry_ok :: "OperationEntry \<Rightarrow> bool" where
  "entry_ok e \<longleftrightarrow> \<not> trim_is_empty (oe_stage e) \<and> \<not> trim_is_empty (oe_updated_at e) \<and>
     (oe_cancel_requested e \<longrightarrow> oe_phase e = Starting)"

definition operations_ok :: "operations \<Rightarrow> bool" where
  "operations_ok ops \<longleftrightarrow> bt_wf ops \<and> (\<forall>i e. bt_get ops i = Some e \<longrightarrow> i \<noteq> 0 \<and> entry_ok e)"

lemma operations_ok_update:
  assumes "operations_ok ops" "\<And>e. bt_get ops i = Some e \<Longrightarrow> entry_ok e \<Longrightarrow> entry_ok (f e)"
  shows "operations_ok (bt_update i f ops)"
  using assms by (auto simp: operations_ok_def btree_simps bt_wf_update split: if_splits)

lemma blank_literals [simp]:
  "\<not> trim_is_empty ''accepted''" "\<not> trim_is_empty ''cancel-pending''" "\<not> trim_is_empty (now_unix_secs now)"
  by (simp_all add: now_unix_secs_def)

lemma op_start_ok:
  "operations_ok ops \<Longrightarrow> i \<noteq> 0 \<Longrightarrow> operations_ok (fst (op_start now i ops))"
  by (auto simp: op_start_def operations_ok_def btree_simps bt_wf_insert entry_ok_def split: if_splits)

lemma op_set_state_ok:
  "operations_ok ops \<Longrightarrow> \<not> trim_is_empty stage \<Longrightarrow> operations_ok (fst (op_set_state now i st stage ops))"
  by (auto simp: op_set_state_def entry_ok_def intro: operations_ok_update split: option.splits)

lemma mark_spawned_ok:
  "operations_ok ops \<Longrightarrow> \<not> trim_is_empty stage \<Longrightarrow>
     operations_ok (fst (mark_spawned_if_not_canceled now i stage ops))"
  by (auto simp: mark_spawned_if_not_canceled_def entry_ok_def intro!: operations_ok_update
      split: option.splits)

lemma request_cancel_ok: "operations_ok ops \<Longrightarrow> operations_ok (fst (request_cancel now i ops))"
  by (auto simp: request_cancel_def entry_ok_def intro!: operations_ok_update split: option.splits)
    (metis OperationPhase.exhaust)+

lemma op_finish_ok:
  "operations_ok ops \<Longrightarrow> \<not> trim_is_empty stage \<Longrightarrow> operations_ok (op_finish now i st stage ops)"
  by (auto simp: op_finish_def entry_ok_def intro!: operations_ok_update)

lemma op_remove_ok: "operations_ok ops \<Longrightarrow> operations_ok (op_remove i ops)"
  by (auto simp: op_remove_def operations_ok_def btree_simps bt_wf_remove split: if_splits)

lemmas operations_ok_ops = op_start_ok op_set_state_ok mark_spawned_ok request_cancel_ok op_finish_ok
  op_remove_ok

end
