(* ===== verification/Command_Start.thy ===== *)
theory Command_Start
  imports Operation_State
begin

text \<open>
  The handler of \<^verbatim>\<open>command.start\<close> (\<open>handle_command_start\<close> of
  \<^verbatim>\<open>imagod-server/src/protocol_handler/router.rs\<close>). The handler suspends at every write to the
  client and at every operation-manager lock, and \<^verbatim>\<open>command.cancel\<close> requests on other
  streams run in between, so the handler is a program counter with one step per suspension
  point. The outcome of a write and the answer of the orchestrator are parameters of a step.
\<close>

section \<open>Guards\<close>

definition ensure_command_start_request_id_match :: "uuid \<Rightarrow> uuid \<Rightarrow> unit result" where
  "ensure_command_start_request_id_match envelope_request_id payload_request_id =
     (if envelope_request_id = payload_request_id then Inr ()
      else Inl (bad_request ''command.start'' ''envelope request_id and payload request_id must match''))"

definition ensure_command_start_allowed :: "bool \<Rightarrow> unit result" where
  "ensure_command_start_allowed shutdown_requested =
     (if \<not> shutdown_requested then Inr ()
      else Inl (new_error Busy ''command.start'' ''server is shutting down''))"

definition should_purge_deploy_session_after_terminal ::
    "CommandState \<Rightarrow> ImagodError option \<Rightarrow> bool" where
  "should_purge_deploy_session_after_terminal terminal_state terminal_error =
     (case terminal_state of
        St_Succeeded \<Rightarrow> True
      | St_Canceled \<Rightarrow> False
      | St_Failed \<Rightarrow>
          (case terminal_error of None \<Rightarrow> False
           | Some err \<Rightarrow> err_code err \<noteq> Busy \<and> \<not> err_retryable err)
      | _ \<Rightarrow> False)"

definition deploy_id_for_cleanup :: "CommandStartRequest \<Rightarrow> string option" where
  "deploy_id_for_cleanup payload =
     (if csr_command_type payload = CT_Deploy
      then (case csr_payload payload of CP_Deploy d \<Rightarrow> Some (dcp_deploy_id d) | _ \<Rightarrow> None)
      else None)"

text \<open>
  The stages reported after the orchestrator's answer; \<open>answer\<close> is the service name and
  release hash of the deploy, run or stop it performed.
\<close>

fun command_result ::
    "CommandType \<Rightarrow> CommandPayload \<Rightarrow> (string \<times> string) result \<Rightarrow> (string \<times> string) result" where
  "command_result CT_Deploy (CP_Deploy _) answer =
     and_then answer (\<lambda>(name, hash). Inr (''release:'' @ name @ '':'' @ hash, ''spawned''))"
| "command_result CT_Run (CP_Run _) answer =
     and_then answer (\<lambda>(name, hash). Inr (''running:'' @ name @ '':'' @ hash, ''spawned''))"
| "command_result CT_Stop (CP_Stop _) answer =
     and_then answer (\<lambda>(name, hash). Inr (''stopped:'' @ name, ''completed''))"
| "command_result _ _ answer =
     Inl (new_error BadRequest ''command.start'' ''payload does not match command_type'')"

section \<open>The handler\<close>

datatype CommandPc =
    SendAccepted
  | SendAcceptedEvent
  | MarkRunning
  | SendStarting
  | MarkSpawned
  | SendCanceled
  | Execute
  | SendProgress string string
  | SendSucceeded string
  | SendFailed ImagodError
  | Finish CommandState string "ImagodError option" "unit result"
  | Remove CommandState "ImagodError option" "unit result"
  | Returned "unit result"

text \<open>
  The last four fields record what the handler did: the events it sent, whether a cancel
  was granted to it, whether the orchestrator was called, and the deploy session it purged.
\<close>

record Handler =
  h_request :: CommandStartRequest
  h_pc :: CommandPc
  h_events :: "CommandEvent list"
  h_granted :: bool
  h_executed :: bool
  h_purged :: "string option"

definition begin_command ::
    "u64 \<Rightarrow> bool \<Rightarrow> uuid \<Rightarrow> CommandStartRequest \<Rightarrow> operations \<Rightarrow> operations \<times> Handler result" where
  "begin_command now shutdown_requested request_id payload ops =
     (case and_then (map_err (\<lambda>e. bad_request ''command.start'' (ve_display e))
              (validate_CommandStartRequest payload)) (\<lambda>_.
            and_then (ensure_command_start_request_id_match request_id (csr_request_id payload)) (\<lambda>_.
              ensure_command_start_allowed shutdown_requested)) of
        Inl e \<Rightarrow> (ops, Inl e)
      | Inr _ \<Rightarrow>
          (case op_start now request_id ops of
             (ops', Inl e) \<Rightarrow> (ops', Inl e)
           | (ops', Inr _) \<Rightarrow>
               (ops', Inr \<lparr>h_request = payload, h_pc = SendAccepted, h_events = [], h_granted = False,
                  h_executed = False, h_purged = None\<rparr>)))"

definition event_envelope ::
    "u64 \<Rightarrow> CommandStartRequest \<Rightarrow> CommandEventType \<Rightarrow> string option \<Rightarrow> StructuredError option
       \<Rightarrow> CommandEvent" where
  "event_envelope now request event_type stage error =
     \<lparr>ce_event_type = event_type, ce_request_id = csr_request_id request,
      ce_command_type = csr_command_type request, ce_timestamp = now_unix_secs now,
      ce_stage = stage, ce_error = error\<rparr>"

text \<open>\<open>write_envelope(..).await?\<close>: the handler goes on, or returns the error of the write.\<close>

definition send_event :: "unit result \<Rightarrow> CommandEvent \<Rightarrow> CommandPc \<Rightarrow> Handler \<Rightarrow> Handler" where
  "send_event write event next h =
     (case write of
        Inl e \<Rightarrow> h\<lparr>h_pc := Returned (Inl e)\<rparr>
      | Inr _ \<Rightarrow> h\<lparr>h_pc := next, h_events := h_events h @ [event]\<rparr>)"

text \<open>The terminal event: its write result is kept and returned after the bookkeeping.\<close>

definition send_terminal ::
    "unit result \<Rightarrow> CommandEvent \<Rightarrow> CommandState \<Rightarrow> string \<Rightarrow> ImagodError option \<Rightarrow> Handler \<Rightarrow> Handler" where
  "send_terminal write event state stage error h =
     h\<lparr>h_pc := Finish state stage error write,
       h_events := h_events h @ (if is_ok write then [event] else [])\<rparr>"

definition purge_if_needed :: "CommandState \<Rightarrow> ImagodError option \<Rightarrow> Handler \<Rightarrow> Handler" where
  "purge_if_needed terminal_state terminal_error h =
     h\<lparr>h_purged :=
         (case deploy_id_for_cleanup (h_request h) of
            None \<Rightarrow> None
          | Some deploy_id \<Rightarrow>
              if should_purge_deploy_session_after_terminal terminal_state terminal_error
              then Some deploy_id else None)\<rparr>"

definition advance ::
    "u64 \<Rightarrow> unit result \<Rightarrow> (string \<times> string) result \<Rightarrow> Handler \<Rightarrow> operations \<Rightarrow> operations \<times> Handler" where
  "advance now write answer h ops =
     (let request = h_request h; oid = csr_request_id request;
          event = event_envelope now request
      in case h_pc h of
        SendAccepted \<Rightarrow>
          (ops, case write of Inl e \<Rightarrow> h\<lparr>h_pc := Returned (Inl e)\<rparr>
                | Inr _ \<Rightarrow> h\<lparr>h_pc := SendAcceptedEvent\<rparr>)
      | SendAcceptedEvent \<Rightarrow> (ops, send_event write (event Ev_Accepted None None) MarkRunning h)
      | MarkRunning \<Rightarrow>
          (case op_set_state now oid St_Running ''starting'' ops of
             (ops', Inl e) \<Rightarrow> (ops', h\<lparr>h_pc := Returned (Inl e)\<rparr>)
           | (ops', Inr _) \<Rightarrow> (ops', h\<lparr>h_pc := SendStarting\<rparr>))
      | SendStarting \<Rightarrow>
          (ops, send_event write (event Ev_Progress (Some ''starting'') None) MarkSpawned h)
      | MarkSpawned \<Rightarrow>
          (case mark_spawned_if_not_canceled now oid ''spawned'' ops of
             (ops', Inl e) \<Rightarrow> (ops', h\<lparr>h_pc := Returned (Inl e)\<rparr>)
           | (ops', Inr TransitionCanceled) \<Rightarrow> (ops', h\<lparr>h_pc := SendCanceled\<rparr>)
           | (ops', Inr TransitionSpawned) \<Rightarrow> (ops', h\<lparr>h_pc := Execute\<rparr>))
      | SendCanceled \<Rightarrow>
          (ops, send_terminal write (event Ev_Canceled (Some ''canceled'') None)
                  St_Canceled ''canceled'' None h)
      | Execute \<Rightarrow>
          (case command_result (csr_command_type request) (csr_payload request) answer of
             Inr (progress_stage, success_stage) \<Rightarrow>
               (ops, h\<lparr>h_executed := True, h_pc := SendProgress progress_stage success_stage\<rparr>)
           | Inl err \<Rightarrow> (ops, h\<lparr>h_executed := True, h_pc := SendFailed err\<rparr>))
      | SendProgress progress_stage success_stage \<Rightarrow>
          (ops, send_event write (event Ev_Progress (Some progress_stage) None)
                  (SendSucceeded success_stage) h)
      | SendSucceeded success_stage \<Rightarrow>
          (ops, send_terminal write (event Ev_Succeeded (Some success_stage) None)
                  St_Succeeded success_stage None h)
      | SendFailed err \<Rightarrow>
          (ops, send_terminal write (event Ev_Failed (Some ''failed'') (Some (to_structured err)))
                  St_Failed ''failed'' (Some err) h)
      | Finish state stage error result \<Rightarrow>
          (op_finish now oid state stage ops, h\<lparr>h_pc := Remove state error result\<rparr>)
      | Remove state error result \<Rightarrow>
          (op_remove oid ops, (purge_if_needed state error h)\<lparr>h_pc := Returned result\<rparr>)
      | Returned result \<Rightarrow> (ops, h))"

section \<open>Interleaving with cancel requests\<close>

datatype CmdSys = CmdSys (cs_ops: operations) (cs_handlers: "uuid \<Rightarrow> Handler option")
  (cs_finished: "Handler list")

definition grant :: "uuid \<Rightarrow> CommandCancelResponse result \<Rightarrow> (uuid \<Rightarrow> Handler option) \<Rightarrow> uuid \<Rightarrow> Handler option" where
  "grant oid reply handlers =
     (case reply of
        Inr response \<Rightarrow>
          if ccp_cancellable response
          then handlers(oid := map_option (\<lambda>h. h\<lparr>h_granted := True\<rparr>) (handlers oid)) else handlers
      | Inl _ \<Rightarrow> handlers)"

inductive cmd_step :: "CmdSys \<Rightarrow> CmdSys \<Rightarrow> bool" where
  cmd_begin:
    "begin_command now shutdown oid payload ops = (ops', Inr h) \<Longrightarrow>
     cmd_step (CmdSys ops hs fin) (CmdSys ops' (hs(oid \<mapsto> h)) fin)"
| cmd_advance:
    "hs oid = Some h \<Longrightarrow> advance now write answer h ops = (ops', h') \<Longrightarrow>
     cmd_step (CmdSys ops hs fin)
       (case h_pc h' of Returned _ \<Rightarrow> CmdSys ops' (hs(oid := None)) (h' # fin)
        | _ \<Rightarrow> CmdSys ops' (hs(oid \<mapsto> h')) fin)"
| cmd_cancel:
    "request_cancel now oid ops = (ops', reply) \<Longrightarrow>
     cmd_step (CmdSys ops hs fin) (CmdSys ops' (grant oid reply hs) fin)"
| cmd_abort:
    "hs oid = Some h \<Longrightarrow> cmd_step (CmdSys ops hs fin) (CmdSys ops (hs(oid := None)) (h # fin))"

definition cmd_init :: "CmdSys \<Rightarrow> bool" where
  "cmd_init sys \<longleftrightarrow> sys = CmdSys [] (\<lambda>_. None) []"

section \<open>The invariant\<close>

definition types :: "Handler \<Rightarrow> CommandEventType list" where
  "types h = map ce_event_type (h_events h)"

fun terminal_events :: "CommandState \<Rightarrow> CommandEventType list" where
  "terminal_events St_Succeeded = [Ev_Accepted, Ev_Progress, Ev_Progress, Ev_Succeeded]"
| "terminal_events St_Failed = [Ev_Accepted, Ev_Progress, Ev_Failed]"
| "terminal_events St_Canceled = [Ev_Accepted, Ev_Progress, Ev_Canceled]"
| "terminal_events _ = []"

definition settled :: "CommandState \<Rightarrow> unit result \<Rightarrow> Handler \<Rightarrow> bool" where
  "settled st write h \<longleftrightarrow> is_terminal st \<and> (st = St_Canceled \<longleftrightarrow> h_granted h) \<and>
     (st = St_Canceled \<longleftrightarrow> \<not> h_executed h) \<and> (is_ok write \<longrightarrow> types h = terminal_events st)"

fun trace_ok :: "CommandPc \<Rightarrow> Handler \<Rightarrow> bool" where
  "trace_ok SendAccepted h \<longleftrightarrow> types h = [] \<and> \<not> h_executed h"
| "trace_ok SendAcceptedEvent h \<longleftrightarrow> types h = [] \<and> \<not> h_executed h"
| "trace_ok MarkRunning h \<longleftrightarrow> types h = [Ev_Accepted] \<and> \<not> h_executed h"
| "trace_ok SendStarting h \<longleftrightarrow> types h = [Ev_Accepted] \<and> \<not> h_executed h"
| "trace_ok MarkSpawned h \<longleftrightarrow> types h = [Ev_Accepted, Ev_Progress] \<and> \<not> h_executed h"
| "trace_ok SendCanceled h \<longleftrightarrow> types h = [Ev_Accepted, Ev_Progress] \<and> \<not> h_executed h \<and> h_granted h"
| "trace_ok Execute h \<longleftrightarrow> types h = [Ev_Accepted, Ev_Progress] \<and> \<not> h_executed h \<and> \<not> h_granted h"
| "trace_ok (SendProgress p s) h \<longleftrightarrow>
     types h = [Ev_Accepted, Ev_Progress] \<and> h_executed h \<and> \<not> h_granted h \<and> \<not> trim_is_empty s"
| "trace_ok (SendSucceeded s) h \<longleftrightarrow>
     types h = [Ev_Accepted, Ev_Progress, Ev_Progress] \<and> h_executed h \<and> \<not> h_granted h \<and> \<not> trim_is_empty s"
| "trace_ok (SendFailed e) h \<longleftrightarrow> types h = [Ev_Accepted, Ev_Progress] \<and> h_executed h \<and> \<not> h_granted h"
| "trace_ok (Finish st stage e w) h \<longleftrightarrow> settled st w h \<and> \<not> trim_is_empty stage"
| "trace_ok (Remove st e w) h \<longleftrightarrow> settled st w h"
| "trace_ok (Returned r) h \<longleftrightarrow> \<not> (h_granted h \<and> h_executed h) \<and>
     (is_ok r \<longrightarrow> (\<exists>st. settled st r h \<and> (h_purged h \<noteq> None \<longrightarrow> st \<noteq> St_Canceled)))"

fun before_spawn :: "CommandPc \<Rightarrow> bool" where
  "before_spawn SendAccepted = True"
| "before_spawn SendAcceptedEvent = True"
| "before_spawn MarkRunning = True"
| "before_spawn SendStarting = True"
| "before_spawn MarkSpawned = True"
| "before_spawn _ = False"

definition handler_ok :: "operations \<Rightarrow> uuid \<Rightarrow> Handler \<Rightarrow> bool" where
  "handler_ok ops oid h \<longleftrightarrow> csr_request_id (h_request h) = oid \<and> trace_ok (h_pc h) h \<and>
     (\<exists>e. bt_get ops oid = Some e \<and>
        (if before_spawn (h_pc h) then oe_phase e = Starting \<and> oe_cancel_requested e = h_granted h
         else oe_phase e = Spawned))"

definition cmd_inv :: "CmdSys \<Rightarrow> bool" where
  "cmd_inv sys \<longleftrightarrow>
     (case sys of CmdSys ops hs fin \<Rightarrow>
        operations_ok ops \<and> (\<forall>oid h. hs oid = Some h \<longrightarrow> handler_ok ops oid h) \<and>
        (\<forall>h \<in> set fin. \<not> (h_granted h \<and> h_executed h) \<and>
           (\<forall>r. h_pc h = Returned r \<longrightarrow> trace_ok (Returned r) h)))"


lemma begin_command_cases:
  assumes "begin_command now shutdown oid payload ops = (ops', Inr h)"
  shows "op_start now oid ops = (ops', Inr ())" "csr_request_id payload = oid" "oid \<noteq> 0"
    "valid_start payload" "\<not> shutdown"
    "h = \<lparr>h_request = payload, h_pc = SendAccepted, h_events = [], h_granted = False,
       h_executed = False, h_purged = None\<rparr>"
  using assms
  by (auto simp: begin_command_def ensure_command_start_request_id_match_def
      ensure_command_start_allowed_def validate_start_ok valid_start_def
      split: sum.splits prod.splits if_splits)

lemma command_result_stage:
  "command_result ct payload answer = Inr (p, s) \<Longrightarrow> \<not> trim_is_empty s"
  by (cases "(ct, payload, answer)" rule: command_result.cases) auto

lemma advance_other:
  assumes "advance now write answer h ops = (ops', h')" "i \<noteq> csr_request_id (h_request h)"
  shows "bt_get ops' i = bt_get ops i"
  using assms
  by (auto simp: advance_def Let_def op_set_state_def mark_spawned_if_not_canceled_def op_finish_def
      op_remove_def btree_simps split: CommandPc.splits option.splits if_splits sum.splits prod.splits
      SpawnTransition.splits)

lemma advance_operations_ok:
  assumes "advance now write answer h ops = (ops', h')" "operations_ok ops" "trace_ok (h_pc h) h"
  shows "operations_ok ops'"
proof -
  let ?i = "csr_request_id (h_request h)"
  have "ops' \<in> {ops, fst (op_set_state now ?i St_Running ''starting'' ops),
      fst (mark_spawned_if_not_canceled now ?i ''spawned'' ops), op_remove ?i ops} \<or>
    (\<exists>st stage e w. h_pc h = Finish st stage e w \<and> ops' = op_finish now ?i st stage ops)"
    using assms(1)
    by (auto simp: advance_def Let_def split: CommandPc.splits sum.splits prod.splits SpawnTransition.splits)
  then show ?thesis using assms(2,3) operations_ok_ops by auto
qed


text \<open>A step keeps the handler's own invariant, or ends the handler properly.\<close>

definition next_ok :: "operations \<Rightarrow> uuid \<Rightarrow> Handler \<Rightarrow> bool" where
  "next_ok ops oid h \<longleftrightarrow>
     (case h_pc h of Returned r \<Rightarrow> trace_ok (Returned r) h | _ \<Rightarrow> handler_ok ops oid h)"

lemmas next_ok_defs = next_ok_def handler_ok_def advance_def Let_def types_def send_event_def
  event_envelope_def

lemma advance_before_spawn:
  assumes "handler_ok ops oid h" "before_spawn (h_pc h)" "advance now write answer h ops = (ops', h')"
  shows "next_ok ops' oid h'"
  using assms
  by (cases "h_pc h"; cases "write")
    (auto simp: next_ok_defs op_set_state_def mark_spawned_if_not_canceled_def btree_simps
      split: if_splits)

lemma advance_after_spawn:
  assumes "handler_ok ops oid h" "\<not> before_spawn (h_pc h)" "advance now write answer h ops = (ops', h')"
  shows "next_ok ops' oid h'"
proof (cases "h_pc h")
  case SendCanceled
  then show ?thesis
    using assms by (cases "write") (auto simp: next_ok_defs send_terminal_def settled_def)
next
  case Execute
  then show ?thesis
    using assms command_result_stage
    by (auto simp: next_ok_defs split: sum.splits prod.splits)
next
  case (SendProgress p s)
  then show ?thesis using assms by (cases "write") (auto simp: next_ok_defs)
next
  case (SendSucceeded s)
  then show ?thesis using assms by (cases "write") (auto simp: next_ok_defs send_terminal_def settled_def)
next
  case (SendFailed e)
  then show ?thesis using assms by (cases "write") (auto simp: next_ok_defs send_terminal_def settled_def)
next
  case (Finish st stage e w)
  then show ?thesis
    using assms by (auto simp: next_ok_defs op_finish_def btree_simps settled_def)
next
  case (Remove st e w)
  then have "settled st w h" using assms(1) by (simp add: handler_ok_def)
  moreover have "h' = (purge_if_needed st e h)\<lparr>h_pc := Returned w\<rparr>"
    using assms(3) Remove by (auto simp: advance_def Let_def)
  moreover have "h_purged (purge_if_needed st e h) \<noteq> None \<Longrightarrow> st \<noteq> St_Canceled"
    by (auto simp: purge_if_needed_def should_purge_deploy_session_after_terminal_def
        split: option.splits CommandState.splits)
  ultimately show ?thesis
    by (auto simp: next_ok_def settled_def types_def purge_if_needed_def)
next
  case (Returned r)
  then show ?thesis using assms by (auto simp: next_ok_defs)
qed (use assms in auto)


lemma next_ok_advance:
  assumes "handler_ok ops oid h" "advance now write answer h ops = (ops', h')"
  shows "next_ok ops' oid h'"
  using advance_before_spawn advance_after_spawn assms by blast

lemma trace_ok_exclusive: "trace_ok pc h \<Longrightarrow> handler_ok ops oid h \<Longrightarrow> \<not> (h_granted h \<and> h_executed h)"
  by (cases "h_pc h") (auto simp: handler_ok_def settled_def)

lemma handler_ok_frame:
  "handler_ok ops oid h \<Longrightarrow> bt_get ops' oid = bt_get ops oid \<Longrightarrow> handler_ok ops' oid h"
  by (simp add: handler_ok_def)

lemma cancel_handler_ok:
  assumes "request_cancel now oid ops = (ops', reply)" "handler_ok ops i h"
  shows "handler_ok ops' i
    (if i = oid \<and> (\<exists>r. reply = Inr r \<and> ccp_cancellable r) then h\<lparr>h_granted := True\<rparr> else h)"
proof (cases "i = oid \<and> (\<exists>r. reply = Inr r \<and> ccp_cancellable r)")
  case True
  then have "before_spawn (h_pc h)"
    using assms by (auto simp: request_cancel_def handler_ok_def split: option.splits if_splits)
  then show ?thesis
    using True assms
    by (cases "h_pc h") (auto simp: request_cancel_def handler_ok_def types_def btree_simps
        split: option.splits if_splits)
next
  case False
  then show ?thesis
    using assms by (auto simp: request_cancel_def btree_simps split: option.splits if_splits
        intro: handler_ok_frame)
qed

lemma cmd_invI:
  assumes "operations_ok ops" "\<And>i h. hs i = Some h \<Longrightarrow> handler_ok ops i h"
    and "\<And>h. h \<in> set fin \<Longrightarrow> \<not> (h_granted h \<and> h_executed h)"
    and "\<And>h r. h \<in> set fin \<Longrightarrow> h_pc h = Returned r \<Longrightarrow> trace_ok (Returned r) h"
  shows "cmd_inv (CmdSys ops hs fin)"
  unfolding cmd_inv_def CmdSys.case using assms by blast

lemma cmd_invD:
  assumes "cmd_inv (CmdSys ops hs fin)"
  shows "operations_ok ops" "hs i = Some h \<Longrightarrow> handler_ok ops i h"
    and "h \<in> set fin \<Longrightarrow> \<not> (h_granted h \<and> h_executed h)"
    and "h \<in> set fin \<Longrightarrow> h_pc h = Returned r \<Longrightarrow> trace_ok (Returned r) h"
  using assms unfolding cmd_inv_def CmdSys.case by blast+

lemma cmd_inv_advance:
  assumes hs: "hs oid = Some h" and adv: "advance now write answer h ops = (ops', h')"
    and inv: "cmd_inv (CmdSys ops hs fin)"
  shows "cmd_inv (case h_pc h' of Returned _ \<Rightarrow> CmdSys ops' (hs(oid := None)) (h' # fin)
    | _ \<Rightarrow> CmdSys ops' (hs(oid \<mapsto> h')) fin)"
proof -
  note I = cmd_invD [OF inv]
  have ok: "handler_ok ops oid h" by (rule I(2) [OF hs])
  have next_h: "next_ok ops' oid h'" by (rule next_ok_advance [OF ok adv])
  have ops: "operations_ok ops'"
    using advance_operations_ok [OF adv I(1)] ok by (simp add: handler_ok_def)
  have other: "handler_ok ops' i g" if "hs i = Some g" "i \<noteq> oid" for i g
    using handler_ok_frame [OF I(2) [OF that(1)]] advance_other [OF adv, of i] ok that(2)
    by (simp add: handler_ok_def)
  show ?thesis
  proof (cases "\<exists>r. h_pc h' = Returned r")
    case True
    then obtain r where r: "h_pc h' = Returned r" by blast
    have "cmd_inv (CmdSys ops' (hs(oid := None)) (h' # fin))"
      by (rule cmd_invI) (use ops other next_h r I(3,4) in \<open>auto simp: next_ok_def split: if_splits\<close>)
    then show ?thesis by (simp add: r)
  next
    case False
    then have "handler_ok ops' oid h'" using next_h by (auto simp: next_ok_def split: CommandPc.splits)
    then have "cmd_inv (CmdSys ops' (hs(oid \<mapsto> h')) fin)"
      by (intro cmd_invI) (use ops other I(3,4) in \<open>auto split: if_splits\<close>)
    then show ?thesis using False by (auto split: CommandPc.splits)
  qed
qed

lemma cmd_inv_step: "cmd_step sys sys' \<Longrightarrow> cmd_inv sys \<Longrightarrow> cmd_inv sys'"
proof (induction rule: cmd_step.induct)
  case (cmd_begin now shutdown oid payload ops ops' h hs fin)
  note B = begin_command_cases [OF cmd_begin(1)]
  note I = cmd_invD [OF cmd_begin(2)]
  have "operations_ok ops'" using op_start_ok [OF I(1) B(3), of now] B(1) by simp
  moreover have "handler_ok ops' oid h"
    using B by (auto simp: op_start_def handler_ok_def types_def btree_simps split: if_splits)
  moreover have "handler_ok ops' i g" if "hs i = Some g" "i \<noteq> oid" for i g
    by (rule handler_ok_frame [OF I(2) [OF that(1)]])
      (use B(1) that(2) in \<open>auto simp: op_start_def btree_simps split: if_splits\<close>)
  ultimately show ?case
    by (intro cmd_invI) (use I in \<open>auto split: if_splits\<close>)
next
  case (cmd_advance hs oid h now "write" answer ops ops' h' fin)
  then show ?case by (rule cmd_inv_advance)
next
  case (cmd_cancel now oid ops ops' reply hs fin)
  note I = cmd_invD [OF cmd_cancel(2)]
  have "operations_ok ops'" using request_cancel_ok [OF I(1), of now oid] cmd_cancel(1) by simp
  moreover have "handler_ok ops' i g" if "grant oid reply hs i = Some g" for i g
    using cancel_handler_ok [OF cmd_cancel(1), of i] I(2) [of i] that
    by (auto simp: grant_def split: sum.splits if_splits)
  ultimately show ?case by (rule cmd_invI) (use I(3,4) in auto)
next
  case (cmd_abort hs oid h ops fin)
  note I = cmd_invD [OF cmd_abort(2)]
  have "handler_ok ops oid h" by (rule I(2) [OF cmd_abort(1)])
  moreover from this have "trace_ok (h_pc h) h" by (simp add: handler_ok_def)
  ultimately show ?case
    by (intro cmd_invI) (use I trace_ok_exclusive in \<open>auto split: if_splits\<close>)
qed

interpretation commands: inductive_invariant cmd_init cmd_step cmd_inv
proof unfold_locales
  show "cmd_inv s" if "cmd_init s" for s
    using that by (auto simp: cmd_init_def cmd_inv_def operations_ok_def bt_wf_def)
qed (use cmd_inv_step in blast)


section \<open>An undisturbed run\<close>

primrec run_command ::
    "nat \<Rightarrow> u64 \<Rightarrow> (string \<times> string) result \<Rightarrow> Handler \<Rightarrow> operations \<Rightarrow> operations \<times> Handler" where
  "run_command 0 now answer h ops = (ops, h)"
| "run_command (Suc n) now answer h ops =
     (let (ops', h') = advance now (Inr ()) answer h ops in run_command n now answer h' ops')"

definition handle_command_start ::
    "u64 \<Rightarrow> bool \<Rightarrow> uuid \<Rightarrow> CommandStartRequest \<Rightarrow> (string \<times> string) result \<Rightarrow> operations
       \<Rightarrow> operations \<times> Handler result" where
  "handle_command_start now shutdown_requested request_id payload answer ops =
     (case begin_command now shutdown_requested request_id payload ops of
        (ops', Inl e) \<Rightarrow> (ops', Inl e)
      | (ops', Inr h) \<Rightarrow> apsnd Inr (run_command 10 now answer h ops'))"


text \<open>One rule per suspension point for a client that takes every message.\<close>

lemma advance_delivered:
  assumes "csr_request_id r = oid"
  shows "advance now (Inr ()) answer \<lparr>h_request = r, h_pc = SendAccepted, h_events = es, h_granted = g,
      h_executed = x, h_purged = p\<rparr> ops =
    (ops, \<lparr>h_request = r, h_pc = SendAcceptedEvent, h_events = es, h_granted = g, h_executed = x, h_purged = p\<rparr>)"
    and "advance now (Inr ()) answer \<lparr>h_request = r, h_pc = SendAcceptedEvent, h_events = es, h_granted = g,
      h_executed = x, h_purged = p\<rparr> ops =
    (ops, \<lparr>h_request = r, h_pc = MarkRunning, h_events = es @ [event_envelope now r Ev_Accepted None None],
       h_granted = g, h_executed = x, h_purged = p\<rparr>)"
    and "bt_get ops oid = Some e \<Longrightarrow>
     advance now (Inr ()) answer \<lparr>h_request = r, h_pc = MarkRunning, h_events = es, h_granted = g,
      h_executed = x, h_purged = p\<rparr> ops =
    (fst (op_set_state now oid St_Running ''starting'' ops),
     \<lparr>h_request = r, h_pc = SendStarting, h_events = es, h_granted = g, h_executed = x, h_purged = p\<rparr>)"
    and "advance now (Inr ()) answer \<lparr>h_request = r, h_pc = SendStarting, h_events = es, h_granted = g,
      h_executed = x, h_purged = p\<rparr> ops =
    (ops, \<lparr>h_request = r, h_pc = MarkSpawned,
       h_events = es @ [event_envelope now r Ev_Progress (Some ''starting'') None],
       h_granted = g, h_executed = x, h_purged = p\<rparr>)"
    and "bt_get ops oid = Some e \<Longrightarrow> \<not> oe_cancel_requested e \<Longrightarrow>
     advance now (Inr ()) answer \<lparr>h_request = r, h_pc = MarkSpawned, h_events = es, h_granted = g,
      h_executed = x, h_purged = p\<rparr> ops =
    (fst (mark_spawned_if_not_canceled now oid ''spawned'' ops),
     \<lparr>h_request = r, h_pc = Execute, h_events = es, h_granted = g, h_executed = x, h_purged = p\<rparr>)"
    and "command_result (csr_command_type r) (csr_payload r) answer = Inr (progress, success) \<Longrightarrow>
     advance now (Inr ()) answer \<lparr>h_request = r, h_pc = Execute, h_events = es, h_granted = g,
      h_executed = x, h_purged = p\<rparr> ops =
    (ops, \<lparr>h_request = r, h_pc = SendProgress progress success, h_events = es, h_granted = g,
       h_executed = True, h_purged = p\<rparr>)"
    and "command_result (csr_command_type r) (csr_payload r) answer = Inl err \<Longrightarrow>
     advance now (Inr ()) answer \<lparr>h_request = r, h_pc = Execute, h_events = es, h_granted = g,
      h_executed = x, h_purged = p\<rparr> ops =
    (ops, \<lparr>h_request = r, h_pc = SendFailed err, h_events = es, h_granted = g,
       h_executed = True, h_purged = p\<rparr>)"
    and "advance now (Inr ()) answer \<lparr>h_request = r, h_pc = SendProgress progress success, h_events = es,
      h_granted = g, h_executed = x, h_purged = p\<rparr> ops =
    (ops, \<lparr>h_request = r, h_pc = SendSucceeded success,
       h_events = es @ [event_envelope now r Ev_Progress (Some progress) None],
       h_granted = g, h_executed = x, h_purged = p\<rparr>)"
    and "advance now (Inr ()) answer \<lparr>h_request = r, h_pc = SendSucceeded success, h_events = es,
      h_granted = g, h_executed = x, h_purged = p\<rparr> ops =
    (ops, \<lparr>h_request = r, h_pc = Finish St_Succeeded success None (Inr ()),
       h_events = es @ [event_envelope now r Ev_Succeeded (Some success) None],
       h_granted = g, h_executed = x, h_purged = p\<rparr>)"
    and "advance now (Inr ()) answer \<lparr>h_request = r, h_pc = SendFailed err, h_events = es,
      h_granted = g, h_executed = x, h_purged = p\<rparr> ops =
    (ops, \<lparr>h_request = r, h_pc = Finish St_Failed ''failed'' (Some err) (Inr ()),
       h_events = es @ [event_envelope now r Ev_Failed (Some ''failed'') (Some (to_structured err))],
       h_granted = g, h_executed = x, h_purged = p\<rparr>)"
    and "advance now (Inr ()) answer \<lparr>h_request = r, h_pc = Finish st stage error result, h_events = es,
      h_granted = g, h_executed = x, h_purged = p\<rparr> ops =
    (op_finish now oid st stage ops, \<lparr>h_request = r, h_pc = Remove st error result, h_events = es,
       h_granted = g, h_executed = x, h_purged = p\<rparr>)"
    and "advance now (Inr ()) answer \<lparr>h_request = r, h_pc = Remove st error result, h_events = es,
      h_granted = g, h_executed = x, h_purged = p\<rparr> ops =
    (op_remove oid ops, (purge_if_needed st error \<lparr>h_request = r, h_pc = Remove st error result,
       h_events = es, h_granted = g, h_executed = x, h_purged = p\<rparr>)\<lparr>h_pc := Returned result\<rparr>)"
    and "advance now (Inr ()) answer \<lparr>h_request = r, h_pc = Returned result, h_events = es,
      h_granted = g, h_executed = x, h_purged = p\<rparr> ops =
    (ops, \<lparr>h_request = r, h_pc = Returned result, h_events = es, h_granted = g, h_executed = x,
       h_purged = p\<rparr>)"
  using assms
  by (simp_all add: advance_def send_event_def send_terminal_def op_set_state_def mark_spawned_if_not_canceled_def)


lemma table_after_run:
  assumes "bt_get ops oid = None"
  shows "bt_get (op_remove oid (op_finish now oid st stage
      (fst (mark_spawned_if_not_canceled now oid ''spawned''
        (fst (op_set_state now oid St_Running ''starting'' (bt_insert oid e ops))))))) = bt_get ops"
  using assms
  by (simp add: op_set_state_def mark_spawned_if_not_canceled_def op_finish_def op_remove_def btree_simps fun_eq_iff)

lemma needs_no_cancel:
  "bt_get (bt_insert oid e ops) oid = Some e"
  "bt_get (fst (op_set_state now oid st stage (bt_insert oid e ops))) oid =
     Some (e\<lparr>oe_state := st, oe_stage := stage, oe_updated_at := now_unix_secs now\<rparr>)"
  by (simp_all add: op_set_state_def btree_simps)

lemma command_result_valid:
  assumes "valid_start payload"
  shows "is_ok (command_result (csr_command_type payload) (csr_payload payload) answer) = is_ok answer"
    and "answer = Inl err \<Longrightarrow> command_result (csr_command_type payload) (csr_payload payload) answer = Inl err"
  using assms
  by (cases "csr_payload payload"; cases answer; auto simp: valid_start_def)+

lemma abandoned_step:
  assumes "cmd_step s t" "cmd_inv s" "cs_handlers s oid = None \<and> bt_get (cs_ops s) oid \<noteq> None"
  shows "cs_handlers t oid = None \<and> bt_get (cs_ops t) oid \<noteq> None"
  using assms
proof (induction rule: cmd_step.induct)
  case (cmd_begin now shutdown i payload ops ops' h hs fin)
  then show ?case
    using begin_command_cases(1) [OF cmd_begin(1)]
    by (auto simp: op_start_def btree_simps bt_contains_def split: if_splits)
next
  case (cmd_cancel now i ops ops' reply hs fin)
  then show ?case
    by (auto simp: request_cancel_def grant_def btree_simps split: option.splits if_splits sum.splits)
next
  case (cmd_advance hs i h now "write" answer ops ops' h' fin)
  have "csr_request_id (h_request h) = i"
    using cmd_invD(2) [OF cmd_advance(3) cmd_advance(1)] by (simp add: handler_ok_def)
  moreover have "i \<noteq> oid" using cmd_advance(1,4) by auto
  ultimately show ?case
    using advance_other [OF cmd_advance(2), of oid] cmd_advance(4) by (auto split: CommandPc.splits)
qed auto

text \<open>A run of the handler alone is a path of the interleaved system.\<close>

lemma run_command_returned:
  "h_pc h = Returned r \<Longrightarrow> run_command n now answer h ops = (ops, h)"
  by (induction n) (simp_all add: advance_def Let_def)

lemma advance_reach:
  assumes "reach cmd_init cmd_step (CmdSys ops hs fin)" "hs oid = Some h"
    and "advance now write answer h ops = (ops', h')"
  shows "reach cmd_init cmd_step (case h_pc h' of Returned _ \<Rightarrow> CmdSys ops' (hs(oid := None)) (h' # fin)
    | _ \<Rightarrow> CmdSys ops' (hs(oid \<mapsto> h')) fin)"
  by (rule reach_step [OF assms(1)], rule cmd_step.cmd_advance [of hs oid, OF assms(2,3)])

lemma run_command_reach:
  assumes "reach cmd_init cmd_step (CmdSys ops hs fin)" "hs oid = Some h"
    and "run_command n now answer h ops = (ops', h')" "h_pc h' = Returned r" "\<nexists>r. h_pc h = Returned r"
  shows "\<exists>hs'. reach cmd_init cmd_step (CmdSys ops' hs' (h' # fin))"
  using assms
proof (induction n arbitrary: ops hs h)
  case 0
  then show ?case by auto
next
  case (Suc n)
  obtain ops1 h1 where adv: "advance now (Inr ()) answer h ops = (ops1, h1)" by force
  have run: "run_command n now answer h1 ops1 = (ops', h')" using Suc.prems(3) adv by simp
  note next_sys = advance_reach [OF Suc.prems(1,2) adv]
  show ?case
  proof (cases "\<exists>r. h_pc h1 = Returned r")
    case True
    then have "h' = h1" "ops' = ops1" using run run_command_returned by fastforce+
    then show ?thesis using next_sys True by auto
  next
    case False
    then have "reach cmd_init cmd_step (CmdSys ops1 (hs(oid \<mapsto> h1)) fin)"
      using next_sys by (auto split: CommandPc.splits)
    from Suc.IH [OF this _ run Suc.prems(4) False] show ?thesis by simp
  qed
qed

section \<open>Properties\<close>

text \<open>
  C3: a granted cancel and the execution of the command exclude each other. In every
  reachable state, for every handler running or ended, if some \<^verbatim>\<open>command.cancel\<close> for it was
  answered with \<open>cancellable\<close>, the orchestrator is never called for it.
\<close>

theorem granted_cancel_prevents_execution:
  assumes "reach cmd_init cmd_step sys"
    and "h \<in> set (cs_finished sys) \<or> cs_handlers sys oid = Some h"
  shows "\<not> (h_granted h \<and> h_executed h)"
proof (cases sys)
  case (CmdSys ops hs fin)
  note I = cmd_invD [OF commands.reach_invar [OF assms(1), unfolded CmdSys]]
  show ?thesis
    using assms(2) I(2) [of oid h] I(3) [of h] trace_ok_exclusive [of "h_pc h" h ops oid] CmdSys
    by (auto simp: handler_ok_def)
qed

text \<open>
  C17: the client of a command that ends normally has seen exactly one terminal event, at the
  end of the documented sequence: accepted, progress, then canceled if and only if a cancel
  was granted (and then the deploy session is kept for another attempt), otherwise a further
  progress and succeeded, or failed.
\<close>

theorem command_event_sequence:
  assumes "reach cmd_init cmd_step sys" and "h \<in> set (cs_finished sys)"
    and "h_pc h = Returned (Inr ())"
  shows "map ce_event_type (h_events h) =
      (if h_granted h then [Ev_Accepted, Ev_Progress, Ev_Canceled]
       else if Ev_Succeeded \<in> set (map ce_event_type (h_events h))
       then [Ev_Accepted, Ev_Progress, Ev_Progress, Ev_Succeeded]
       else [Ev_Accepted, Ev_Progress, Ev_Failed]) \<and>
    h_executed h = (\<not> h_granted h) \<and> (h_granted h \<longrightarrow> h_purged h = None)"
proof (cases sys)
  case (CmdSys ops hs fin)
  have "trace_ok (Returned (Inr ())) h"
    using cmd_invD(4) [OF commands.reach_invar [OF assms(1), unfolded CmdSys]] assms(2,3) CmdSys
    by auto
  then obtain st where "settled st (Inr ()) h" "h_purged h \<noteq> None \<longrightarrow> st \<noteq> St_Canceled" by auto
  then show ?thesis by (cases st) (auto simp: settled_def types_def)
qed

text \<open>
  C18: a command completes. With a client that takes every message and a request that is
  valid and not running, the handler returns successfully after at most ten suspension
  points, whatever the orchestrator answers; the answer decides between succeeded and
  failed, and the operation table is what it was before.
\<close>

theorem command_completes:
  assumes "valid_start payload" and "csr_request_id payload = oid" and "bt_get ops oid = None"
  shows "\<exists>ops' h. handle_command_start now False oid payload answer ops = (ops', Inr h) \<and>
    h_pc h = Returned (Inr ()) \<and> bt_get ops' = bt_get ops \<and> h_executed h \<and>
    map ce_event_type (h_events h) = terminal_events (if is_ok answer then St_Succeeded else St_Failed)"
proof -
  let ?r = "command_result (csr_command_type payload) (csr_payload payload) answer"
  have begin_ok: "begin_command now False oid payload ops =
      (bt_insert oid \<lparr>oe_state = St_Accepted, oe_stage = ''accepted'', oe_updated_at = now_unix_secs now,
         oe_cancel_requested = False, oe_phase = Starting\<rparr> ops,
       Inr \<lparr>h_request = payload, h_pc = SendAccepted, h_events = [], h_granted = False,
         h_executed = False, h_purged = None\<rparr>)"
    using assms validate_start_ok [of payload "()"]
    by (simp add: begin_command_def ensure_command_start_request_id_match_def
        ensure_command_start_allowed_def op_start_def bt_contains_def)
  note rules = handle_command_start_def begin_ok eval_nat_numeral advance_delivered [OF assms(2)]
    needs_no_cancel table_after_run [OF assms(3)] event_envelope_def purge_if_needed_def
  show ?thesis
  proof (cases ?r)
    case (Inl err)
    then have "\<not> is_ok answer" using command_result_valid(1) [OF assms(1), of answer] by simp
    then show ?thesis using Inl by (simp add: rules)
  next
    case (Inr ps)
    then have "is_ok answer" using command_result_valid(1) [OF assms(1), of answer] by simp
    moreover obtain p s where "ps = (p, s)" by force
    ultimately show ?thesis using Inr by (simp add: rules)
  qed
qed

text \<open>
  C24: every state response the server gives passes its validator: it names the operation, is
  never in a terminal state, and has a non-blank stage and time.
\<close>

theorem state_response_valid:
  assumes "reach cmd_init cmd_step sys" and "snapshot_running oid (cs_ops sys) = Inr response"
  shows "validate_StateResponse response = Inr ()"
proof (cases sys)
  case (CmdSys ops hs fin)
  have "operations_ok ops" by (rule cmd_invD(1) [OF commands.reach_invar [OF assms(1), unfolded CmdSys]])
  then show ?thesis
    using assms(2) CmdSys
    by (auto simp: snapshot_running_def operations_ok_def entry_ok_def validate_StateResponse_def
        validate_simps split: option.splits if_splits CommandState.splits)
qed

text \<open>
  C28: an operation whose handler has gone is never released. Once no handler runs for a
  request id that is still in the operation table, no later sequence of requests, cancels and
  aborts removes it, and every further command with that request id is refused.
\<close>

theorem abandoned_operation_is_permanent:
  assumes "reach cmd_init cmd_step sys"
    and "cs_handlers sys oid = None" and "bt_get (cs_ops sys) oid \<noteq> None" and "cmd_step\<^sup>*\<^sup>* sys sys'"
  shows "cs_handlers sys' oid = None \<and> bt_get (cs_ops sys') oid \<noteq> None \<and>
    (\<forall>now shutdown payload. \<exists>e. snd (begin_command now shutdown oid payload (cs_ops sys')) = Inl e)"
proof -
  have refused: "\<exists>e. snd (begin_command now shutdown oid payload ops) = Inl e"
    if "bt_get ops oid \<noteq> None" for now shutdown payload ops
    using that by (auto simp: begin_command_def op_start_def bt_contains_def split: sum.splits)
  have "cmd_inv sys' \<and> cs_handlers sys' oid = None \<and> bt_get (cs_ops sys') oid \<noteq> None"
    using assms(4)
  proof (induction rule: rtranclp_induct)
    case base
    then show ?case using commands.reach_invar [OF assms(1)] assms(2,3) by simp
  next
    case (step s t)
    then show ?case using abandoned_step cmd_inv_step by blast
  qed
  then show ?thesis using refused by blast
qed

text \<open>A state that a failed write leads to: the first answer to the client is lost.\<close>

definition example_command :: CommandStartRequest where
  "example_command =
     \<lparr>csr_request_id = 7, csr_command_type = CT_Run, csr_payload = CP_Run \<lparr>rcp_name = ''svc''\<rparr>\<rparr>"

definition example_entry :: OperationEntry where
  "example_entry = \<lparr>oe_state = St_Accepted, oe_stage = ''accepted'', oe_updated_at = now_unix_secs 100,
     oe_cancel_requested = False, oe_phase = Starting\<rparr>"

definition example_handler :: "CommandPc \<Rightarrow> Handler" where
  "example_handler pc = \<lparr>h_request = example_command, h_pc = pc, h_events = [], h_granted = False,
     h_executed = False, h_purged = None\<rparr>"

lemma example_start: "valid_start example_command" "csr_request_id example_command = 7"
  by (simp_all add: valid_start_def example_command_def validate_RunCommandPayload_def validate_simps)

lemma example_begin:
  "begin_command 100 False 7 example_command [] = ([(7, example_entry)], Inr (example_handler SendAccepted))"
  using validate_start_ok [of example_command "()"] example_start
  by (simp add: begin_command_def ensure_command_start_request_id_match_def
      ensure_command_start_allowed_def op_start_def bt_contains_def example_entry_def example_handler_def)

lemma example_running:
  "reach cmd_init cmd_step
     (CmdSys [(7, example_entry)] ((\<lambda>_. None)(7 \<mapsto> example_handler SendAccepted)) [])"
proof -
  have "reach cmd_init cmd_step (CmdSys [] (\<lambda>_. None) [])"
    by (rule reach_init) (simp add: cmd_init_def)
  from reach_step [OF this cmd_step.cmd_begin [OF example_begin]] show ?thesis .
qed

lemma example_lost:
  "reach cmd_init cmd_step
     (CmdSys [(7, example_entry)] (\<lambda>_. None) [example_handler (Returned (Inl (bad_request ''session.write'' ''lost'')))])"
proof -
  let ?e = "bad_request ''session.write'' ''lost''"
  have adv: "advance 100 (Inl ?e) (Inr ([], [])) (example_handler SendAccepted) [(7, example_entry)] =
      ([(7, example_entry)], example_handler (Returned (Inl ?e)))"
    by (simp add: advance_def example_handler_def)
  have hs: "((\<lambda>_. None)(7 :: uuid \<mapsto> example_handler SendAccepted)) 7 = Some (example_handler SendAccepted)" by simp
  have "((\<lambda>_. None)(7 :: uuid \<mapsto> example_handler SendAccepted))(7 := None) = (\<lambda>_. None)" by auto
  then show ?thesis
    using advance_reach [OF example_running hs adv]
    by (simp add: example_handler_def)
qed

lemma example_run:
  "\<exists>h. run_command 10 100 (Inr (''svc'', ''abc'')) (example_handler SendAccepted) [(7, example_entry)] = ([], h) \<and>
     h_pc h = Returned (Inr ()) \<and> \<not> h_granted h"
proof -
  have "command_result (csr_command_type example_command) (csr_payload example_command) (Inr (''svc'', ''abc'')) =
      Inr (''running:svc:abc'', ''spawned'')"
    by (simp add: example_command_def)
  then show ?thesis
    by (simp add: eval_nat_numeral advance_delivered [OF example_start(2)] example_handler_def
        op_set_state_def mark_spawned_if_not_canceled_def op_finish_def op_remove_def bt_update_def bt_remove_def
        purge_if_needed_def example_entry_def)
qed

theorem command_event_sequence_witness:
  "\<exists>h. run_command 10 100 (Inr (''svc'', ''abc'')) (example_handler SendAccepted) [(7, example_entry)] = ([], h) \<and>
     h_executed h \<and> map ce_event_type (h_events h) \<in> {terminal_events St_Succeeded, terminal_events St_Failed}"
proof -
  obtain h where h: "run_command 10 100 (Inr (''svc'', ''abc'')) (example_handler SendAccepted)
      [(7, example_entry)] = ([], h)" "h_pc h = Returned (Inr ())" "\<not> h_granted h"
    using example_run by blast
  obtain hs where hs: "reach cmd_init cmd_step (CmdSys [] hs [h])"
    using run_command_reach [OF example_running, of 7, OF _ h(1,2)] by (auto simp: example_handler_def)
  have "h_executed h \<and> map ce_event_type (h_events h) \<in> {terminal_events St_Succeeded, terminal_events St_Failed}"
    using command_event_sequence [OF hs _ h(2)] h(3)
    by (cases "Ev_Succeeded \<in> set (map ce_event_type (h_events h))") simp_all
  then show ?thesis using h(1) by blast
qed

theorem abandoned_operation_is_permanent_witness:
  "\<exists>e. snd (begin_command 200 False 7 example_command [(7, example_entry)]) = Inl e"
  using abandoned_operation_is_permanent [OF example_lost, of 7, OF _ _ rtranclp.rtrancl_refl] by simp

theorem state_response_valid_witness:
  "validate_StateResponse \<lparr>srs_request_id = 7, srs_state = St_Accepted, srs_stage = ''accepted'',
     srs_updated_at = now_unix_secs 100\<rparr> = Inr ()"
  using state_response_valid [OF example_lost, of 7]
  by (simp add: snapshot_running_def example_entry_def)

theorem command_completes_witness:
  "\<exists>ops' h. handle_command_start 100 False 7 example_command (Inr (''svc'', ''abc'')) [] = (ops', Inr h) \<and>
     h_pc h = Returned (Inr ())"
  using command_completes [OF example_start, of "[]" 100 "Inr (''svc'', ''abc'')"] by auto

theorem granted_cancel_prevents_execution_witness:
  "\<not> (h_granted (example_handler (Returned (Inl (bad_request ''session.write'' ''lost'')))) \<and>
      h_executed (example_handler (Returned (Inl (bad_request ''session.write'' ''lost'')))))"
  using granted_cancel_prevents_execution [OF example_lost] by simp

end
