(* ===== verification/Frame_Codec.thy ===== *)
theory Frame_Codec
  imports Protocol_Messages
begin

text \<open>
  Length-prefixed frames. Every connection of the system carries byte strings behind a
  big-endian \<open>u32\<close> length, and the sources have the encoder and the decoder three times: in
  the daemon (\<^verbatim>\<open>imagod-server/src/protocol_handler/codec.rs\<close>, which returns ranges into the
  buffer), in the client (\<^verbatim>\<open>imago-cli/src/commands/deploy/mod.rs\<close>) and in the remote procedure
  calls between daemons (\<^verbatim>\<open>imagod-control/src/service_supervisor/remote_rpc.rs\<close>), which copy
  the frames. The interface \<open>frame_codec\<close> states what all of them promise each other.
\<close>

section \<open>Big-endian words\<close>

unbundle bit_operations_syntax

text \<open>\<open>u32::to_be_bytes\<close> and \<open>u32::from_be_bytes\<close>; the latter takes an array of four bytes.\<close>

definition to_be_bytes :: "u32 \<Rightarrow> bytes" where
  "to_be_bytes w = [ucast (drop_bit 24 w), ucast (drop_bit 16 w), ucast (drop_bit 8 w), ucast w]"

fun from_be_bytes :: "bytes \<Rightarrow> u32" where
  "from_be_bytes [a, b, c, d] =
     push_bit 24 (ucast a) OR push_bit 16 (ucast b) OR push_bit 8 (ucast c) OR ucast d"
| "from_be_bytes _ = 0"

lemma length_to_be_bytes [simp]: "length (to_be_bytes w) = 4"
  by (simp add: to_be_bytes_def)

lemma from_to_be_bytes [simp]: "from_be_bytes (to_be_bytes w) = w"
proof (rule bit_word_eqI)
  fix n assume "n < LENGTH(32)"
  then show "bit (from_be_bytes (to_be_bytes w)) n = bit w n"
    by (cases "n < 8"; cases "n < 16"; cases "n < 24") (auto simp: to_be_bytes_def bit_simps)
qed

lemma u8_bits: "8 \<le> n \<Longrightarrow> \<not> bit (a :: u8) n"
  using bit_imp_le_length [of a n] by auto

lemma to_from_be_bytes:
  assumes "length bs = 4"
  shows "to_be_bytes (from_be_bytes bs) = bs"
proof -
  obtain a b c d where "bs = [a, b, c, d]"
    using assms by (auto simp: length_Suc_conv eval_nat_numeral)
  then show ?thesis
    by (auto simp: to_be_bytes_def bit_simps u8_bits intro!: bit_word_eqI)
qed

lemma to_be_bytes_inject: "to_be_bytes v = to_be_bytes w \<longleftrightarrow> v = w"
  using from_to_be_bytes by metis

text \<open>The length that \<open>len as u32\<close> keeps; it is the length for all frames below 4 GiB.\<close>

lemma unat_of_length: "length p < 2 ^ 32 \<Longrightarrow> unat (of_nat (length p) :: u32) = length p"
  by (simp add: unat_of_nat)

section \<open>The daemon's codec\<close>

definition encode_frame :: "bytes \<Rightarrow> bytes" where
  "encode_frame payload = to_be_bytes (of_nat (length payload)) @ payload"

definition protocol_error :: "string \<Rightarrow> ImagodError" where
  "protocol_error message = new_error BadRequest ''protocol'' message"

text \<open>The loop of \<open>decode_frame_ranges\<close>; the four-byte slice always converts to an array.\<close>

function decode_ranges_loop :: "bytes \<Rightarrow> nat \<Rightarrow> (nat \<times> nat) list \<Rightarrow> (nat \<times> nat) list result" where
  "decode_ranges_loop buf offset out =
     (if offset < length buf then
        if length buf - offset < 4 then Inl (protocol_error ''truncated frame header'')
        else let len = unat (from_be_bytes (take 4 (drop offset buf))); offset' = offset + 4 in
          if length buf - offset' < len then Inl (protocol_error ''truncated frame payload'')
          else decode_ranges_loop buf (offset' + len) (out @ [(offset', offset' + len)])
      else Inr out)"
  by pat_completeness auto

termination
  by (relation "measure (\<lambda>(buf, offset, out). length buf - offset)") auto

definition decode_frame_ranges :: "bytes \<Rightarrow> (nat \<times> nat) list result" where
  "decode_frame_ranges buf = decode_ranges_loop buf 0 []"

definition slice :: "bytes \<Rightarrow> nat \<times> nat \<Rightarrow> bytes" where
  "slice buf r = take (snd r - fst r) (drop (fst r) buf)"

definition decode_frame_slices :: "bytes \<Rightarrow> bytes list result" where
  "decode_frame_slices buf =
     and_then (decode_frame_ranges buf) (\<lambda>ranges. Inr (map (slice buf) ranges))"

definition decode_frames :: "bytes \<Rightarrow> bytes list result" where
  "decode_frames buf = and_then (decode_frame_slices buf) (\<lambda>frames. Inr frames)"

section \<open>The copying codecs\<close>

text \<open>
  The client and the remote calls have the same loop and differ in the error they build, which
  is the first argument.
\<close>

function decode_frames_loop :: "(string \<Rightarrow> 'e) \<Rightarrow> bytes \<Rightarrow> nat \<Rightarrow> bytes list \<Rightarrow> 'e + bytes list" where
  "decode_frames_loop err buf offset out =
     (if offset < length buf then
        if length buf - offset < 4 then Inl (err ''truncated frame header'')
        else let len = unat (from_be_bytes (take 4 (drop offset buf))); offset' = offset + 4 in
          if length buf - offset' < len then Inl (err ''truncated frame payload'')
          else decode_frames_loop err buf (offset' + len) (out @ [take len (drop offset' buf)])
      else Inr out)"
  by pat_completeness auto

termination
  by (relation "measure (\<lambda>(err, buf, offset, out). length buf - offset)") auto

declare decode_ranges_loop.simps [simp del] decode_frames_loop.simps [simp del]

definition cli_encode_frame :: "bytes \<Rightarrow> bytes" where
  "cli_encode_frame payload = to_be_bytes (of_nat (length payload)) @ payload"

definition cli_decode_frames :: "bytes \<Rightarrow> string + bytes list" where
  "cli_decode_frames buf = decode_frames_loop (\<lambda>message. message) buf 0 []"

definition remote_error :: "ErrorCode \<Rightarrow> string \<Rightarrow> ImagodError" where
  "remote_error code message = new_error code ''service.control.remote_rpc'' message"

definition remote_encode_frame :: "bytes \<Rightarrow> bytes" where
  "remote_encode_frame payload = to_be_bytes (of_nat (length payload)) @ payload"

definition remote_decode_frames :: "bytes \<Rightarrow> bytes list result" where
  "remote_decode_frames buf = decode_frames_loop (remote_error BadRequest) buf 0 []"

section \<open>What a decoder accepts\<close>

definition fits_u32 :: "bytes \<Rightarrow> bool" where
  "fits_u32 p \<longleftrightarrow> length p < 2 ^ 32"

lemma length_encode_frame [simp]: "length (encode_frame p) = 4 + length p"
  by (simp add: encode_frame_def)

lemma drop_header: "drop offset buf = encode_frame p @ rest \<Longrightarrow>
    take 4 (drop offset buf) = to_be_bytes (of_nat (length p)) \<and>
    drop (offset + 4) buf = p @ rest"
  by (simp add: encode_frame_def) (metis add.commute drop_drop length_to_be_bytes append_eq_conv_conj append.assoc)

lemma frame_at:
  assumes "4 \<le> length bs" "unat (from_be_bytes (take 4 bs)) \<le> length bs - 4"
  defines "len \<equiv> unat (from_be_bytes (take 4 bs))"
  shows "bs = encode_frame (take len (drop 4 bs)) @ drop (4 + len) bs"
    and "fits_u32 (take len (drop 4 bs))"
proof -
  have len: "length (take len (drop 4 bs)) = len" using assms by simp
  have "to_be_bytes (of_nat len) = take 4 bs"
    using assms(1) by (simp add: len_def to_from_be_bytes)
  then have "encode_frame (take len (drop 4 bs)) = take 4 bs @ take len (drop 4 bs)"
    by (simp only: encode_frame_def len)
  then show "bs = encode_frame (take len (drop 4 bs)) @ drop (4 + len) bs"
    by (simp add: add.commute [of 4] flip: drop_drop)
  have "len < 2 ^ 32" unfolding len_def using unsigned_less [of "from_be_bytes (take 4 bs)"] by simp
  then show "fits_u32 (take len (drop 4 bs))" by (simp add: fits_u32_def len)
qed

lemma decode_frames_loop_complete:
  assumes "drop offset buf = concat (map encode_frame ps)" "list_all fits_u32 ps" "offset \<le> length buf"
  shows "decode_frames_loop err buf offset out = Inr (out @ ps)"
  using assms
proof (induction ps arbitrary: offset out)
  case Nil
  then show ?case by (simp add: decode_frames_loop.simps)
next
  case (Cons p ps)
  note at = drop_header [OF Cons.prems(1) [unfolded list.map concat.simps]]
  have rest: "drop (offset + 4 + length p) buf = concat (map encode_frame ps)"
    using at by (metis add.commute append_eq_conv_conj drop_drop)
  have len: "unat (of_nat (length p) :: u32) = length p"
    using Cons.prems(2) by (simp add: fits_u32_def unat_of_length)
  have size: "length buf - offset = 4 + length p + length (concat (map encode_frame ps))"
    using arg_cong [OF Cons.prems(1), of length] by simp
  then have more: "offset + 4 + length p \<le> length buf" by linarith
  show ?case
    using size at len more Cons.IH [OF rest _ more] Cons.prems(2)
    by (subst decode_frames_loop.simps) (simp add: Let_def)
qed

lemma decode_frames_loop_sound:
  assumes "decode_frames_loop err buf offset out = Inr fs" "offset \<le> length buf"
  shows "\<exists>ps. fs = out @ ps \<and> drop offset buf = concat (map encode_frame ps) \<and> list_all fits_u32 ps"
  using assms
proof (induction err buf offset out rule: decode_frames_loop.induct)
  case (1 err buf offset out)
  show ?case
  proof (cases "offset < length buf")
    case False
    then show ?thesis using "1.prems" by (auto simp: decode_frames_loop.simps intro: exI [of _ "[]"])
  next
    case True
    define len where "len = unat (from_be_bytes (take 4 (drop offset buf)))"
    have small: "\<not> length buf - offset < 4" and fits: "\<not> length buf - (offset + 4) < len"
      and rec: "decode_frames_loop err buf (offset + 4 + len) (out @ [take len (drop (offset + 4) buf)]) = Inr fs"
      using "1.prems"(1) True
      by (subst (asm) decode_frames_loop.simps; simp add: Let_def len_def split: if_splits)+
    note at = frame_at [of "drop offset buf", folded len_def]
    have "offset + 4 + len \<le> length buf" using fits small by linarith
    from "1.IH" [OF True small len_def refl fits rec this]
    obtain ps where ps: "fs = (out @ [take len (drop (offset + 4) buf)]) @ ps"
        "drop (offset + 4 + len) buf = concat (map encode_frame ps)" "list_all fits_u32 ps" by blast
    have "drop offset buf = encode_frame (take len (drop (offset + 4) buf)) @ drop (offset + 4 + len) buf"
      using at(1) small fits by (simp add: add.commute add.left_commute)
    moreover have "fits_u32 (take len (drop (offset + 4) buf))"
      using at(2) small fits by (simp add: add.commute)
    ultimately show ?thesis using ps by (intro exI [of _ "take len (drop (offset + 4) buf) # ps"]) simp
  qed
qed

lemma decode_frames_loop_iff:
  "decode_frames_loop err buf 0 [] = Inr ps \<longleftrightarrow>
     buf = concat (map encode_frame ps) \<and> list_all fits_u32 ps"
  using decode_frames_loop_complete [of 0 buf ps err "[]"] decode_frames_loop_sound [of err buf 0 "[]" ps]
  by auto

text \<open>The ranges of the daemon's decoder are the frames the copying loop collects.\<close>

lemma slice_pair: "slice buf (i, i + len) = take len (drop i buf)"
  by (simp add: slice_def)

lemma decode_ranges_loop_slices:
  "and_then (decode_ranges_loop buf offset out) (\<lambda>ranges. Inr (map (slice buf) ranges)) =
     decode_frames_loop protocol_error buf offset (map (slice buf) out)"
proof (induction buf offset out rule: decode_ranges_loop.induct)
  case (1 buf offset out)
  then show ?case
    by (subst decode_ranges_loop.simps, subst decode_frames_loop.simps)
      (auto simp: Let_def slice_pair)
qed

lemma decode_frame_slices_loop:
  "decode_frame_slices buf = decode_frames_loop protocol_error buf 0 []"
  using decode_ranges_loop_slices [of buf 0 "[]"]
  by (simp add: decode_frame_slices_def decode_frame_ranges_def)

lemma decode_frames_loop_error:
  "decode_frames_loop err buf offset out = Inl e \<Longrightarrow>
     e \<in> {err ''truncated frame header'', err ''truncated frame payload''}"
proof (induction err buf offset out rule: decode_frames_loop.induct)
  case (1 err buf offset out)
  then show ?case by (subst (asm) (2) decode_frames_loop.simps) (auto simp: Let_def split: if_splits)
qed

section \<open>The interface of a codec\<close>

text \<open>
  What two endpoints rely on: the decoder accepts exactly the concatenations of encoded frames
  below 4 GiB, and returns their payloads in order.
\<close>

locale frame_codec =
  fixes enc :: "bytes \<Rightarrow> bytes" and dec :: "bytes \<Rightarrow> 'e + bytes list"
  assumes dec_iff: "dec buf = Inr ps \<longleftrightarrow> buf = concat (map enc ps) \<and> list_all fits_u32 ps"
    and prefix_free: "fits_u32 p \<Longrightarrow> fits_u32 q \<Longrightarrow> enc p @ x = enc q @ y \<Longrightarrow> p = q \<and> x = y"
begin

lemma round_trip: "list_all fits_u32 ps \<Longrightarrow> dec (concat (map enc ps)) = Inr ps"
  by (simp add: dec_iff)

lemma single_frame: "dec buf = Inr [p] \<longleftrightarrow> buf = enc p \<and> fits_u32 p"
  by (simp add: dec_iff)

lemma no_frame: "dec buf = Inr [] \<longleftrightarrow> buf = []"
  by (simp add: dec_iff)

lemma enc_nonempty: "fits_u32 p \<Longrightarrow> enc p \<noteq> []"
  using round_trip [of "[p]"] no_frame [of "[]"] by auto

text \<open>A stream that is cut inside a frame is refused as a whole.\<close>

lemma cut_is_no_sequence:
  assumes "list_all fits_u32 ps" "fits_u32 p" "0 < n" "n < length (enc p)" "list_all fits_u32 qs"
  shows "concat (map enc ps) @ take n (enc p) \<noteq> concat (map enc qs)"
  using assms(1,5)
proof (induction ps arbitrary: qs)
  case Nil
  show ?case
  proof (cases qs)
    case Nil
    then show ?thesis using assms(2-4) enc_nonempty by auto
  next
    case (Cons q qs')
    show ?thesis
    proof
      assume "concat (map enc []) @ take n (enc p) = concat (map enc qs)"
      then have "enc p @ [] = enc q @ concat (map enc qs') @ drop n (enc p)"
        using append_take_drop_id [of n "enc p"] Cons by (simp del: append_take_drop_id)
      then have "drop n (enc p) = []"
        using prefix_free [of p q "[]" "concat (map enc qs') @ drop n (enc p)"] assms(2) Cons Nil.prems by simp
      then show False using assms(4) by simp
    qed
  qed
next
  case (Cons a ps)
  show ?case
  proof (cases qs)
    case Nil
    then show ?thesis using Cons.prems enc_nonempty by simp
  next
    case (Cons q qs')
    then show ?thesis
      using Cons.IH [of qs'] Cons.prems
        prefix_free [of a q "concat (map enc ps) @ take n (enc p)" "concat (map enc qs')"] by auto
  qed
qed

lemma rejects_truncated:
  assumes "list_all fits_u32 ps" "fits_u32 p" "0 < n" "n < length (enc p)"
  shows "\<not> is_ok (dec (concat (map enc ps) @ take n (enc p)))"
  using cut_is_no_sequence [OF assms] by (auto simp: is_ok_iff dec_iff)

end

lemma encode_frame_prefix_free:
  assumes "fits_u32 p" "fits_u32 q" "encode_frame p @ x = encode_frame q @ y"
  shows "p = q \<and> x = y"
proof -
  have "to_be_bytes (of_nat (length p)) = to_be_bytes (of_nat (length q))" "p @ x = q @ y"
    using assms(3) by (simp_all add: encode_frame_def append_eq_append_conv)
  then have "unat (of_nat (length p) :: u32) = unat (of_nat (length q) :: u32)"
    by (simp only: to_be_bytes_inject)
  then have "length p = length q"
    using assms(1,2) by (simp only: fits_u32_def unat_of_length)
  then show ?thesis using \<open>p @ x = q @ y\<close> by simp
qed

lemma encoders_agree: "cli_encode_frame = encode_frame" "remote_encode_frame = encode_frame"
  by (simp_all add: fun_eq_iff encode_frame_def cli_encode_frame_def remote_encode_frame_def)

interpretation daemon: frame_codec encode_frame decode_frame_slices
proof unfold_locales
  show "decode_frame_slices buf = Inr ps \<longleftrightarrow> buf = concat (map encode_frame ps) \<and> list_all fits_u32 ps" for buf ps
    by (simp only: decode_frame_slices_loop decode_frames_loop_iff)
  show "p = q \<and> x = y" if "fits_u32 p" "fits_u32 q" "encode_frame p @ x = encode_frame q @ y" for p q x y
    by (rule encode_frame_prefix_free) (use that in \<open>simp_all only: encoders_agree\<close>)
qed

interpretation client: frame_codec cli_encode_frame cli_decode_frames
proof unfold_locales
  show "cli_decode_frames buf = Inr ps \<longleftrightarrow> buf = concat (map cli_encode_frame ps) \<and> list_all fits_u32 ps" for buf ps
    by (simp only: cli_decode_frames_def encoders_agree decode_frames_loop_iff)
  show "p = q \<and> x = y" if "fits_u32 p" "fits_u32 q" "cli_encode_frame p @ x = cli_encode_frame q @ y" for p q x y
    by (rule encode_frame_prefix_free) (use that in \<open>simp_all only: encoders_agree\<close>)
qed

interpretation peer: frame_codec remote_encode_frame remote_decode_frames
proof unfold_locales
  show "remote_decode_frames buf = Inr ps \<longleftrightarrow> buf = concat (map remote_encode_frame ps) \<and> list_all fits_u32 ps" for buf ps
    by (simp only: remote_decode_frames_def encoders_agree decode_frames_loop_iff)
  show "p = q \<and> x = y" if "fits_u32 p" "fits_u32 q" "remote_encode_frame p @ x = remote_encode_frame q @ y" for p q x y
    by (rule encode_frame_prefix_free) (use that in \<open>simp_all only: encoders_agree\<close>)
qed

section \<open>Properties\<close>

text \<open>
  C32: every endpoint decodes what every other endpoint encodes. The three decoders accept the
  same buffers with the same frames, and these are exactly the buffers that some encoder
  produces from payloads below 4 GiB: decoding loses and invents nothing.
\<close>

theorem codecs_agree:
  "(decode_frames buf = Inr ps) = (buf = concat (map cli_encode_frame ps) \<and> list_all fits_u32 ps) \<and>
   (cli_decode_frames buf = Inr ps) = (buf = concat (map encode_frame ps) \<and> list_all fits_u32 ps) \<and>
   (remote_decode_frames buf = Inr ps) = (buf = concat (map encode_frame ps) \<and> list_all fits_u32 ps) \<and>
   (decode_frames buf = Inr ps) = (buf = concat (map remote_encode_frame ps) \<and> list_all fits_u32 ps)"
  using daemon.dec_iff [of buf ps] client.dec_iff [of buf ps] peer.dec_iff [of buf ps]
  by (simp add: decode_frames_def encoders_agree)

text \<open>
  A stream that ends inside a frame is refused as a bad request, by the error that names
  the truncated part; the complete frames before the cut are not delivered.
\<close>

theorem truncated_stream_refused:
  assumes "list_all fits_u32 ps" and "fits_u32 p" and "0 < n" and "n < length (encode_frame p)"
  shows "\<exists>m \<in> {''truncated frame header'', ''truncated frame payload''}.
    decode_frames (concat (map encode_frame ps) @ take n (encode_frame p)) = Inl (protocol_error m)"
proof -
  obtain e where e: "decode_frame_slices (concat (map encode_frame ps) @ take n (encode_frame p)) = Inl e"
    using daemon.rejects_truncated [OF assms]
    by (cases "decode_frame_slices (concat (map encode_frame ps) @ take n (encode_frame p))") auto
  then show ?thesis
    using decode_frames_loop_error [of protocol_error _ 0 "[]" e]
    by (auto simp: decode_frames_def decode_frame_slices_loop)
qed

theorem truncated_stream_refused_witness:
  "\<exists>m \<in> {''truncated frame header'', ''truncated frame payload''}.
     decode_frames (concat (map encode_frame [[1, 2]]) @ take 5 (encode_frame [3, 4, 5])) =
       Inl (protocol_error m)"
  by (rule truncated_stream_refused) (simp_all add: fits_u32_def)

end
