(* ===== verification/Framed_Streams.thy ===== *)
theory Framed_Streams
  imports Frame_Codec
begin

text \<open>
  The streams that carry frames. A request is a frame followed by an empty frame on the local
  control socket and on standard input of \<^verbatim>\<open>imagod proxy-stdio\<close>; a response is a sequence of
  frames up to the end of the stream on the socket, and up to an empty frame on standard
  output of the proxy. Modelled are the readers of the daemon
  (\<^verbatim>\<open>imagod-server/src/protocol_handler/session_loop.rs\<close>), of the proxy
  (\<^verbatim>\<open>imagod/src/lib.rs\<close>), of the client (\<^verbatim>\<open>imago-cli/src/commands/deploy/mod.rs\<close>) and of the
  manager-runner sockets (\<^verbatim>\<open>imagod-ipc/src/ipc/dbus_p2p.rs\<close>).
\<close>

section \<open>Readers\<close>

text \<open>
  A reader has the bytes that will still arrive and how the stream ends after them: closed by
  the peer or broken, each with the text the operating system gives for it.
\<close>

datatype StreamEnd = Eof string | Broken string

type_synonym reader = "bytes \<times> StreamEnd"

datatype IoError = UnexpectedEof string | OtherIo string

definition read_exact :: "nat \<Rightarrow> reader \<Rightarrow> IoError + bytes \<times> reader" where
  "read_exact n recv =
     (if n \<le> length (fst recv) then Inr (take n (fst recv), (drop n (fst recv), snd recv))
      else Inl (case snd recv of Eof m \<Rightarrow> UnexpectedEof m | Broken m \<Rightarrow> OtherIo m))"

fun io_message :: "IoError \<Rightarrow> string" where
  "io_message (UnexpectedEof m) = m"
| "io_message (OtherIo m) = m"

definition usize_checked_add :: "nat \<Rightarrow> nat \<Rightarrow> nat option" where
  "usize_checked_add a b = (if a + b \<le> usize_max then Some (a + b) else None)"

definition STDIO_MESSAGE_TERMINATOR :: bytes where
  "STDIO_MESSAGE_TERMINATOR = to_be_bytes 0"

lemma read_exact_Inr:
  "read_exact n recv = Inr (bs, recv') \<longleftrightarrow>
     n \<le> length (fst recv) \<and> bs = take n (fst recv) \<and> recv' = (drop n (fst recv), snd recv)"
  by (auto simp: read_exact_def)

lemma read_exact_append [simp]: "length bs = n \<Longrightarrow> read_exact n (bs @ rest, fin) = Inr (bs, (rest, fin))"
  by (simp add: read_exact_def)

lemma length_terminator [simp]: "length STDIO_MESSAGE_TERMINATOR = 4"
  by (simp add: STDIO_MESSAGE_TERMINATOR_def)

lemma from_be_bytes_terminator [simp]: "from_be_bytes STDIO_MESSAGE_TERMINATOR = 0"
  by (simp add: STDIO_MESSAGE_TERMINATOR_def)

section \<open>The daemon\<close>

definition MAX_STREAM_BYTES :: nat where
  "MAX_STREAM_BYTES = 1024 * 1024 * 16"

definition stream_read_failed :: "IoError \<Rightarrow> ImagodError" where
  "stream_read_failed e = new_error BadRequest ''session.read'' (''failed to read stream: '' @ io_message e)"

definition stream_too_large :: ImagodError where
  "stream_too_large = new_error BadRequest ''session.read''
     (''stream exceeds max size '' @ decimal MAX_STREAM_BYTES @ '' bytes'')"

definition stream_read_timeout_error :: ImagodError where
  "stream_read_timeout_error = new_error OperationTimeout ''session.read'' ''stream read timed out after 30 seconds''"

text \<open>
  Reading up to the end of the stream; \<open>timed_out\<close> says that the end did not come in time.
  \<open>recv.take(limit)\<close> stops after one byte more than is allowed, before any later failure.
\<close>

definition read_stream_with_timeout :: "bool \<Rightarrow> reader \<Rightarrow> bytes result" where
  "read_stream_with_timeout timed_out recv =
     (if timed_out then Inl stream_read_timeout_error
      else let limit = MAX_STREAM_BYTES + 1; buf = take limit (fst recv) in
        case (length (fst recv) < limit, snd recv) of
          (True, Broken m) \<Rightarrow> Inl (stream_read_failed (OtherIo m))
        | _ \<Rightarrow> if MAX_STREAM_BYTES < length buf then Inl stream_too_large else Inr buf)"

function read_terminated_loop :: "reader \<Rightarrow> bytes \<Rightarrow> bytes option result \<times> reader" where
  "read_terminated_loop recv buf =
     (case read_exact 4 recv of
        Inl (UnexpectedEof m) \<Rightarrow>
          (if buf = [] then Inr None else Inl (stream_read_failed (UnexpectedEof m)), recv)
      | Inl (OtherIo m) \<Rightarrow> (Inl (stream_read_failed (OtherIo m)), recv)
      | Inr (header, recv1) \<Rightarrow>
          let frame_len = unat (from_be_bytes header) in
          if frame_len = 0 then
            (if buf = []
             then Inl (new_error BadRequest ''session.protocol''
               ''local control socket request must include one framed envelope'')
             else Inr (Some buf), recv1)
          else
            case Option.bind (usize_checked_add (length buf) (length header))
                (\<lambda>len. usize_checked_add len frame_len) of
              None \<Rightarrow> (Inl stream_too_large, recv1)
            | Some projected_len \<Rightarrow>
                if MAX_STREAM_BYTES < projected_len then (Inl stream_too_large, recv1)
                else
                  (case read_exact frame_len recv1 of
                     Inl e \<Rightarrow> (Inl (stream_read_failed e), recv1)
                   | Inr (payload, recv2) \<Rightarrow> read_terminated_loop recv2 (buf @ header @ payload)))"
  by pat_completeness auto

termination
  by (relation "measure (\<lambda>(recv, buf). length (fst recv))") (auto simp: read_exact_Inr)

definition read_terminated_stream :: "reader \<Rightarrow> bytes option result \<times> reader" where
  "read_terminated_stream recv = read_terminated_loop recv []"

definition read_terminated_stream_with_timeout :: "bool \<Rightarrow> reader \<Rightarrow> bytes option result" where
  "read_terminated_stream_with_timeout timed_out recv =
     (if timed_out then Inl stream_read_timeout_error else fst (read_terminated_stream recv))"

section \<open>The proxy\<close>

definition PROXY_STDIO_MAX_REQUEST_BYTES :: nat where
  "PROXY_STDIO_MAX_REQUEST_BYTES = 16 * 1024 * 1024"

definition proxy_too_large :: string where
  "proxy_too_large = ''proxy-stdio request exceeds max size '' @
     decimal PROXY_STDIO_MAX_REQUEST_BYTES @ '' bytes''"

definition ensure_stdio_message_growth :: "nat \<Rightarrow> nat \<Rightarrow> string + unit" where
  "ensure_stdio_message_growth current_len payload_len =
     (case usize_checked_add 4 payload_len of
        None \<Rightarrow> Inl proxy_too_large
      | Some next_frame_len \<Rightarrow>
          (case usize_checked_add current_len next_frame_len of
             None \<Rightarrow> Inl proxy_too_large
           | Some projected_len \<Rightarrow>
               if PROXY_STDIO_MAX_REQUEST_BYTES < projected_len then Inl proxy_too_large else Inr ()))"

function read_stdio_loop :: "reader \<Rightarrow> bytes \<Rightarrow> (string + bytes option) \<times> reader" where
  "read_stdio_loop input message =
     (case read_exact 4 input of
        Inl (UnexpectedEof m) \<Rightarrow>
          (if message = [] then Inr None else Inl ''proxy-stdio received a truncated frame header'', input)
      | Inl (OtherIo m) \<Rightarrow> (Inl m, input)
      | Inr (header, input1) \<Rightarrow>
          let len = unat (from_be_bytes header) in
          if len = 0 then
            (if message = [] then Inl ''proxy-stdio received an empty request'' else Inr (Some message), input1)
          else
            case ensure_stdio_message_growth (length message) len of
              Inl e \<Rightarrow> (Inl e, input1)
            | Inr _ \<Rightarrow>
                (case read_exact len input1 of
                   Inl e \<Rightarrow> (Inl (io_message e), input1)
                 | Inr (payload, input2) \<Rightarrow> read_stdio_loop input2 (message @ header @ payload)))"
  by pat_completeness auto

termination
  by (relation "measure (\<lambda>(input, message). length (fst input))") (auto simp: read_exact_Inr)

definition read_stdio_message :: "reader \<Rightarrow> (string + bytes option) \<times> reader" where
  "read_stdio_message input = read_stdio_loop input []"

declare read_terminated_loop.simps [simp del] read_stdio_loop.simps [simp del]

text \<open>
  One connection to the daemon per message. \<open>serve\<close> is what a connection yields for the bytes
  written to it: the failure to connect, write or copy, or the response up to the daemon's end
  of stream. The result has the outcome and everything written to standard output.
\<close>

lemma read_stdio_loop_shrinks:
  "read_stdio_loop input message = (Inr (Some m), input') \<Longrightarrow>
     length (fst input') < length (fst input)"
proof (induction input message rule: read_stdio_loop.induct)
  case (1 input message)
  then show ?case
    by (subst (asm) (2) read_stdio_loop.simps)
      (fastforce simp: read_exact_Inr Let_def split: sum.splits IoError.splits prod.splits if_splits)
qed

function proxy_stdio_loop :: "(bytes \<Rightarrow> string + bytes) \<Rightarrow> reader \<Rightarrow> bytes \<Rightarrow> (string + unit) \<times> bytes" where
  "proxy_stdio_loop serve input output =
     (case read_stdio_message input of
        (Inl e, input') \<Rightarrow> (Inl e, output)
      | (Inr None, input') \<Rightarrow> (Inr (), output)
      | (Inr (Some message), input') \<Rightarrow>
          (case serve (message @ STDIO_MESSAGE_TERMINATOR) of
             Inl e \<Rightarrow> (Inl e, output)
           | Inr response \<Rightarrow> proxy_stdio_loop serve input' (output @ response @ STDIO_MESSAGE_TERMINATOR)))"
  by pat_completeness auto

termination
  by (relation "measure (\<lambda>(serve, input, output). length (fst input))")
    (auto simp: read_stdio_message_def dest!: read_stdio_loop_shrinks [OF sym])

definition proxy_stdio_streams :: "(bytes \<Rightarrow> string + bytes) \<Rightarrow> reader \<Rightarrow> (string + unit) \<times> bytes" where
  "proxy_stdio_streams serve input = proxy_stdio_loop serve input []"

declare proxy_stdio_loop.simps [simp del]

section \<open>The client\<close>

definition CLI_MAX_STREAM_BYTES :: nat where
  "CLI_MAX_STREAM_BYTES = 32 * 1024 * 1024"

definition response_too_large :: "string \<Rightarrow> string" where
  "response_too_large transport_label =
     transport_label @ '' response exceeds max size '' @ decimal CLI_MAX_STREAM_BYTES @ '' bytes''"

definition ensure_stdio_response_frame_len_with_label :: "nat \<Rightarrow> string \<Rightarrow> string + unit" where
  "ensure_stdio_response_frame_len_with_label len transport_label =
     (if CLI_MAX_STREAM_BYTES < len
      then Inl (transport_label @ '' response frame exceeds max size '' @ decimal CLI_MAX_STREAM_BYTES @ '' bytes'')
      else Inr ())"

definition ensure_stdio_response_message_growth_with_label :: "nat \<Rightarrow> nat \<Rightarrow> string \<Rightarrow> string + unit" where
  "ensure_stdio_response_message_growth_with_label current_len payload_len transport_label =
     and_then (ensure_stdio_response_frame_len_with_label payload_len transport_label) (\<lambda>_.
       case usize_checked_add 4 payload_len of
         None \<Rightarrow> Inl (response_too_large transport_label)
       | Some next_frame_len \<Rightarrow>
           (case usize_checked_add current_len next_frame_len of
              None \<Rightarrow> Inl (response_too_large transport_label)
            | Some projected_len \<Rightarrow>
                if CLI_MAX_STREAM_BYTES < projected_len then Inl (response_too_large transport_label)
                else Inr ()))"

function read_stdio_response_loop :: "string \<Rightarrow> reader \<Rightarrow> bytes \<Rightarrow> (string + bytes) \<times> reader" where
  "read_stdio_response_loop label recv out =
     (case read_exact 4 recv of
        Inl (UnexpectedEof m) \<Rightarrow>
          (Inl (if out = [] then label @ '' closed before returning a response''
                else label @ '' closed in the middle of a response''), recv)
      | Inl (OtherIo m) \<Rightarrow> (Inl m, recv)
      | Inr (header, recv1) \<Rightarrow>
          let len = unat (from_be_bytes header) in
          if len = 0 then (Inr out, recv1)
          else
            case ensure_stdio_response_message_growth_with_label (length out) len label of
              Inl e \<Rightarrow> (Inl e, recv1)
            | Inr _ \<Rightarrow>
                (case read_exact len recv1 of
                   Inl e \<Rightarrow> (Inl (io_message e), recv1)
                 | Inr (payload, recv2) \<Rightarrow>
                     read_stdio_response_loop label recv2 (out @ cli_encode_frame payload)))"
  by pat_completeness auto

termination
  by (relation "measure (\<lambda>(label, recv, out). length (fst recv))") (auto simp: read_exact_Inr)

definition read_stdio_response_message_with_label :: "string \<Rightarrow> reader \<Rightarrow> (string + bytes) \<times> reader" where
  "read_stdio_response_message_with_label label recv = read_stdio_response_loop label recv []"

text \<open>
  The direct socket: the header and the payload are collected by repeated \<open>read\<close> calls, whose
  result does not depend on how the bytes are split over the calls. The stream ends at the
  end of file between two frames, or at an empty frame.
\<close>

definition read_next_direct_socket_response_frame_len_with_label ::
    "string \<Rightarrow> reader \<Rightarrow> (string + nat option) \<times> reader" where
  "read_next_direct_socket_response_frame_len_with_label label recv =
     (case read_exact 4 recv of
        Inl (UnexpectedEof m) \<Rightarrow>
          (if fst recv = [] then Inr None else Inl (label @ '' closed in the middle of a response''), recv)
      | Inl (OtherIo m) \<Rightarrow> (Inl m, recv)
      | Inr (header, recv1) \<Rightarrow>
          let len = unat (from_be_bytes header) in
          if len = 0 then (Inr None, recv1)
          else (and_then (ensure_stdio_response_frame_len_with_label len label) (\<lambda>_. Inr (Some len)), recv1))"

definition read_direct_socket_response_payload_with_label ::
    "string \<Rightarrow> nat \<Rightarrow> reader \<Rightarrow> (string + bytes) \<times> reader" where
  "read_direct_socket_response_payload_with_label label len recv =
     (case read_exact len recv of
        Inl (UnexpectedEof m) \<Rightarrow> (Inl (label @ '' closed in the middle of a response''), recv)
      | Inl (OtherIo m) \<Rightarrow> (Inl m, recv)
      | Inr (payload, recv1) \<Rightarrow> (Inr payload, recv1))"

function read_direct_socket_response_loop :: "string \<Rightarrow> reader \<Rightarrow> bytes \<Rightarrow> string + bytes" where
  "read_direct_socket_response_loop label recv out =
     (case read_next_direct_socket_response_frame_len_with_label label recv of
        (Inl e, recv1) \<Rightarrow> Inl e
      | (Inr None, recv1) \<Rightarrow> Inr out
      | (Inr (Some payload_len), recv1) \<Rightarrow>
          (case ensure_stdio_response_message_growth_with_label (length out) payload_len label of
             Inl e \<Rightarrow> Inl e
           | Inr _ \<Rightarrow>
               (case read_direct_socket_response_payload_with_label label payload_len recv1 of
                  (Inl e, recv2) \<Rightarrow> Inl e
                | (Inr payload, recv2) \<Rightarrow>
                    read_direct_socket_response_loop label recv2 (out @ cli_encode_frame payload))))"
  by pat_completeness auto

termination
  by (relation "measure (\<lambda>(label, recv, out). length (fst recv))")
    (auto simp: read_next_direct_socket_response_frame_len_with_label_def
      read_direct_socket_response_payload_with_label_def read_exact_Inr Let_def
      split: sum.splits IoError.splits if_splits)

definition read_direct_socket_response_message_with_label :: "string \<Rightarrow> reader \<Rightarrow> string + bytes" where
  "read_direct_socket_response_message_with_label label recv = read_direct_socket_response_loop label recv []"

declare read_stdio_response_loop.simps [simp del] read_direct_socket_response_loop.simps [simp del]

section \<open>One request per connection\<close>

text \<open>
  The CBOR decoders come from a library; they are parameters here. \<open>'v\<close> is the type of JSON
  values a payload is decoded to.
\<close>

record EnvelopeHeader =
  eh_message_type :: MessageType
  eh_request_id :: uuid
  eh_correlation_id :: uuid

record 'v Cbor =
  cbor_header :: "bytes \<Rightarrow> string + EnvelopeHeader"
  cbor_push :: "bytes \<Rightarrow> string + ArtifactPushRequest ProtocolEnvelope"
  cbor_envelope :: "bytes \<Rightarrow> string + 'v ProtocolEnvelope"

record 'v ParsedSingleRequestEnvelope =
  pse_request :: "'v ProtocolEnvelope"
  pse_typed_push :: "ArtifactPushRequest option"

definition invalid_frame_payload :: "string \<Rightarrow> ImagodError" where
  "invalid_frame_payload e = bad_request ''protocol'' (''invalid frame payload: '' @ e)"

definition ensure_non_nil_envelope_ids :: "uuid \<Rightarrow> uuid \<Rightarrow> unit result" where
  "ensure_non_nil_envelope_ids request_id correlation_id =
     (if request_id = 0 then Inl (bad_request ''protocol'' ''request_id must not be nil UUID'')
      else if correlation_id = 0 then Inl (bad_request ''protocol'' ''correlation_id must not be nil UUID'')
      else Inr ())"

definition parse_request_frame :: "'v Cbor \<Rightarrow> 'v \<Rightarrow> bytes \<Rightarrow> 'v ParsedSingleRequestEnvelope result" where
  "parse_request_frame cbor null frame =
     and_then (map_err invalid_frame_payload (cbor_header cbor frame)) (\<lambda>header.
     and_then (ensure_non_nil_envelope_ids (eh_request_id header) (eh_correlation_id header)) (\<lambda>_.
       if eh_message_type header = ArtifactPush then
         and_then (map_err invalid_frame_payload (cbor_push cbor frame)) (\<lambda>typed.
           Inr \<lparr>pse_request = \<lparr>env_message_type = env_message_type typed,
                   env_request_id = env_request_id typed, env_correlation_id = env_correlation_id typed,
                   env_payload = null, env_error = env_error typed\<rparr>,
                pse_typed_push = Some (env_payload typed)\<rparr>)
       else
         and_then (map_err invalid_frame_payload (cbor_envelope cbor frame)) (\<lambda>request.
         and_then (ensure_non_nil_envelope_ids (env_request_id request) (env_correlation_id request)) (\<lambda>_.
           Inr \<lparr>pse_request = request, pse_typed_push = None\<rparr>))))"

definition parse_single_request_envelope ::
    "'v Cbor \<Rightarrow> 'v \<Rightarrow> bytes \<Rightarrow> 'v ParsedSingleRequestEnvelope option result" where
  "parse_single_request_envelope cbor null buf =
     and_then (decode_frame_slices buf) (\<lambda>frames.
       case frames of
         [] \<Rightarrow> Inr None
       | [frame] \<Rightarrow> and_then (parse_request_frame cbor null frame) (\<lambda>parsed. Inr (Some parsed))
       | _ \<Rightarrow> Inl (bad_request ''session.protocol''
                ''multiple request envelopes on a single stream are not allowed''))"

definition read_single_request_envelope ::
    "'v Cbor \<Rightarrow> 'v \<Rightarrow> bool \<Rightarrow> reader \<Rightarrow> 'v ParsedSingleRequestEnvelope option result" where
  "read_single_request_envelope cbor null timed_out recv =
     and_then (read_stream_with_timeout timed_out recv) (parse_single_request_envelope cbor null)"

definition read_single_local_request_envelope ::
    "'v Cbor \<Rightarrow> 'v \<Rightarrow> bool \<Rightarrow> reader \<Rightarrow> 'v ParsedSingleRequestEnvelope option result" where
  "read_single_local_request_envelope cbor null timed_out recv =
     and_then (read_terminated_stream_with_timeout timed_out recv) (\<lambda>buf.
       case buf of Some b \<Rightarrow> parse_single_request_envelope cbor null b | None \<Rightarrow> Inr None)"

text \<open>
  The bytes a connection answers with. \<open>handle\<close> gives the envelopes that
  \<open>handle_parsed_request\<close> writes, in their CBOR form and in order, and \<open>failure\<close> the error
  envelope for a request that cannot be read.
\<close>

definition write_envelopes :: "bytes list \<Rightarrow> bytes" where
  "write_envelopes payloads = concat (map encode_frame payloads)"

definition respond ::
    "(ImagodError \<Rightarrow> bytes) \<Rightarrow> ('v ParsedSingleRequestEnvelope \<Rightarrow> bytes list)
       \<Rightarrow> 'v ParsedSingleRequestEnvelope option result \<Rightarrow> bytes" where
  "respond failure handle parsed =
     (case parsed of
        Inl err \<Rightarrow> write_envelopes [failure err]
      | Inr None \<Rightarrow> []
      | Inr (Some request) \<Rightarrow> write_envelopes (handle request))"

definition run_stream_io ::
    "'v Cbor \<Rightarrow> 'v \<Rightarrow> (ImagodError \<Rightarrow> bytes) \<Rightarrow> ('a \<Rightarrow> 'v ParsedSingleRequestEnvelope \<Rightarrow> bytes list)
       \<Rightarrow> 'a \<Rightarrow> bool \<Rightarrow> reader \<Rightarrow> bytes" where
  "run_stream_io cbor null failure handle auth_context timed_out recv =
     respond failure (handle auth_context) (read_single_request_envelope cbor null timed_out recv)"

text \<open>A peer that is not authorized gets no answer; the connection is dropped.\<close>

definition run_local_stream ::
    "'v Cbor \<Rightarrow> 'v \<Rightarrow> (ImagodError \<Rightarrow> bytes) \<Rightarrow> ('a \<Rightarrow> 'v ParsedSingleRequestEnvelope \<Rightarrow> bytes list)
       \<Rightarrow> 'a result \<Rightarrow> bool \<Rightarrow> reader \<Rightarrow> bytes" where
  "run_local_stream cbor null failure handle resolved timed_out recv =
     (case resolved of
        Inl err \<Rightarrow> []
      | Inr auth_context \<Rightarrow>
          respond failure (handle auth_context) (read_single_local_request_envelope cbor null timed_out recv))"

section \<open>Manager and runner sockets\<close>

definition MAX_FRAME_BYTES :: nat where
  "MAX_FRAME_BYTES = 1024 * 1024 * 8"

definition ipc_error :: "string \<Rightarrow> ImagodError" where
  "ipc_error message = new_error BadRequest ''ipc.dbus_p2p'' message"

text \<open>The bytes written to the socket, or the refusal; \<open>u32::try_from\<close> cannot fail below the limit.\<close>

definition write_frame :: "bytes \<Rightarrow> bytes result" where
  "write_frame payload =
     (let len = length payload in
      if MAX_FRAME_BYTES < len
      then Inl (ipc_error (''ipc frame too large: '' @ decimal len @ '' bytes''))
      else if 2 ^ 32 \<le> len then Inl (ipc_error (''ipc frame size overflow: '' @ decimal len))
      else Inr (to_be_bytes (of_nat len) @ payload))"

definition read_frame :: "reader \<Rightarrow> (bytes \<times> reader) result" where
  "read_frame stream =
     and_then (map_err (\<lambda>e. ipc_error (''ipc length read failed: '' @ io_message e)) (read_exact 4 stream)) (\<lambda>(len_buf, stream1).
       let len = unat (from_be_bytes len_buf) in
       if MAX_FRAME_BYTES < len
       then Inl (ipc_error (''ipc frame too large: '' @ decimal len @ '' bytes''))
       else map_err (\<lambda>e. ipc_error (''ipc payload read failed: '' @ io_message e)) (read_exact len stream1))"

text \<open>The blocking variants of the runner, with their validators and CBOR coders as arguments.\<close>

definition write_message_sync ::
    "('m \<Rightarrow> string + unit) \<Rightarrow> ('m \<Rightarrow> string + bytes) \<Rightarrow> 'm \<Rightarrow> string + bytes" where
  "write_message_sync validate to_cbor message =
     and_then (map_err (\<lambda>e. ''ipc request validation failed: '' @ e) (validate message)) (\<lambda>_.
     and_then (map_err (\<lambda>e. ''ipc message encode failed: '' @ e) (to_cbor message)) (\<lambda>payload.
       if MAX_FRAME_BYTES < length payload
       then Inl (''ipc frame too large: '' @ decimal (length payload) @ '' bytes'')
       else if 2 ^ 32 \<le> length payload
       then Inl (''ipc frame size overflow: '' @ decimal (length payload) @ '' bytes'')
       else Inr (to_be_bytes (of_nat (length payload)) @ payload)))"

definition read_message_sync ::
    "('m \<Rightarrow> string + unit) \<Rightarrow> (bytes \<Rightarrow> string + 'm) \<Rightarrow> reader \<Rightarrow> string + 'm" where
  "read_message_sync validate from_cbor stream =
     and_then (map_err (\<lambda>e. ''ipc length read failed: '' @ io_message e) (read_exact 4 stream)) (\<lambda>(len_buf, stream1).
       let len = unat (from_be_bytes len_buf) in
       if MAX_FRAME_BYTES < len then Inl (''ipc frame too large: '' @ decimal len @ '' bytes'')
       else
         and_then (map_err (\<lambda>e. ''ipc payload read failed: '' @ io_message e) (read_exact len stream1)) (\<lambda>(payload, stream2).
         and_then (map_err (\<lambda>e. ''ipc message decode failed: '' @ e) (from_cbor payload)) (\<lambda>response.
         and_then (map_err (\<lambda>e. ''ipc response validation failed: '' @ e) (validate response)) (\<lambda>_.
           Inr response))))"

section \<open>What the readers have in common\<close>

definition frame_ok :: "bytes \<Rightarrow> bool" where
  "frame_ok p \<longleftrightarrow> p \<noteq> [] \<and> fits_u32 p"

definition wire :: "bytes list \<Rightarrow> bytes" where
  "wire ps = concat (map encode_frame ps)"

lemma wire_simps [simp]: "wire [] = []" "wire (p # ps) = encode_frame p @ wire ps"
    "wire (ps @ qs) = wire ps @ wire qs"
  by (simp_all add: wire_def)

lemma wire_nonempty: "ps \<noteq> [] \<Longrightarrow> wire ps \<noteq> []"
  by (cases ps) (auto simp: encode_frame_def to_be_bytes_def)

lemma frame_header:
  assumes "frame_ok p"
  shows "unat (from_be_bytes (to_be_bytes (of_nat (length p)))) = length p" "length p \<noteq> 0"
  using assms by (simp_all add: frame_ok_def fits_u32_def unat_of_length)

text \<open>
  A reader that appends complete frames to what it has, up to a limit; a sequence of frames is
  then read whole. A reader of terminated messages also stops at an empty frame.
\<close>

locale framed_reader =
  fixes reading :: "reader \<Rightarrow> bytes \<Rightarrow> 'r" and limit :: nat
  assumes reads_frame: "frame_ok p \<Longrightarrow> length buf + 4 + length p \<le> limit \<Longrightarrow>
    reading (encode_frame p @ rest, fin) buf = reading (rest, fin) (buf @ encode_frame p)"
begin

lemma reads_frames:
  "list_all frame_ok ps \<Longrightarrow> length buf + length (wire ps) \<le> limit \<Longrightarrow>
     reading (wire ps @ rest, fin) buf = reading (rest, fin) (buf @ wire ps)"
proof (induction ps arbitrary: buf)
  case (Cons p ps)
  then show ?case using reads_frame [of p buf "wire ps @ rest" fin] by simp
qed simp

end

locale terminated_reader = framed_reader +
  fixes received :: "bytes \<Rightarrow> reader \<Rightarrow> 'r" and empty_ok :: bool
  assumes reads_terminator: "buf \<noteq> [] \<or> empty_ok \<Longrightarrow>
      reading (STDIO_MESSAGE_TERMINATOR @ rest, fin) buf = received buf (rest, fin)"
    and reads_only: "reading recv buf = received m recv' \<Longrightarrow>
      m = buf \<and> (buf \<noteq> [] \<or> empty_ok) \<or>
      (\<exists>p recv2. frame_ok p \<and> fst recv = encode_frame p @ fst recv2 \<and> length buf + 4 + length p \<le> limit \<and>
         reading recv2 (buf @ encode_frame p) = received m recv')"
begin

lemma reads_message:
  assumes "list_all frame_ok ps" "ps \<noteq> [] \<or> empty_ok" "length (wire ps) \<le> limit"
  shows "reading (wire ps @ STDIO_MESSAGE_TERMINATOR @ rest, fin) [] = received (wire ps) (rest, fin)"
  using reads_frames [of ps "[]" "STDIO_MESSAGE_TERMINATOR @ rest" fin] assms
    reads_terminator [of "wire ps" rest fin] wire_nonempty [of ps] by auto

lemma returns_frames:
  "reading recv buf = received m recv' \<Longrightarrow> length buf \<le> limit \<Longrightarrow>
     \<exists>ps. m = buf @ wire ps \<and> list_all frame_ok ps \<and> (m \<noteq> [] \<or> empty_ok) \<and> length m \<le> limit"
proof (induction "length (fst recv)" arbitrary: recv buf rule: less_induct)
  case less
  from reads_only [OF less.prems(1)] show ?case
  proof (elim disjE exE conjE)
    fix p recv2
    assume p: "frame_ok p" "fst recv = encode_frame p @ fst recv2" "length buf + 4 + length p \<le> limit"
      "reading recv2 (buf @ encode_frame p) = received m recv'"
    have shorter: "length (fst recv2) < length (fst recv)" and fits: "length (buf @ encode_frame p) \<le> limit"
      using p(2,3) by simp_all
    from less.hyps [OF shorter p(4) fits] obtain ps where "m = (buf @ encode_frame p) @ wire ps"
        "list_all frame_ok ps" "m \<noteq> [] \<or> empty_ok" "length m \<le> limit" by blast
    then show ?thesis using p(1) by (intro exI [of _ "p # ps"]) simp
  qed (use less.prems(2) in \<open>auto intro: exI [of _ "[]"]\<close>)
qed

lemma returns_message:
  assumes "reading recv [] = received m recv'"
  obtains ps where "m = wire ps" "list_all frame_ok ps" "ps \<noteq> [] \<or> empty_ok" "length m \<le> limit"
proof -
  from returns_frames [OF assms] obtain ps where
    ps: "m = [] @ wire ps" "list_all frame_ok ps" "m \<noteq> [] \<or> empty_ok" "length m \<le> limit" by auto
  then show thesis using that [of ps] by (cases ps) simp_all
qed

end

lemma frame_read:
  assumes "read_exact 4 recv = Inr (header, recv1)" "unat (from_be_bytes header) \<noteq> 0"
    and "read_exact (unat (from_be_bytes header)) recv1 = Inr (payload, recv2)"
  shows "frame_ok payload" "header @ payload = encode_frame payload"
    "fst recv = encode_frame payload @ fst recv2" "length payload = unat (from_be_bytes header)"
proof -
  let ?n = "unat (from_be_bytes header)"
  have *: "header = take 4 (fst recv)" "payload = take ?n (drop 4 (fst recv))" "fst recv2 = drop (4 + ?n) (fst recv)"
      "4 \<le> length (fst recv)" "?n \<le> length (fst recv) - 4"
    using assms by (auto simp: read_exact_Inr add.commute)
  note at = frame_at [of "fst recv", folded *(1)]
  show all: "fst recv = encode_frame payload @ fst recv2" using at(1) * by simp
  show len: "length payload = ?n" using * by simp
  then have "payload \<noteq> []" using assms(2) by (metis list.size(3))
  then show "frame_ok payload" using at(2) [folded *(2)] *(4,5) by (simp add: frame_ok_def)
  have "take (4 + ?n) (fst recv) = encode_frame payload" using all len by simp
  then show "header @ payload = encode_frame payload" using *(1,2) by (metis take_add)
qed

lemmas limits = MAX_STREAM_BYTES_def PROXY_STDIO_MAX_REQUEST_BYTES_def CLI_MAX_STREAM_BYTES_def
  usize_max_def usize_checked_add_def

lemma socket_reads_only:
  assumes "read_terminated_loop recv buf = (Inr (Some m), recv')"
  shows "m = buf \<and> (buf \<noteq> [] \<or> False) \<or>
      (\<exists>p recv2. frame_ok p \<and> fst recv = encode_frame p @ fst recv2 \<and>
         length buf + 4 + length p \<le> MAX_STREAM_BYTES \<and> read_terminated_loop recv2 (buf @ encode_frame p) = (Inr (Some m), recv'))"
proof (cases "read_exact 4 recv")
  case (Inl e)
  then show ?thesis using assms
    by (subst (asm) read_terminated_loop.simps) (auto split: IoError.splits if_splits)
next
  case (Inr hr)
  then obtain header recv1 where read: "read_exact 4 recv = Inr (header, recv1)" by (cases hr) auto
  then have header: "length header = 4" by (auto simp: read_exact_Inr)
  let ?n = "unat (from_be_bytes header)"
  show ?thesis
  proof (cases "?n = 0 \<or> \<not> is_ok (read_exact ?n recv1)")
    case True
    then show ?thesis using assms read
      by (subst (asm) read_terminated_loop.simps)
        (auto simp: Let_def split: if_splits option.splits sum.splits)
  next
    case False
    then obtain payload recv2 where payload: "read_exact ?n recv1 = Inr (payload, recv2)"
      by (auto simp: is_ok_iff)
    note fr = frame_read [OF read _ payload]
    have "length buf + 4 + ?n \<le> MAX_STREAM_BYTES \<and> read_terminated_loop recv2 (buf @ encode_frame payload) = (Inr (Some m), recv')"
      using assms read payload header False fr
      by (subst (asm) read_terminated_loop.simps)
        (auto simp: Let_def usize_checked_add_def  split: sum.splits if_splits)
    then show ?thesis using fr False by (intro disjI2 exI [of _ payload] exI [of _ recv2]) simp
  qed
qed

interpretation socket: terminated_reader read_terminated_loop MAX_STREAM_BYTES "\<lambda>buf recv. (Inr (Some buf), recv)" False
proof unfold_locales
  show "read_terminated_loop (encode_frame p @ rest, fin) buf =
      read_terminated_loop (rest, fin) (buf @ encode_frame p)"
    if "frame_ok p" "length buf + 4 + length p \<le> MAX_STREAM_BYTES" for p buf rest fin
    using that frame_header [OF that(1)]
    by (subst read_terminated_loop.simps) (simp add: encode_frame_def limits)
  show "read_terminated_loop (STDIO_MESSAGE_TERMINATOR @ rest, fin) buf = (Inr (Some buf), (rest, fin))"
    if "buf \<noteq> [] \<or> False" for buf rest fin
    using that by (subst read_terminated_loop.simps) simp
  show "m = buf \<and> (buf \<noteq> [] \<or> False) \<or>
      (\<exists>p recv2. frame_ok p \<and> fst recv = encode_frame p @ fst recv2 \<and>
         length buf + 4 + length p \<le> MAX_STREAM_BYTES \<and> read_terminated_loop recv2 (buf @ encode_frame p) = (Inr (Some m), recv'))"
    if "read_terminated_loop recv buf = (Inr (Some m), recv')" for recv buf m recv'
    by (rule socket_reads_only [OF that])
qed

lemma proxy_reads_only:
  assumes "read_stdio_loop recv buf = (Inr (Some m), recv')"
  shows "m = buf \<and> (buf \<noteq> [] \<or> False) \<or>
      (\<exists>p recv2. frame_ok p \<and> fst recv = encode_frame p @ fst recv2 \<and>
         length buf + 4 + length p \<le> PROXY_STDIO_MAX_REQUEST_BYTES \<and> read_stdio_loop recv2 (buf @ encode_frame p) = (Inr (Some m), recv'))"
proof (cases "read_exact 4 recv")
  case (Inl e)
  then show ?thesis using assms
    by (subst (asm) read_stdio_loop.simps) (auto split: IoError.splits if_splits)
next
  case (Inr hr)
  then obtain header recv1 where read: "read_exact 4 recv = Inr (header, recv1)" by (cases hr) auto
  then have header: "length header = 4" by (auto simp: read_exact_Inr)
  let ?n = "unat (from_be_bytes header)"
  show ?thesis
  proof (cases "?n = 0 \<or> \<not> is_ok (read_exact ?n recv1)")
    case True
    then show ?thesis using assms read
      by (subst (asm) read_stdio_loop.simps)
        (auto simp: Let_def split: if_splits option.splits sum.splits)
  next
    case False
    then obtain payload recv2 where payload: "read_exact ?n recv1 = Inr (payload, recv2)"
      by (auto simp: is_ok_iff)
    note fr = frame_read [OF read _ payload]
    have "length buf + 4 + ?n \<le> PROXY_STDIO_MAX_REQUEST_BYTES \<and> read_stdio_loop recv2 (buf @ encode_frame payload) = (Inr (Some m), recv')"
      using assms read payload header False fr
      by (subst (asm) read_stdio_loop.simps)
        (auto simp: Let_def usize_checked_add_def ensure_stdio_message_growth_def split: sum.splits if_splits)
    then show ?thesis using fr False by (intro disjI2 exI [of _ payload] exI [of _ recv2]) simp
  qed
qed

interpretation proxy: terminated_reader read_stdio_loop PROXY_STDIO_MAX_REQUEST_BYTES "\<lambda>buf recv. (Inr (Some buf), recv)" False
proof unfold_locales
  show "read_stdio_loop (encode_frame p @ rest, fin) buf =
      read_stdio_loop (rest, fin) (buf @ encode_frame p)"
    if "frame_ok p" "length buf + 4 + length p \<le> PROXY_STDIO_MAX_REQUEST_BYTES" for p buf rest fin
    using that frame_header [OF that(1)]
    by (subst read_stdio_loop.simps) (simp add: encode_frame_def limits ensure_stdio_message_growth_def)
  show "read_stdio_loop (STDIO_MESSAGE_TERMINATOR @ rest, fin) buf = (Inr (Some buf), (rest, fin))"
    if "buf \<noteq> [] \<or> False" for buf rest fin
    using that by (subst read_stdio_loop.simps) simp
  show "m = buf \<and> (buf \<noteq> [] \<or> False) \<or>
      (\<exists>p recv2. frame_ok p \<and> fst recv = encode_frame p @ fst recv2 \<and>
         length buf + 4 + length p \<le> PROXY_STDIO_MAX_REQUEST_BYTES \<and> read_stdio_loop recv2 (buf @ encode_frame p) = (Inr (Some m), recv'))"
    if "read_stdio_loop recv buf = (Inr (Some m), recv')" for recv buf m recv'
    by (rule proxy_reads_only [OF that])
qed

lemma stdio_reads_only:
  assumes "read_stdio_response_loop label recv buf = (Inr m, recv')"
  shows "m = buf \<and> (buf \<noteq> [] \<or> True) \<or>
      (\<exists>p recv2. frame_ok p \<and> fst recv = encode_frame p @ fst recv2 \<and>
         length buf + 4 + length p \<le> CLI_MAX_STREAM_BYTES \<and> read_stdio_response_loop label recv2 (buf @ encode_frame p) = (Inr m, recv'))"
proof (cases "read_exact 4 recv")
  case (Inl e)
  then show ?thesis using assms
    by (subst (asm) read_stdio_response_loop.simps) (auto split: IoError.splits if_splits)
next
  case (Inr hr)
  then obtain header recv1 where read: "read_exact 4 recv = Inr (header, recv1)" by (cases hr) auto
  then have header: "length header = 4" by (auto simp: read_exact_Inr)
  let ?n = "unat (from_be_bytes header)"
  show ?thesis
  proof (cases "?n = 0 \<or> \<not> is_ok (read_exact ?n recv1)")
    case True
    then show ?thesis using assms read
      by (subst (asm) read_stdio_response_loop.simps)
        (auto simp: Let_def split: if_splits option.splits sum.splits)
  next
    case False
    then obtain payload recv2 where payload: "read_exact ?n recv1 = Inr (payload, recv2)"
      by (auto simp: is_ok_iff)
    note fr = frame_read [OF read _ payload]
    have "length buf + 4 + ?n \<le> CLI_MAX_STREAM_BYTES \<and> read_stdio_response_loop label recv2 (buf @ encode_frame payload) = (Inr m, recv')"
      using assms read payload header False fr
      by (subst (asm) read_stdio_response_loop.simps)
        (auto simp: Let_def usize_checked_add_def ensure_stdio_response_message_growth_with_label_def encoders_agree split: sum.splits if_splits)
    then show ?thesis using fr False by (intro disjI2 exI [of _ payload] exI [of _ recv2]) simp
  qed
qed

interpretation stdio: terminated_reader "read_stdio_response_loop label" CLI_MAX_STREAM_BYTES "\<lambda>buf recv. (Inr buf, recv)" True
proof unfold_locales
  show "read_stdio_response_loop label (encode_frame p @ rest, fin) buf =
      read_stdio_response_loop label (rest, fin) (buf @ encode_frame p)"
    if "frame_ok p" "length buf + 4 + length p \<le> CLI_MAX_STREAM_BYTES" for p buf rest fin
    using that frame_header [OF that(1)]
    by (subst read_stdio_response_loop.simps)
      (simp add: encode_frame_def cli_encode_frame_def limits ensure_stdio_response_message_growth_with_label_def
        ensure_stdio_response_frame_len_with_label_def)
  show "read_stdio_response_loop label (STDIO_MESSAGE_TERMINATOR @ rest, fin) buf = (Inr buf, (rest, fin))"
    for buf rest fin
    by (subst read_stdio_response_loop.simps) simp
  show "m = buf \<and> (buf \<noteq> [] \<or> True) \<or>
      (\<exists>p recv2. frame_ok p \<and> fst recv = encode_frame p @ fst recv2 \<and>
         length buf + 4 + length p \<le> CLI_MAX_STREAM_BYTES \<and> read_stdio_response_loop label recv2 (buf @ encode_frame p) = (Inr m, recv'))"
    if "read_stdio_response_loop label recv buf = (Inr m, recv')" for recv buf m recv'
    by (rule stdio_reads_only [OF that])
qed

interpretation direct: framed_reader "read_direct_socket_response_loop label" CLI_MAX_STREAM_BYTES
proof unfold_locales
  show "read_direct_socket_response_loop label (encode_frame p @ rest, fin) buf =
      read_direct_socket_response_loop label (rest, fin) (buf @ encode_frame p)"
    if "frame_ok p" "length buf + 4 + length p \<le> CLI_MAX_STREAM_BYTES" for p buf rest fin
    using that frame_header [OF that(1)]
    by (subst read_direct_socket_response_loop.simps)
      (simp add: encode_frame_def cli_encode_frame_def limits ensure_stdio_response_message_growth_with_label_def
        ensure_stdio_response_frame_len_with_label_def read_next_direct_socket_response_frame_len_with_label_def
        read_direct_socket_response_payload_with_label_def)
qed

section \<open>Requests and responses across the connections\<close>

lemma fits_frame_ok: "list_all frame_ok ps \<Longrightarrow> list_all fits_u32 ps"
  by (auto simp: list_all_iff frame_ok_def)

lemma decode_wire: "list_all frame_ok ps \<Longrightarrow> decode_frame_slices (wire ps) = Inr ps"
  unfolding wire_def by (rule daemon.round_trip [OF fits_frame_ok])

lemma cli_decode_wire: "list_all frame_ok ps \<Longrightarrow> cli_decode_frames (wire ps) = Inr ps"
  unfolding wire_def using client.round_trip [OF fits_frame_ok, of ps] by (simp add: encoders_agree)

text \<open>The answer to a request whose only frame is \<open>p\<close>.\<close>

definition answer ::
    "'v Cbor \<Rightarrow> 'v \<Rightarrow> (ImagodError \<Rightarrow> bytes) \<Rightarrow> ('v ParsedSingleRequestEnvelope \<Rightarrow> bytes list) \<Rightarrow> bytes \<Rightarrow> bytes list" where
  "answer cbor null failure handle p =
     (case parse_request_frame cbor null p of Inl err \<Rightarrow> [failure err] | Inr request \<Rightarrow> handle request)"

lemma parse_one_frame:
  assumes "frame_ok p"
  shows "respond failure handle (parse_single_request_envelope cbor null (encode_frame p)) =
    wire (answer cbor null failure handle p)"
  using decode_wire [of "[p]"] assms
  by (cases "parse_request_frame cbor null p")
    (simp_all add: respond_def parse_single_request_envelope_def answer_def write_envelopes_def wire_def)

lemma local_connection:
  assumes "frame_ok p" "4 + length p \<le> MAX_STREAM_BYTES"
  shows "run_local_stream cbor null failure handle (Inr auth) False (encode_frame p @ STDIO_MESSAGE_TERMINATOR, fin) =
    wire (answer cbor null failure (handle auth) p)"
  using socket.reads_message [of "[p]" "[]" fin] assms parse_one_frame [OF assms(1), of failure "handle auth" cbor null]
  by (simp add: run_local_stream_def read_single_local_request_envelope_def
      read_terminated_stream_with_timeout_def read_terminated_stream_def)

lemma quic_stream:
  assumes "frame_ok p" "4 + length p \<le> MAX_STREAM_BYTES"
  shows "run_stream_io cbor null failure handle auth False (encode_frame p, Eof m) =
    wire (answer cbor null failure (handle auth) p)"
  using assms parse_one_frame [OF assms(1), of failure "handle auth" cbor null]
  by (simp add: run_stream_io_def read_single_request_envelope_def read_stream_with_timeout_def Let_def)

lemma direct_reads_all:
  assumes "list_all frame_ok ps" "length (wire ps) \<le> CLI_MAX_STREAM_BYTES"
  shows "read_direct_socket_response_message_with_label label (wire ps, Eof m) = Inr (wire ps)"
proof -
  have "read_direct_socket_response_loop label ([], Eof m) (wire ps) = Inr (wire ps)"
    by (subst read_direct_socket_response_loop.simps)
      (simp add: read_next_direct_socket_response_frame_len_with_label_def read_exact_def)
  then show ?thesis
    using direct.reads_frames [OF assms(1), of "[]" label "[]" "Eof m"] assms(2)
    by (simp add: read_direct_socket_response_message_with_label_def)
qed

text \<open>The client on the other side of the proxy reads one response after the other.\<close>

primrec read_responses :: "string \<Rightarrow> nat \<Rightarrow> reader \<Rightarrow> string + bytes list list" where
  "read_responses label 0 recv = Inr []"
| "read_responses label (Suc n) recv =
     (case read_stdio_response_message_with_label label recv of
        (Inl e, recv') \<Rightarrow> Inl e
      | (Inr out, recv') \<Rightarrow>
          and_then (cli_decode_frames out) (\<lambda>frames.
          and_then (read_responses label n recv') (\<lambda>more. Inr (frames # more))))"

lemma read_responses_wire:
  assumes "\<And>ps. ps \<in> set pss \<Longrightarrow> list_all frame_ok ps \<and> length (wire ps) \<le> CLI_MAX_STREAM_BYTES"
  shows "read_responses label (length pss) (concat (map (\<lambda>ps. wire ps @ STDIO_MESSAGE_TERMINATOR) pss), fin) = Inr pss"
  using assms
proof (induction pss)
  case (Cons ps pss)
  then have ok: "list_all frame_ok ps" "length (wire ps) \<le> CLI_MAX_STREAM_BYTES" by auto
  show ?case
    using Cons stdio.reads_message [OF ok(1) _ ok(2), of label] cli_decode_wire [OF ok(1)]
    by (simp add: read_stdio_response_message_with_label_def)
qed simp

lemma proxy_forwards:
  assumes "\<And>p. p \<in> set reqs \<Longrightarrow> frame_ok p \<and> 4 + length p \<le> PROXY_STDIO_MAX_REQUEST_BYTES \<and>
      serve (encode_frame p @ STDIO_MESSAGE_TERMINATOR) = Inr (resp p)"
  shows "proxy_stdio_loop serve (concat (map (\<lambda>p. encode_frame p @ STDIO_MESSAGE_TERMINATOR) reqs), Eof m) out =
    (Inr (), out @ concat (map (\<lambda>p. resp p @ STDIO_MESSAGE_TERMINATOR) reqs))"
  using assms
proof (induction reqs arbitrary: out)
  case Nil
  show ?case
    by (subst proxy_stdio_loop.simps, simp add: read_stdio_message_def, subst read_stdio_loop.simps)
      (simp add: read_exact_def)
next
  case (Cons p reqs)
  let ?rest = "concat (map (\<lambda>p. encode_frame p @ STDIO_MESSAGE_TERMINATOR) reqs)"
  have p: "frame_ok p" "4 + length p \<le> PROXY_STDIO_MAX_REQUEST_BYTES"
      "serve (encode_frame p @ STDIO_MESSAGE_TERMINATOR) = Inr (resp p)"
    using Cons.prems by auto
  have "read_stdio_message (encode_frame p @ STDIO_MESSAGE_TERMINATOR @ ?rest, Eof m) =
      (Inr (Some (encode_frame p)), (?rest, Eof m))"
    using proxy.reads_message [of "[p]" ?rest "Eof m"] p by (simp add: read_stdio_message_def)
  then show ?case
    using Cons.IH [of "out @ resp p @ STDIO_MESSAGE_TERMINATOR"] Cons.prems p(3)
    by (subst proxy_stdio_loop.simps) simp
qed

section \<open>Properties\<close>

text \<open>
  C29: all transports give the client the same answers. For requests of one frame each, within
  the daemon's limit, and answers within the client's limit, the client reads exactly the
  envelopes the daemon wrote for that request: over a QUIC stream, over a direct connection to
  the control socket, and over \<^verbatim>\<open>imagod proxy-stdio\<close>, where any number of requests share one
  pair of pipes and the answers come back in the order of the requests.
\<close>

theorem transports_agree:
  assumes "reply = answer cbor null failure (handle auth)"
    and "daemon = (\<lambda>bs. run_local_stream cbor null failure handle (Inr auth) False (bs, fin))"
    and "list_all (\<lambda>p. frame_ok p \<and> 4 + length p \<le> MAX_STREAM_BYTES) reqs"
    and "list_all (\<lambda>p. list_all frame_ok (reply p) \<and> length (wire (reply p)) \<le> CLI_MAX_STREAM_BYTES) reqs"
  shows "(\<exists>out. proxy_stdio_streams (\<lambda>bs. Inr (daemon bs))
        (concat (map (\<lambda>p. cli_encode_frame p @ STDIO_MESSAGE_TERMINATOR) reqs), Eof m) = (Inr (), out) \<and>
      read_responses label (length reqs) (out, fin') = Inr (map reply reqs)) \<and>
    list_all (\<lambda>p.
      and_then (read_direct_socket_response_message_with_label label
        (daemon (cli_encode_frame p @ STDIO_MESSAGE_TERMINATOR), Eof m)) cli_decode_frames = Inr (reply p) \<and>
      cli_decode_frames (run_stream_io cbor null failure handle auth False (cli_encode_frame p, Eof m)) = Inr (reply p)) reqs"
proof -
  have "proxy_stdio_streams (\<lambda>bs. Inr (daemon bs))
      (concat (map (\<lambda>p. cli_encode_frame p @ STDIO_MESSAGE_TERMINATOR) reqs), Eof m) =
      (Inr (), concat (map (\<lambda>p. wire (reply p) @ STDIO_MESSAGE_TERMINATOR) reqs))"
    using proxy_forwards [of reqs "\<lambda>bs. Inr (daemon bs)" "\<lambda>p. wire (reply p)" m "[]"] assms(1,2,3)
      local_connection [of _ cbor null failure handle auth fin]
    by (simp add: proxy_stdio_streams_def encoders_agree MAX_STREAM_BYTES_def
        PROXY_STDIO_MAX_REQUEST_BYTES_def list_all_iff)
  moreover have "read_responses label (length reqs)
      (concat (map (\<lambda>p. wire (reply p) @ STDIO_MESSAGE_TERMINATOR) reqs), fin') = Inr (map reply reqs)"
    using read_responses_wire [of "map reply reqs" label fin'] assms(4) by (auto simp: comp_def list_all_iff)
  ultimately show ?thesis
    using assms
    by (simp add: encoders_agree local_connection quic_stream direct_reads_all cli_decode_wire list_all_iff)
qed

text \<open>
  C33: the proxy is transparent and enforces the daemon's limit. Whatever bytes arrive on its
  standard input, a message it forwards is read back by the daemon unchanged, is a non-empty
  sequence of non-empty frames, and is at most as long as the daemon accepts, so no forwarded
  request is refused for its size or its framing.
\<close>

theorem proxy_transparent:
  assumes "read_stdio_message input = (Inr (Some message), input')"
  shows "read_terminated_stream (message @ STDIO_MESSAGE_TERMINATOR @ rest, fin) = (Inr (Some message), (rest, fin)) \<and>
    length message \<le> MAX_STREAM_BYTES \<and>
    (\<exists>ps. ps \<noteq> [] \<and> list_all frame_ok ps \<and> decode_frame_slices message = Inr ps)"
proof -
  obtain ps where ps: "message = wire ps" "list_all frame_ok ps" "ps \<noteq> []"
      "length message \<le> PROXY_STDIO_MAX_REQUEST_BYTES"
    using proxy.returns_message [of input message input'] assms by (auto simp: read_stdio_message_def)
  moreover from this have "length message \<le> MAX_STREAM_BYTES"
    by (simp add: MAX_STREAM_BYTES_def PROXY_STDIO_MAX_REQUEST_BYTES_def)
  ultimately show ?thesis
    using socket.reads_message [OF ps(2)] decode_wire [OF ps(2)]
    by (auto simp: read_terminated_stream_def)
qed

text \<open>
  The daemon never buffers more than \<open>MAX_STREAM_BYTES\<close> of a request, on either kind of
  stream, and what it accepts from the control socket always splits into frames.
\<close>

theorem request_buffers_bounded:
  "(\<forall>buf. read_stream_with_timeout timed_out recv = Inr buf \<longrightarrow> length buf \<le> MAX_STREAM_BYTES) \<and>
   (\<forall>buf. read_terminated_stream_with_timeout timed_out recv = Inr (Some buf) \<longrightarrow>
      length buf \<le> MAX_STREAM_BYTES \<and> (\<exists>ps. ps \<noteq> [] \<and> decode_frame_slices buf = Inr ps))"
proof (intro conjI allI impI)
  fix buf assume "read_stream_with_timeout timed_out recv = Inr buf"
  then show "length buf \<le> MAX_STREAM_BYTES"
    by (auto simp: read_stream_with_timeout_def Let_def split: if_splits bool.splits StreamEnd.splits)
next
  fix buf assume "read_terminated_stream_with_timeout timed_out recv = Inr (Some buf)"
  then obtain recv' where "read_terminated_loop recv [] = (Inr (Some buf), recv')"
    by (cases "read_terminated_loop recv []")
      (auto simp: read_terminated_stream_with_timeout_def read_terminated_stream_def split: if_splits)
  then obtain ps where ps: "buf = wire ps" "list_all frame_ok ps" "ps \<noteq> []" "length buf \<le> MAX_STREAM_BYTES"
    using socket.returns_message [of recv buf recv'] by auto
  then show "length buf \<le> MAX_STREAM_BYTES" "\<exists>ps. ps \<noteq> [] \<and> decode_frame_slices buf = Inr ps"
    using decode_wire [OF ps(2)] by auto
qed

text \<open>
  C34: messages between manager and runner arrive as they were sent. A frame the asynchronous
  writer produces is read back with the rest of the stream untouched; a message the runner
  writes with the blocking writer is read by both readers, when the CBOR coder restores what
  it encoded and the receiver accepts what the sender validated.
\<close>

theorem ipc_round_trip:
  assumes "\<And>x bytes. to_cbor x = Inr bytes \<Longrightarrow> from_cbor bytes = Inr x"
    and "write_message_sync validate to_cbor message = Inr sent"
  shows "\<exists>payload. to_cbor message = Inr payload \<and> write_frame payload = Inr sent \<and>
      read_frame (sent @ rest, fin) = Inr (payload, (rest, fin)) \<and>
      read_message_sync validate from_cbor (sent @ rest, fin) = Inr message"
proof -
  obtain payload where payload: "validate message = Inr ()" "to_cbor message = Inr payload"
      "length payload \<le> MAX_FRAME_BYTES" "length payload < 2 ^ 32"
      "sent = to_be_bytes (of_nat (length payload)) @ payload"
    using assms(2) by (auto simp: write_message_sync_def split: if_splits)
  moreover have "unat (of_nat (length payload) :: u32) = length payload"
    by (rule unat_of_length [OF payload(4)])
  ultimately show ?thesis
    using assms(1) [OF payload(2)]
    by (auto simp: write_frame_def read_frame_def read_message_sync_def Let_def)
qed

text \<open>
  A stream is accepted as a request only if it is one frame, and the request then has the
  message type of its header and identifiers that are not nil, when the decoders agree on
  the header of a frame.
\<close>

theorem accepted_request_identified:
  assumes "\<And>frame h r. cbor_header cbor frame = Inr h \<Longrightarrow> cbor_push cbor frame = Inr r \<Longrightarrow>
      env_message_type r = eh_message_type h \<and> env_request_id r = eh_request_id h \<and>
      env_correlation_id r = eh_correlation_id h"
    and "\<And>frame h r. cbor_header cbor frame = Inr h \<Longrightarrow> cbor_envelope cbor frame = Inr r \<Longrightarrow>
      env_message_type r = eh_message_type h"
    and "parse_single_request_envelope cbor null buf = Inr (Some parsed)"
  shows "env_request_id (pse_request parsed) \<noteq> 0 \<and> env_correlation_id (pse_request parsed) \<noteq> 0 \<and>
    (pse_typed_push parsed \<noteq> None) = (env_message_type (pse_request parsed) = ArtifactPush) \<and>
    (\<exists>frame. fits_u32 frame \<and> buf = encode_frame frame)"
proof -
  obtain frames where "decode_frame_slices buf = Inr frames"
    using assms(3) by (auto simp: parse_single_request_envelope_def)
  then obtain frame where frame: "decode_frame_slices buf = Inr [frame]"
      "parse_request_frame cbor null frame = Inr parsed"
    using assms(3) by (cases frames; cases "tl frames") (auto simp: parse_single_request_envelope_def)
  then have "fits_u32 frame \<and> buf = encode_frame frame" using daemon.single_frame by blast
  moreover obtain h where "cbor_header cbor frame = Inr h" "eh_request_id h \<noteq> 0" "eh_correlation_id h \<noteq> 0"
    using frame(2) by (auto simp: parse_request_frame_def ensure_non_nil_envelope_ids_def split: if_splits)
  ultimately show ?thesis
    using frame(2) assms(1,2) [of frame h]
    by (auto simp: parse_request_frame_def ensure_non_nil_envelope_ids_def split: if_splits)
qed

text \<open>A decoder under which every frame is one hello request, and a stream that carries it.\<close>

definition example_cbor :: "unit Cbor" where
  "example_cbor =
     \<lparr>cbor_header = (\<lambda>_. Inr \<lparr>eh_message_type = HelloNegotiate, eh_request_id = 1, eh_correlation_id = 2\<rparr>),
      cbor_push = (\<lambda>_. Inl ''not a push''),
      cbor_envelope = (\<lambda>_. Inr \<lparr>env_message_type = HelloNegotiate, env_request_id = 1, env_correlation_id = 2,
        env_payload = (), env_error = None\<rparr>)\<rparr>"

lemma example_frame: "frame_ok [7, 8]" "frame_ok [5]" "frame_ok [6, 6]"
  by (simp_all add: frame_ok_def fits_u32_def)

lemma example_answer: "answer example_cbor () (\<lambda>_. []) (\<lambda>_. [[5], [6, 6]]) [7, 8] = [[5], [6, 6]]"
  by (simp add: answer_def parse_request_frame_def example_cbor_def ensure_non_nil_envelope_ids_def)

theorem transports_agree_witness:
  "\<exists>out. proxy_stdio_streams
       (\<lambda>bs. Inr (run_local_stream example_cbor () (\<lambda>_. []) (\<lambda>_ _. [[5], [6, 6]]) (Inr ()) False (bs, Eof [])))
       (concat (map (\<lambda>p. cli_encode_frame p @ STDIO_MESSAGE_TERMINATOR) [[7, 8], [7, 8]]), Eof []) = (Inr (), out) \<and>
     read_responses ''ssh transport'' (length [[7 :: u8, 8], [7, 8]]) (out, Eof []) =
       Inr (map (answer example_cbor () (\<lambda>_. []) (\<lambda>_. [[5], [6, 6]])) [[7, 8], [7, 8]])"
  by (rule transports_agree [where handle = "\<lambda>_ _. [[5], [6, 6]]" and auth = "()", THEN conjunct1, OF refl refl])
    (simp_all add: example_frame example_answer MAX_STREAM_BYTES_def CLI_MAX_STREAM_BYTES_def)

lemma example_stdio_message:
  "read_stdio_message (encode_frame [7, 8] @ STDIO_MESSAGE_TERMINATOR @ [1], Eof []) =
     (Inr (Some (encode_frame [7, 8])), ([1], Eof []))"
  using proxy.reads_message [of "[[7, 8]]" "[1]" "Eof []"] example_frame(1)
  by (simp add: read_stdio_message_def PROXY_STDIO_MAX_REQUEST_BYTES_def)

theorem proxy_transparent_witness:
  "read_terminated_stream (encode_frame [7, 8] @ STDIO_MESSAGE_TERMINATOR @ [], Eof []) =
     (Inr (Some (encode_frame [7, 8])), ([], Eof []))"
  using proxy_transparent [OF example_stdio_message] by blast

theorem request_buffers_bounded_witness:
  "read_terminated_stream_with_timeout False (encode_frame [7, 8] @ STDIO_MESSAGE_TERMINATOR, Eof []) =
     Inr (Some (encode_frame [7, 8])) \<and> (\<exists>ps. ps \<noteq> [] \<and> decode_frame_slices (encode_frame [7, 8]) = Inr ps)"
proof -
  have read: "read_terminated_stream_with_timeout False (encode_frame [7, 8] @ STDIO_MESSAGE_TERMINATOR, Eof []) =
      Inr (Some (encode_frame [7, 8]))"
    using socket.reads_message [of "[[7, 8]]" "[]" "Eof []"] example_frame(1)
    by (simp add: read_terminated_stream_with_timeout_def read_terminated_stream_def MAX_STREAM_BYTES_def)
  then show ?thesis
    using request_buffers_bounded [of False "(encode_frame [7, 8] @ STDIO_MESSAGE_TERMINATOR, Eof [])"] by blast
qed

theorem ipc_round_trip_witness:
  "\<exists>payload. read_frame ((to_be_bytes 2 @ [7, 8]) @ [1], Eof []) = Inr (payload, ([1], Eof []))"
  using ipc_round_trip [of Inr Inr "\<lambda>_. Inr ()" "[7, 8]" "to_be_bytes 2 @ [7, 8]" "[1]" "Eof []"]
  by (auto simp: write_message_sync_def MAX_FRAME_BYTES_def)

theorem accepted_request_identified_witness:
  "\<exists>parsed. parse_single_request_envelope example_cbor () (encode_frame [7, 8]) = Inr (Some parsed) \<and>
     env_request_id (pse_request parsed) \<noteq> 0 \<and> pse_typed_push parsed = None"
proof -
  let ?parsed = "\<lparr>pse_request = \<lparr>env_message_type = HelloNegotiate, env_request_id = 1, env_correlation_id = 2,
    env_payload = (), env_error = None\<rparr>, pse_typed_push = None\<rparr>"
  have parsed: "parse_single_request_envelope example_cbor () (encode_frame [7, 8]) = Inr (Some ?parsed)"
    using decode_wire [of "[[7, 8]]"]
    by (simp add: example_frame example_cbor_def parse_single_request_envelope_def parse_request_frame_def
        ensure_non_nil_envelope_ids_def)
  have "env_request_id (pse_request ?parsed) \<noteq> 0"
    by (rule accepted_request_identified [OF _ _ parsed, THEN conjunct1]) (auto simp: example_cbor_def)
  then show ?thesis using parsed by (intro exI [of _ ?parsed]) simp
qed

end
