(* ===== verification/Log_Buffer.thy ===== *)
theory Log_Buffer
  imports Imago_Prelude
begin

text \<open>
  The bounded log buffer of a supervised service
  (\<^verbatim>\<open>imagod-control/src/service_supervisor/log_buffer.rs\<close>): output of the service is kept as a
  queue of events, the oldest bytes are evicted when the capacity is exceeded, and a client
  asks for the last lines of what is kept.
\<close>

section \<open>Events and the buffer\<close>

datatype ServiceLogStream = Stdout | Stderr

record ServiceLogEvent =
  ev_stream :: ServiceLogStream
  ev_bytes :: bytes
  ev_timestamp_unix_ms :: u64

record BoundedLogEventBuffer =
  lb_max_bytes :: nat
  lb_total_bytes :: nat
  lb_events :: "ServiceLogEvent list"

definition log_buffer_new :: "nat \<Rightarrow> BoundedLogEventBuffer" where
  "log_buffer_new max_bytes = \<lparr>lb_max_bytes = max max_bytes 1, lb_total_bytes = 0, lb_events = []\<rparr>"

text \<open>\<open>evict_front_bytes\<close>: the loop removes whole events from the front and trims the last one it meets.\<close>

fun evict_front_bytes :: "nat \<Rightarrow> nat \<Rightarrow> ServiceLogEvent list \<Rightarrow> nat \<times> ServiceLogEvent list" where
  "evict_front_bytes bytes_to_evict total_bytes events =
     (if bytes_to_evict > 0 then
        (case events of
           [] \<Rightarrow> (total_bytes, events)
         | front # rest \<Rightarrow>
             let front_len = length (ev_bytes front) in
             if front_len \<le> bytes_to_evict
             then evict_front_bytes (bytes_to_evict - front_len) (total_bytes - front_len) rest
             else (total_bytes - bytes_to_evict,
                   front\<lparr>ev_bytes := drop bytes_to_evict (ev_bytes front)\<rparr> # rest))
      else (total_bytes, events))"

declare evict_front_bytes.simps [simp del]

definition log_push :: "ServiceLogEvent \<Rightarrow> BoundedLogEventBuffer \<Rightarrow> BoundedLogEventBuffer" where
  "log_push event buf =
     (if ev_bytes event = [] then buf
      else
        let len = length (ev_bytes event); max_bytes = lb_max_bytes buf;
            event' = (if max_bytes < len then event\<lparr>ev_bytes := drop (len - max_bytes) (ev_bytes event)\<rparr> else event);
            total_bytes = usize_saturating_add (lb_total_bytes buf) (length (ev_bytes event'));
            events = lb_events buf @ [event']
        in if max_bytes < total_bytes
           then case evict_front_bytes (total_bytes - max_bytes) total_bytes events of
             (total', events') \<Rightarrow> buf\<lparr>lb_total_bytes := total', lb_events := events'\<rparr>
           else buf\<lparr>lb_total_bytes := total_bytes, lb_events := events\<rparr>)"

section \<open>Reading the tail\<close>

text \<open>
  The loop over all bytes of \<open>compute_tail_start_offset_by_lines\<close>, with its three variables:
  the queue of the most recent line starts, their number, and the byte index.
\<close>

definition line_step :: "nat \<Rightarrow> nat \<Rightarrow> u8 \<Rightarrow> nat list \<times> nat \<times> nat \<Rightarrow> nat list \<times> nat \<times> nat" where
  "line_step total_bytes limit byte state =
     (case state of (recent_line_starts, total_line_starts, index) \<Rightarrow>
        if byte = 10 \<and> index + 1 < total_bytes then
          let pushed = recent_line_starts @ [index + 1] in
          (if limit < length pushed then tl pushed else pushed,
           usize_saturating_add total_line_starts 1, usize_saturating_add index 1)
        else (recent_line_starts, total_line_starts, usize_saturating_add index 1))"

definition compute_tail_start_offset_by_lines :: "ServiceLogEvent list \<Rightarrow> nat \<Rightarrow> u32 \<Rightarrow> nat" where
  "compute_tail_start_offset_by_lines events total_bytes tail_lines =
     (if tail_lines = 0 \<or> total_bytes = 0 then total_bytes
      else
        let keep_lines = unat tail_lines;
            limit = max (min keep_lines (usize_saturating_add total_bytes 1)) 1
        in case fold (\<lambda>event. fold (line_step total_bytes limit) (ev_bytes event)) events ([0], 1, 0) of
             (recent_line_starts, total_line_starts, index) \<Rightarrow>
               if total_line_starts \<le> keep_lines then 0
               else case recent_line_starts of [] \<Rightarrow> 0 | first # _ \<Rightarrow> first)"

fun materialize_loop :: "ServiceLogEvent list \<Rightarrow> nat \<Rightarrow> nat \<Rightarrow> bytes" where
  "materialize_loop [] offset remaining = []"
| "materialize_loop (event # events) offset remaining =
     (if remaining = 0 then []
      else if length (ev_bytes event) \<le> offset
      then materialize_loop events (offset - length (ev_bytes event)) remaining
      else
        let n = min (length (ev_bytes event) - offset) remaining in
        take n (drop offset (ev_bytes event)) @ materialize_loop events 0 (remaining - n))"

definition materialize_bytes_from_offset :: "ServiceLogEvent list \<Rightarrow> nat \<Rightarrow> nat \<Rightarrow> bytes" where
  "materialize_bytes_from_offset events offset remaining =
     (if remaining = 0 then [] else materialize_loop events offset remaining)"

fun slice_events_loop :: "ServiceLogEvent list \<Rightarrow> nat \<Rightarrow> nat \<Rightarrow> ServiceLogEvent list" where
  "slice_events_loop [] offset remaining = []"
| "slice_events_loop (event # events) offset remaining =
     (if remaining = 0 then []
      else if length (ev_bytes event) \<le> offset
      then slice_events_loop events (offset - length (ev_bytes event)) remaining
      else
        let n = min (length (ev_bytes event) - offset) remaining in
        (if n > 0
         then [\<lparr>ev_stream = ev_stream event, ev_bytes = take n (drop offset (ev_bytes event)),
                ev_timestamp_unix_ms = ev_timestamp_unix_ms event\<rparr>]
         else []) @ slice_events_loop events 0 (remaining - n))"

definition slice_events_from_offset :: "ServiceLogEvent list \<Rightarrow> nat \<Rightarrow> nat \<Rightarrow> ServiceLogEvent list" where
  "slice_events_from_offset events offset remaining =
     (if remaining = 0 then [] else slice_events_loop events offset remaining)"

definition total_bytes_for_events :: "ServiceLogEvent list \<Rightarrow> nat" where
  "total_bytes_for_events events = sum_list (map (\<lambda>event. length (ev_bytes event)) events)"

definition tail_snapshot_events :: "u32 \<Rightarrow> BoundedLogEventBuffer \<Rightarrow> ServiceLogEvent list" where
  "tail_snapshot_events tail_lines buf =
     (let start_offset = compute_tail_start_offset_by_lines (lb_events buf) (lb_total_bytes buf) tail_lines in
      slice_events_from_offset (lb_events buf) start_offset (lb_total_bytes buf - start_offset))"

definition tail_snapshot_bytes :: "u32 \<Rightarrow> BoundedLogEventBuffer \<Rightarrow> bytes" where
  "tail_snapshot_bytes tail_lines buf =
     (let start_offset = compute_tail_start_offset_by_lines (lb_events buf) (lb_total_bytes buf) tail_lines in
      materialize_bytes_from_offset (lb_events buf) start_offset (lb_total_bytes buf - start_offset))"

definition tail_snapshot_events_from_events :: "ServiceLogEvent list \<Rightarrow> u32 \<Rightarrow> ServiceLogEvent list" where
  "tail_snapshot_events_from_events events tail_lines =
     (let total_bytes = total_bytes_for_events events;
          start_offset = compute_tail_start_offset_by_lines events total_bytes tail_lines in
      slice_events_from_offset events start_offset (total_bytes - start_offset))"

definition tail_snapshot_bytes_from_events :: "ServiceLogEvent list \<Rightarrow> u32 \<Rightarrow> bytes" where
  "tail_snapshot_bytes_from_events events tail_lines =
     (let total_bytes = total_bytes_for_events events;
          start_offset = compute_tail_start_offset_by_lines events total_bytes tail_lines in
      materialize_bytes_from_offset events start_offset (total_bytes - start_offset))"

section \<open>Draining a stream\<close>

text \<open>
  \<open>spawn_log_drain\<close>: the results of the successive reads, up to an empty read or an error,
  become events in the buffer and on the broadcast channel. A read returns at most as many
  bytes as the 8192-byte chunk buffer holds.
\<close>

fun spawn_log_drain ::
    "ServiceLogStream \<Rightarrow> (u64 \<times> (string + bytes)) list
       \<Rightarrow> BoundedLogEventBuffer \<times> ServiceLogEvent list \<Rightarrow> BoundedLogEventBuffer \<times> ServiceLogEvent list" where
  "spawn_log_drain stream [] s = s"
| "spawn_log_drain stream ((now, Inl err) # reads) s = s"
| "spawn_log_drain stream ((now, Inr chunk) # reads) (buf, sent) =
     (if chunk = [] then (buf, sent)
      else
        let event = \<lparr>ev_stream = stream, ev_bytes = chunk, ev_timestamp_unix_ms = now\<rparr> in
        spawn_log_drain stream reads (log_push event buf, sent @ [event]))"

section \<open>The log a buffer stands for\<close>

text \<open>
  A log is a sequence of bytes, each with the stream it was written to and the time it was
  read. The abstract operation keeps the last bytes of the log.
\<close>

type_synonym log_byte = "ServiceLogStream \<times> u64 \<times> u8"

definition tag :: "ServiceLogEvent \<Rightarrow> log_byte list" where
  "tag e = map (\<lambda>b. (ev_stream e, ev_timestamp_unix_ms e, b)) (ev_bytes e)"

definition log_of :: "ServiceLogEvent list \<Rightarrow> log_byte list" where
  "log_of events = concat (map tag events)"

definition text_of :: "log_byte list \<Rightarrow> bytes" where
  "text_of = map (\<lambda>(stream, time, b). b)"

definition keep_last :: "nat \<Rightarrow> 'a list \<Rightarrow> 'a list" where
  "keep_last n xs = drop (length xs - n) xs"

lemma log_of_simps [simp]:
  "log_of [] = []" "log_of (e # es) = tag e @ log_of es" "log_of (es @ fs) = log_of es @ log_of fs"
  by (simp_all add: log_of_def)

lemma length_tag [simp]: "length (tag e) = length (ev_bytes e)"
  by (simp add: tag_def)

lemma tag_drop [simp]: "tag (e\<lparr>ev_bytes := drop n (ev_bytes e)\<rparr>) = drop n (tag e)"
  by (simp add: tag_def drop_map)

lemma text_of_tag [simp]: "text_of (tag e) = ev_bytes e"
  by (simp add: text_of_def tag_def comp_def)

lemma text_of_append [simp]: "text_of [] = []" "text_of (xs @ ys) = text_of xs @ text_of ys"
  by (simp_all add: text_of_def)

lemma text_of_drop: "text_of (drop n xs) = drop n (text_of xs)" "text_of (take n xs) = take n (text_of xs)"
  by (simp_all add: text_of_def drop_map take_map)

lemma length_text_of [simp]: "length (text_of xs) = length xs"
  by (simp add: text_of_def)

lemma text_of_log: "text_of (log_of es) = concat (map ev_bytes es)"
  by (induction es) simp_all

lemma keep_last_keep_last: "keep_last n (keep_last n xs @ ys) = keep_last n (xs @ ys)"
proof (cases "length xs \<le> n")
  case False
  then have "keep_last n (xs @ ys) = drop (length ys) (drop (length xs - n) (xs @ ys))"
    by (simp add: keep_last_def add.commute)
  also have "drop (length xs - n) (xs @ ys) = keep_last n xs @ ys" by (simp add: keep_last_def)
  also have "drop (length ys) (keep_last n xs @ ys) = keep_last n (keep_last n xs @ ys)"
    using False by (simp add: keep_last_def)
  finally show ?thesis ..
qed (simp add: keep_last_def)

lemma keep_last_right: "keep_last n (xs @ keep_last n ys) = keep_last n (xs @ ys)"
  by (cases "length ys \<le> n") (simp_all add: keep_last_def)

lemma keep_last_long: "length xs \<le> n \<Longrightarrow> keep_last n xs = xs"
  by (simp add: keep_last_def)

definition buffer_ok :: "BoundedLogEventBuffer \<Rightarrow> bool" where
  "buffer_ok buf \<longleftrightarrow> 0 < lb_max_bytes buf \<and> lb_total_bytes buf = length (log_of (lb_events buf)) \<and>
     lb_total_bytes buf \<le> lb_max_bytes buf \<and> (\<forall>e \<in> set (lb_events buf). ev_bytes e \<noteq> [])"

lemma evict_front_bytes_log:
  assumes "evict_front_bytes n tot events = (tot', events')" "tot = length (log_of events)"
    and "\<forall>e \<in> set events. ev_bytes e \<noteq> []" "n \<le> tot"
  shows "log_of events' = drop n (log_of events) \<and> tot' = tot - n \<and> (\<forall>e \<in> set events'. ev_bytes e \<noteq> [])"
  using assms
proof (induction n tot events rule: evict_front_bytes.induct)
  case (1 n tot events)
  show ?case
  proof (cases events)
    case Nil
    then show ?thesis using "1.prems" by (subst (asm) evict_front_bytes.simps) (simp split: if_splits)
  next
    case (Cons front rest)
    show ?thesis
    proof (cases "0 < n \<and> length (ev_bytes front) \<le> n")
      case True
      then have "evict_front_bytes (n - length (ev_bytes front)) (tot - length (ev_bytes front)) rest = (tot', events')"
        using "1.prems"(1) Cons by (subst (asm) evict_front_bytes.simps) (simp add: Let_def)
      then show ?thesis
        using "1.IH" [OF _ Cons refl] True "1.prems"(2-4) Cons by auto
    next
      case False
      then show ?thesis
        using "1.prems" Cons by (subst (asm) evict_front_bytes.simps) (auto simp: Let_def split: if_splits)
    qed
  qed
qed

lemma log_push_refines:
  assumes "buffer_ok buf" "2 * lb_max_bytes buf \<le> usize_max"
  shows "buffer_ok (log_push e buf) \<and> lb_max_bytes (log_push e buf) = lb_max_bytes buf \<and>
    log_of (lb_events (log_push e buf)) = keep_last (lb_max_bytes buf) (log_of (lb_events buf) @ tag e)"
proof (cases "ev_bytes e = []")
  case True
  then show ?thesis
    using assms by (simp add: log_push_def buffer_ok_def keep_last_def tag_def)
next
  case False
  let ?n = "lb_max_bytes buf"
  define e' where "e' = (if ?n < length (ev_bytes e) then e\<lparr>ev_bytes := drop (length (ev_bytes e) - ?n) (ev_bytes e)\<rparr> else e)"
  have tag: "tag e' = keep_last ?n (tag e)" by (simp add: e'_def keep_last_def)
  have e': "ev_bytes e' \<noteq> []" "length (ev_bytes e') \<le> ?n"
    using False assms(1) by (auto simp: e'_def buffer_ok_def)
  define tot where "tot = lb_total_bytes buf + length (ev_bytes e')"
  have tot: "usize_saturating_add (lb_total_bytes buf) (length (ev_bytes e')) = tot"
    using assms e' by (simp add: usize_saturating_add_def tot_def buffer_ok_def)
  have log: "keep_last ?n (log_of (lb_events buf) @ tag e) = keep_last ?n (log_of (lb_events buf @ [e']))"
    by (simp add: tag keep_last_right)
  obtain tot' es' where ev: "evict_front_bytes (tot - ?n) tot (lb_events buf @ [e']) = (tot', es')" by force
  have push: "log_push e buf = (if ?n < tot then buf\<lparr>lb_total_bytes := tot', lb_events := es'\<rparr>
      else buf\<lparr>lb_total_bytes := tot, lb_events := lb_events buf @ [e']\<rparr>)"
    using False by (simp add: log_push_def Let_def ev tot flip: e'_def)
  have len: "tot = length (log_of (lb_events buf @ [e']))"
    using assms(1) by (simp add: tot_def buffer_ok_def)
  have ne: "\<forall>e \<in> set (lb_events buf @ [e']). ev_bytes e \<noteq> []"
    using assms(1) e'(1) by (auto simp: buffer_ok_def)
  show ?thesis
  proof (cases "?n < tot")
    case True
    define L where "L = log_of (lb_events buf @ [e'])"
    have "log_of es' = keep_last ?n L" "tot' = tot - (tot - ?n)" "\<forall>e \<in> set es'. ev_bytes e \<noteq> []"
      using evict_front_bytes_log [OF ev len ne] len unfolding L_def keep_last_def by simp_all
    moreover have "length (keep_last ?n L) = ?n" using True len by (simp add: keep_last_def L_def)
    ultimately show ?thesis
      using True assms(1) unfolding push buffer_ok_def log L_def [symmetric] by simp
  next
    case False
    then show ?thesis
      using assms(1) len ne log by (simp add: push buffer_ok_def keep_last_long)
  qed
qed

section \<open>Lines\<close>

text \<open>The lines of a text with their newlines; only the last line may lack one.\<close>

fun split_lines :: "bytes \<Rightarrow> bytes list" where
  "split_lines [] = []"
| "split_lines (b # bs) =
     (if b = 10 then [b] # split_lines bs
      else case split_lines bs of [] \<Rightarrow> [[b]] | l # ls \<Rightarrow> (b # l) # ls)"

lemma concat_split_lines [simp]: "concat (split_lines bs) = bs"
  by (induction bs) (auto split: list.splits)

lemma split_lines_empty [simp]: "split_lines bs = [] \<longleftrightarrow> bs = []"
  by (cases bs) (auto split: list.splits)

lemma split_lines_shape:
  "l \<in> set (split_lines bs) \<Longrightarrow> l \<noteq> [] \<and> 10 \<notin> set (butlast l)"
proof (induction bs arbitrary: l)
  case (Cons b bs)
  then show ?case by (auto split: list.splits if_splits)
qed simp

fun offsets :: "nat \<Rightarrow> bytes list \<Rightarrow> nat list" where
  "offsets i [] = []"
| "offsets i (l # ls) = i # offsets (i + length l) ls"

fun newline_starts :: "nat \<Rightarrow> nat \<Rightarrow> bytes \<Rightarrow> nat list" where
  "newline_starts tot i [] = []"
| "newline_starts tot i (b # bs) =
     (if b = 10 \<and> i + 1 < tot then [i + 1] else []) @ newline_starts tot (i + 1) bs"

lemma length_offsets [simp]: "length (offsets i ls) = length ls"
  by (induction ls arbitrary: i) auto

lemma newline_starts_offsets:
  "bs \<noteq> [] \<Longrightarrow> i # newline_starts (i + length bs) i bs = offsets i (split_lines bs)"
proof (induction bs arbitrary: i)
  case (Cons b bs)
  show ?case
  proof (cases "bs = []")
    case False
    then have "Suc i # newline_starts (Suc i + length bs) (Suc i) bs = offsets (Suc i) (split_lines bs)"
      by (rule Cons.IH)
    then show ?thesis using False by (cases "split_lines bs") auto
  qed simp
qed simp

lemma drop_offsets: "k < length ls \<Longrightarrow> drop (offsets i ls ! k - i) (concat ls) = concat (drop k ls) \<and> i \<le> offsets i ls ! k"
proof (induction ls arbitrary: i k)
  case (Cons l ls)
  show ?case
  proof (cases k)
    case (Suc k')
    then have IH: "drop (offsets (i + length l) ls ! k' - (i + length l)) (concat ls) = concat (drop k' ls)"
        "i + length l \<le> offsets (i + length l) ls ! k'"
      using Cons.IH [of k' "i + length l"] Cons.prems by auto
    then show ?thesis using Suc by simp
  qed simp
qed simp

lemma keep_last_snoc:
  "1 \<le> n \<Longrightarrow> (let pushed = keep_last n xs @ [x] in if n < length pushed then tl pushed else pushed) = keep_last n (xs @ [x])"
  by (auto simp: keep_last_def Let_def Suc_diff_le drop_Suc tl_drop min_def)

lemma fold_line_step:
  assumes "1 \<le> limit" "i + length bs < usize_max" "n + length bs < usize_max"
    and "n = length starts"
  shows "fold (line_step tot limit) bs (keep_last limit starts, n, i) =
    (keep_last limit (starts @ newline_starts tot i bs), n + length (newline_starts tot i bs), i + length bs)"
  using assms
proof (induction bs arbitrary: starts n i)
  case (Cons b bs)
  show ?case
  proof (cases "b = 10 \<and> i + 1 < tot")
    case True
    then have "line_step tot limit b (keep_last limit starts, n, i) = (keep_last limit (starts @ [i + 1]), n + 1, i + 1)"
      using keep_last_snoc [OF Cons.prems(1), of starts "i + 1"] Cons.prems
      by (simp add: line_step_def usize_saturating_add_def Let_def)
    then show ?thesis using Cons.IH [of "i + 1" "n + 1" "starts @ [i + 1]"] Cons.prems True by simp
  next
    case False
    then have "line_step tot limit b (keep_last limit starts, n, i) = (keep_last limit starts, n, i + 1)"
      using Cons.prems by (auto simp: line_step_def usize_saturating_add_def)
    then show ?thesis using Cons.IH [of "i + 1" n starts] Cons.prems False by auto
  qed
qed simp

lemma fold_events: "fold (\<lambda>e. fold f (ev_bytes e)) es s = fold f (concat (map ev_bytes es)) s"
  by (induction es arbitrary: s) simp_all

lemma length_split_lines: "length (split_lines bs) \<le> length bs"
  by (induction bs) (auto split: list.splits)

lemma tail_start:
  assumes "bs = concat (map ev_bytes es)" "Suc (length bs) < usize_max"
  shows "drop (compute_tail_start_offset_by_lines es (length bs) tail_lines) bs =
    concat (keep_last (unat tail_lines) (split_lines bs))"
proof (cases "tail_lines = 0 \<or> bs = []")
  case True
  then show ?thesis by (auto simp: compute_tail_start_offset_by_lines_def keep_last_def)
next
  case False
  let ?keep = "unat tail_lines" and ?O = "offsets 0 (split_lines bs)"
  define limit where "limit = max (min ?keep (usize_saturating_add (length bs) 1)) 1"
  have keep: "1 \<le> ?keep" using False by (simp add: Suc_le_eq unat_gt_0)
  have O: "0 # newline_starts (length bs) 0 bs = ?O" using newline_starts_offsets [of bs 0] False by simp
  have "keep_last limit [0] = [0 :: nat]" by (simp add: keep_last_def limit_def)
  then have folded: "fold (line_step (length bs) limit) bs ([0], 1, 0) = (keep_last limit ?O, length ?O, length bs)"
    using fold_line_step [of limit 0 bs 1 "[0]" "length bs"] assms(2) O [symmetric] by (simp add: limit_def)
  have start: "compute_tail_start_offset_by_lines es (length bs) tail_lines =
      (if length ?O \<le> ?keep then 0 else case keep_last limit ?O of [] \<Rightarrow> 0 | first # _ \<Rightarrow> first)"
    unfolding compute_tail_start_offset_by_lines_def fold_events assms(1) [symmetric] Let_def
      limit_def [symmetric] folded using False by simp
  show ?thesis
  proof (cases "length ?O \<le> ?keep")
    case True
    then show ?thesis by (simp add: start keep_last_long)
  next
    case more: False
    let ?k = "length ?O - ?keep"
    have "limit = ?keep" using more length_split_lines [of bs] keep assms(2)
      by (simp add: limit_def usize_saturating_add_def)
    moreover have "?k < length (split_lines bs)" using more keep by simp
    ultimately have "keep_last limit ?O = ?O ! ?k # drop (Suc ?k) ?O"
      by (simp add: keep_last_def Cons_nth_drop_Suc)
    then show ?thesis
      using more drop_offsets [OF \<open>?k < length (split_lines bs)\<close>, of 0] by (simp add: start keep_last_def)
  qed
qed

lemma materialize_loop_log: "materialize_loop es offset n = take n (drop offset (concat (map ev_bytes es)))"
  by (induction es offset n rule: materialize_loop.induct) (auto simp: Let_def min_def)

lemma slice_events_loop_log: "log_of (slice_events_loop es offset n) = take n (drop offset (log_of es))"
proof (induction es offset n rule: slice_events_loop.induct)
  case (2 e es offset n)
  then show ?case
    by (auto simp: Let_def min_def tag_def take_map drop_map)
qed simp

lemma materialize_log:
  "materialize_bytes_from_offset es offset n = take n (drop offset (concat (map ev_bytes es)))"
  by (simp add: materialize_bytes_from_offset_def materialize_loop_log)

lemma slice_events_log: "log_of (slice_events_from_offset es offset n) = take n (drop offset (log_of es))"
  by (simp add: slice_events_from_offset_def slice_events_loop_log)

lemma total_bytes_log: "total_bytes_for_events es = length (log_of es)"
  by (induction es) (simp_all add: total_bytes_for_events_def)

lemma buffer_ok_pushes:
  assumes "buffer_ok buf" "2 * lb_max_bytes buf \<le> usize_max"
  shows "buffer_ok (fold log_push es buf) \<and> lb_max_bytes (fold log_push es buf) = lb_max_bytes buf \<and>
    log_of (lb_events (fold log_push es buf)) = keep_last (lb_max_bytes buf) (log_of (lb_events buf) @ log_of es)"
  using assms
proof (induction es arbitrary: buf)
  case Nil
  then show ?case by (simp add: keep_last_long buffer_ok_def)
next
  case (Cons e es)
  then show ?case
    using Cons.IH [of "log_push e buf"] log_push_refines [OF Cons.prems, of e]
      keep_last_keep_last [of "lb_max_bytes buf" "log_of (lb_events buf) @ tag e" "log_of es"]
    by simp
qed

text \<open>What a service wrote, as the reads of its pipe report it: the chunks before the end of the
  stream or the first error, every byte with the stream and the time of its read.\<close>

definition written_log :: "ServiceLogStream \<Rightarrow> (u64 \<times> (string + bytes)) list \<Rightarrow> log_byte list" where
  "written_log stream reads =
     concat (map (\<lambda>(now, r). map (\<lambda>b. (stream, now, b)) (projr r))
       (takeWhile (\<lambda>(now, r). \<not> isl r \<and> projr r \<noteq> []) reads))"

lemma spawn_log_drain_pushes:
  "\<exists>es. spawn_log_drain stream reads (buf, sent) = (fold log_push es buf, sent @ es) \<and>
     log_of es = written_log stream reads"
proof (induction stream reads "(buf, sent)" arbitrary: buf sent rule: spawn_log_drain.induct)
  case (3 stream now chunk reads buf sent)
  show ?case
  proof (cases "chunk = []")
    case False
    let ?e = "\<lparr>ev_stream = stream, ev_bytes = chunk, ev_timestamp_unix_ms = now\<rparr>"
    from "3.hyps" [OF False refl] obtain es where
      "spawn_log_drain stream reads (log_push ?e buf, sent @ [?e]) = (fold log_push es (log_push ?e buf), (sent @ [?e]) @ es)"
      "log_of es = written_log stream reads" by blast
    then show ?thesis using False
      by (intro exI [of _ "?e # es"]) (simp add: Let_def written_log_def log_of_def tag_def)
  qed (simp add: written_log_def log_of_def)
qed (simp_all add: written_log_def log_of_def)

section \<open>Properties\<close>

text \<open>
  C30: the buffer refines a log that keeps its last bytes. After any sequence of events, from
  both output streams in any order, the buffer holds exactly the last \<open>max_bytes\<close> bytes
  written, each still with its stream and its time, and its byte counter is right.
\<close>

theorem log_buffer_keeps_last_bytes:
  assumes "2 * max max_bytes 1 \<le> usize_max"
  shows "log_of (lb_events (fold log_push es (log_buffer_new max_bytes))) = keep_last (max max_bytes 1) (log_of es) \<and>
    lb_total_bytes (fold log_push es (log_buffer_new max_bytes)) = min (length (log_of es)) (max max_bytes 1)"
proof -
  have "buffer_ok (log_buffer_new max_bytes)" by (simp add: buffer_ok_def log_buffer_new_def)
  from buffer_ok_pushes [OF this, of es] assms show ?thesis
    by (auto simp: log_buffer_new_def buffer_ok_def keep_last_def)
qed

text \<open>
  C35: a tail request gets whole lines. For a well-formed buffer, the bytes and the events of
  the tail are the last \<open>tail_lines\<close> lines of what the buffer holds, or all of it if there are
  fewer, and the events keep the stream and the time of every byte.
\<close>

theorem tail_is_last_lines:
  assumes "buffer_ok buf" and "lb_total_bytes buf + 1 < usize_max"
  shows "tail_snapshot_bytes tail_lines buf =
      concat (keep_last (unat tail_lines) (split_lines (text_of (log_of (lb_events buf))))) \<and>
    (\<exists>older. log_of (lb_events buf) = older @ log_of (tail_snapshot_events tail_lines buf)) \<and>
    text_of (log_of (tail_snapshot_events tail_lines buf)) = tail_snapshot_bytes tail_lines buf"
proof -
  let ?log = "log_of (lb_events buf)"
  let ?start = "compute_tail_start_offset_by_lines (lb_events buf) (lb_total_bytes buf) tail_lines"
  have tot: "lb_total_bytes buf = length ?log" using assms(1) by (simp add: buffer_ok_def)
  have events: "log_of (tail_snapshot_events tail_lines buf) = drop ?start ?log"
    by (simp add: tail_snapshot_events_def Let_def slice_events_log tot)
  have bytes: "tail_snapshot_bytes tail_lines buf = drop ?start (text_of ?log)"
    by (simp add: tail_snapshot_bytes_def Let_def materialize_log tot text_of_log)
      (metis length_text_of text_of_log order_refl take_all_iff length_drop)
  have "drop ?start (text_of ?log) = concat (keep_last (unat tail_lines) (split_lines (text_of ?log)))"
    using tail_start [OF text_of_log, of "lb_events buf" tail_lines] assms(2) tot by simp
  then show ?thesis
    using bytes events by (auto simp: text_of_drop intro: exI [of _ "take ?start ?log"])
qed

text \<open>
  C36: nothing a service writes is lost before the buffer's capacity is reached, and subscribers
  see all of it. Draining a stream sends everything that was written to the channel, in order
  and with the time of each read, and leaves in the buffer the last bytes of the earlier log
  followed by everything written.
\<close>

theorem drain_feeds_buffer_and_subscribers:
  assumes "buffer_ok buf" and "2 * lb_max_bytes buf \<le> usize_max"
    and "spawn_log_drain stream reads (buf, sent) = (buf', sent')"
  shows "log_of sent' = log_of sent @ written_log stream reads \<and> buffer_ok buf' \<and>
    log_of (lb_events buf') = keep_last (lb_max_bytes buf) (log_of (lb_events buf) @ written_log stream reads)"
  using spawn_log_drain_pushes [of stream reads buf sent] buffer_ok_pushes [OF assms(1,2)] assms(3)
  by (auto simp: log_of_def)

text \<open>An event of three lines in a buffer of eight bytes.\<close>

definition example_event :: ServiceLogEvent where
  "example_event = \<lparr>ev_stream = Stdout, ev_bytes = [97, 98, 10, 99, 10, 100, 101, 10], ev_timestamp_unix_ms = 5\<rparr>"

lemma example_empty_buffer:
  "buffer_ok (log_buffer_new 8)" "2 * lb_max_bytes (log_buffer_new 8) \<le> usize_max"
  "lb_max_bytes (log_buffer_new 8) = 8" "lb_events (log_buffer_new 8) = []"
  by (simp_all add: log_buffer_new_def buffer_ok_def usize_max_def)

lemma example_buffer:
  "log_push example_event (log_buffer_new 8) =
     \<lparr>lb_max_bytes = 8, lb_total_bytes = 8, lb_events = [example_event]\<rparr>"
  by (simp add: log_push_def log_buffer_new_def example_event_def usize_saturating_add_def usize_max_def)

theorem log_buffer_keeps_last_bytes_witness:
  "lb_total_bytes (fold log_push [example_event, example_event] (log_buffer_new 3)) = 3"
  using log_buffer_keeps_last_bytes [of 3 "[example_event, example_event]"]
  by (simp add: usize_max_def example_event_def)

theorem tail_is_last_lines_witness:
  "tail_snapshot_bytes 2 (log_push example_event (log_buffer_new 8)) = [99, 10, 100, 101, 10]"
  using tail_is_last_lines [of "log_push example_event (log_buffer_new 8)" 2]
  by (simp add: example_buffer buffer_ok_def usize_max_def text_of_log)
    (simp add: example_event_def keep_last_def)

theorem drain_feeds_buffer_and_subscribers_witness:
  "log_of [example_event] = written_log Stdout [(5, Inr (ev_bytes example_event)), (6, Inr [])] \<and>
     log_of (lb_events (log_push example_event (log_buffer_new 8))) =
       keep_last 8 (written_log Stdout [(5, Inr (ev_bytes example_event)), (6, Inr [])])"
  using drain_feeds_buffer_and_subscribers [of "log_buffer_new 8" Stdout
      "[(5, Inr [97, 98, 10, 99, 10, 100, 101, 10]), (6, Inr [])]" "[]" "log_push example_event (log_buffer_new 8)" "[example_event]"]
    example_empty_buffer
  by (simp add: log_of_def flip: example_event_def) (simp add: example_event_def)

end
