(* ===== verification/Log_Forwarding.thy ===== *)
theory Log_Forwarding
  imports Log_Buffer Protocol_Messages
begin

text \<open>
  Logs on their way to the client: the daemon's forwarder
  (\<^verbatim>\<open>imagod-server/src/protocol_handler/logs_forwarder.rs\<close>) sends the snapshot of every
  subscribed service and then the events that follow, cut into numbered chunks on a stream or
  into datagrams; the client (\<^verbatim>\<open>imago-cli/src/commands/logs/mod.rs\<close>) watches the numbers for
  gaps and renders the chunks with a prefix on every line. The envelope around a message only
  adds the identifiers of the request.
\<close>

section \<open>Messages and their transport\<close>

datatype LogMessage = ChunkMsg LogChunk | EndMsg LogEnd

text \<open>The outcome of a write, given what was written before.\<close>

type_synonym log_writer = "LogMessage list \<Rightarrow> LogMessage \<Rightarrow> unit result"

record Forward =
  fw_seq :: u64
  fw_last_name :: "string option"
  fw_out :: "LogMessage list"

datatype ServiceLogSnapshot = SnapBytes bytes | SnapEvents "ServiceLogEvent list"

text \<open>\<open>sub_follow\<close> says that the subscription has a receiver for later events.\<close>

record ServiceLogSubscription =
  sub_service_name :: string
  sub_snapshot :: ServiceLogSnapshot
  sub_follow :: bool

datatype FollowForwardMsg = FollowEvent string ServiceLogEvent | Lagged string u64

definition LOG_STREAM_CHUNK_BYTES :: nat where
  "LOG_STREAM_CHUNK_BYTES = 16 * 1024"

definition LOG_DATAGRAM_TARGET_BYTES :: nat where
  "LOG_DATAGRAM_TARGET_BYTES = 1024"

definition DATAGRAM_SEND_RETRY_DELAYS_MS :: "nat list" where
  "DATAGRAM_SEND_RETRY_DELAYS_MS = [10, 50, 100]"

text \<open>\<open>chunks\<close> of a slice.\<close>

function chunks :: "nat \<Rightarrow> 'a list \<Rightarrow> 'a list list" where
  "chunks n xs = (if xs = [] \<or> n = 0 then [] else take n xs # chunks n (drop n xs))"
  by pat_completeness auto

termination
  by (relation "measure (\<lambda>(n, xs). length xs)") auto

declare chunks.simps [simp del]

section \<open>The forwarder on a stream\<close>

definition send_message :: "log_writer \<Rightarrow> LogMessage \<Rightarrow> Forward \<Rightarrow> unit result \<times> Forward" where
  "send_message w msg st =
     (case w (fw_out st) msg of
        Inl e \<Rightarrow> (Inl e, st)
      | Inr _ \<Rightarrow> (Inr (), st\<lparr>fw_out := fw_out st @ [msg]\<rparr>))"

definition send_single_log_chunk ::
    "log_writer \<Rightarrow> uuid \<Rightarrow> bool \<Rightarrow> string \<Rightarrow> LogStreamKind \<Rightarrow> bytes \<Rightarrow> bool \<Rightarrow> u64 option \<Rightarrow> Forward
       \<Rightarrow> unit result \<times> Forward" where
  "send_single_log_chunk w request_id with_timestamp name stream_kind bytes is_last timestamp_unix_ms st =
     (case send_message w
          (ChunkMsg \<lparr>lc_request_id = request_id, lc_seq = fw_seq st, lc_name = name,
             lc_stream_kind = stream_kind, lc_bytes = bytes, lc_is_last = is_last,
             lc_timestamp_unix_ms = (if with_timestamp then timestamp_unix_ms else None)\<rparr>) st of
        (Inl e, st') \<Rightarrow> (Inl e, st')
      | (Inr _, st') \<Rightarrow> (Inr (), st'\<lparr>fw_seq := saturating_add (fw_seq st') 1\<rparr>))"

fun send_chunk_list ::
    "log_writer \<Rightarrow> uuid \<Rightarrow> bool \<Rightarrow> string \<Rightarrow> LogStreamKind \<Rightarrow> u64 option \<Rightarrow> bytes list \<Rightarrow> Forward
       \<Rightarrow> unit result \<times> Forward" where
  "send_chunk_list w request_id with_timestamp name stream_kind ts [] st = (Inr (), st)"
| "send_chunk_list w request_id with_timestamp name stream_kind ts (c # cs) st =
     (case send_single_log_chunk w request_id with_timestamp name stream_kind c False ts st of
        (Inl e, st') \<Rightarrow> (Inl e, st')
      | (Inr _, st') \<Rightarrow> send_chunk_list w request_id with_timestamp name stream_kind ts cs st')"

type_synonym data_sender = "string \<Rightarrow> LogStreamKind \<Rightarrow> bytes \<Rightarrow> u64 option \<Rightarrow> Forward \<Rightarrow> unit result \<times> Forward"

definition send_log_data_chunks :: "log_writer \<Rightarrow> uuid \<Rightarrow> bool \<Rightarrow> data_sender" where
  "send_log_data_chunks w request_id with_timestamp name stream_kind bytes timestamp_unix_ms st =
     (if bytes = [] then (Inr (), st)
      else
        case send_chunk_list w request_id with_timestamp name stream_kind timestamp_unix_ms
            (chunks LOG_STREAM_CHUNK_BYTES bytes) st of
          (Inl e, st') \<Rightarrow> (Inl e, st')
        | (Inr _, st') \<Rightarrow> (Inr (), st'\<lparr>fw_last_name := Some name\<rparr>))"

definition send_logs_end ::
    "log_writer \<Rightarrow> uuid \<Rightarrow> LogError option \<Rightarrow> Forward \<Rightarrow> unit result \<times> Forward" where
  "send_logs_end w request_id error st =
     send_message w (EndMsg \<lparr>lend_request_id = request_id, lend_seq = fw_seq st, lend_error = error\<rparr>) st"

definition advance_seq_for_lagged :: "u64 \<Rightarrow> u64 \<Rightarrow> u64" where
  "advance_seq_for_lagged seq dropped = saturating_add seq dropped"

definition flatten_log_event_bytes :: "ServiceLogEvent list \<Rightarrow> bytes" where
  "flatten_log_event_bytes events = concat (map ev_bytes events)"

fun service_log_stream_to_protocol :: "ServiceLogStream \<Rightarrow> LogStreamKind" where
  "service_log_stream_to_protocol Stdout = LS_Stdout"
| "service_log_stream_to_protocol Stderr = LS_Stderr"

definition log_error_from_imagod_error :: "ImagodError \<Rightarrow> LogError" where
  "log_error_from_imagod_error err =
     \<lparr>le_code = (case err_code err of NotFound \<Rightarrow> ProcessNotFound | Unauthorized \<Rightarrow> PermissionDenied
        | _ \<Rightarrow> LogInternal), le_message = err_message err\<rparr>"

text \<open>
  The two forwarders share their loops, which differ in how data is sent. First the snapshots,
  in the order of the subscriptions.
\<close>

fun send_events ::
    "data_sender \<Rightarrow> string \<Rightarrow> ServiceLogEvent list \<Rightarrow> Forward \<Rightarrow> unit result \<times> Forward" where
  "send_events send_data name [] st = (Inr (), st)"
| "send_events send_data name (event # events) st =
     (case send_data name LS_Composite (ev_bytes event) (Some (ev_timestamp_unix_ms event)) st of
        (Inl e, st') \<Rightarrow> (Inl e, st')
      | (Inr _, st') \<Rightarrow> send_events send_data name events st')"

definition send_snapshot ::
    "data_sender \<Rightarrow> bool \<Rightarrow> ServiceLogSubscription \<Rightarrow> Forward \<Rightarrow> unit result \<times> Forward" where
  "send_snapshot send_data with_timestamp sub st =
     (case sub_snapshot sub of
        SnapBytes bytes \<Rightarrow> send_data (sub_service_name sub) LS_Composite bytes None st
      | SnapEvents events \<Rightarrow>
          if with_timestamp then send_events send_data (sub_service_name sub) events st
          else send_data (sub_service_name sub) LS_Composite (flatten_log_event_bytes events) None st)"

fun send_snapshots ::
    "data_sender \<Rightarrow> bool \<Rightarrow> ServiceLogSubscription list \<Rightarrow> Forward \<Rightarrow> unit result \<times> Forward" where
  "send_snapshots send_data with_timestamp [] st = (Inr (), st)"
| "send_snapshots send_data with_timestamp (sub # subs) st =
     (case send_snapshot send_data with_timestamp sub st of
        (Inl e, st') \<Rightarrow> (Inl e, st')
      | (Inr _, st') \<Rightarrow> send_snapshots send_data with_timestamp subs st')"

text \<open>
  Then the messages of the receivers' tasks, in the order in which they reach the channel, up
  to the end of all receivers or the close signal.
\<close>

fun follow_loop :: "data_sender \<Rightarrow> FollowForwardMsg list \<Rightarrow> Forward \<Rightarrow> unit result \<times> Forward" where
  "follow_loop send_data [] st = (Inr (), st)"
| "follow_loop send_data (FollowEvent service_name event # msgs) st =
     (case send_data service_name (service_log_stream_to_protocol (ev_stream event)) (ev_bytes event)
          (Some (ev_timestamp_unix_ms event)) st of
        (Inl e, st') \<Rightarrow> (Inl e, st')
      | (Inr _, st') \<Rightarrow> follow_loop send_data msgs st')"
| "follow_loop send_data (Lagged service_name dropped # msgs) st =
     follow_loop send_data msgs
       (st\<lparr>fw_last_name := Some service_name, fw_seq := advance_seq_for_lagged (fw_seq st) dropped\<rparr>)"

definition stream_logs ::
    "data_sender \<Rightarrow> bool \<Rightarrow> ServiceLogSubscription list \<Rightarrow> FollowForwardMsg list \<Rightarrow> Forward
       \<Rightarrow> unit result \<times> Forward" where
  "stream_logs send_data with_timestamp subscriptions msgs st =
     (case send_snapshots send_data with_timestamp subscriptions st of
        (Inl e, st') \<Rightarrow> (Inl e, st')
      | (Inr _, st') \<Rightarrow>
          if filter sub_follow subscriptions = [] then (Inr (), st')
          else follow_loop send_data msgs st')"

definition forward_init :: Forward where
  "forward_init = \<lparr>fw_seq = 0, fw_last_name = None, fw_out = []\<rparr>"

definition stream_logs_chunks ::
    "log_writer \<Rightarrow> uuid \<Rightarrow> bool \<Rightarrow> ServiceLogSubscription list \<Rightarrow> FollowForwardMsg list \<Rightarrow> Forward
       \<Rightarrow> unit result \<times> Forward" where
  "stream_logs_chunks w request_id with_timestamp =
     stream_logs (send_log_data_chunks w request_id with_timestamp) with_timestamp"

definition run_stream_logs_forwarder ::
    "log_writer \<Rightarrow> uuid \<Rightarrow> ServiceLogSubscription list \<Rightarrow> bool \<Rightarrow> FollowForwardMsg list
       \<Rightarrow> unit result \<times> Forward" where
  "run_stream_logs_forwarder w request_id subscriptions with_timestamp msgs =
     (case subscriptions of
        [] \<Rightarrow> (Inr (), forward_init)
      | first # _ \<Rightarrow>
          (case stream_logs_chunks w request_id with_timestamp subscriptions msgs forward_init of
             (Inr _, st) \<Rightarrow>
               let terminal_name = (case fw_last_name st of Some n \<Rightarrow> n | None \<Rightarrow> sub_service_name first) in
               (case send_single_log_chunk w request_id with_timestamp terminal_name LS_Composite [] True None st of
                  (Inl e, st') \<Rightarrow> (Inl e, st')
                | (Inr _, st') \<Rightarrow> send_logs_end w request_id None st')
           | (Inl err, st) \<Rightarrow> send_logs_end w request_id (Some (log_error_from_imagod_error err)) st))"

section \<open>The forwarder with datagrams\<close>

text \<open>\<open>attempt n\<close> is the outcome of the \<open>n\<close>-th attempt to send one datagram.\<close>

fun retry_loop :: "(nat \<Rightarrow> unit result) \<Rightarrow> ImagodError \<Rightarrow> nat \<Rightarrow> nat list \<Rightarrow> unit result" where
  "retry_loop attempt last_err n [] = Inl last_err"
| "retry_loop attempt last_err n (delay_ms # delays) =
     (case attempt n of Inr _ \<Rightarrow> Inr () | Inl err \<Rightarrow> retry_loop attempt err (n + 1) delays)"

definition send_datagram_with_retry :: "(nat \<Rightarrow> unit result) \<Rightarrow> unit result" where
  "send_datagram_with_retry attempt =
     (case attempt 0 of
        Inr _ \<Rightarrow> Inr ()
      | Inl err \<Rightarrow> retry_loop attempt err 1 DATAGRAM_SEND_RETRY_DELAYS_MS)"

definition datagram_error :: "string \<Rightarrow> ImagodError" where
  "datagram_error message = new_error Internal ''logs.datagram'' message"

text \<open>\<open>to_cbor\<close> encodes the whole envelope of a message; \<open>session\<close> sends a datagram.\<close>

definition send_datagram_envelope ::
    "(LogMessage \<Rightarrow> string + bytes) \<Rightarrow> nat \<Rightarrow> (LogMessage list \<Rightarrow> bytes \<Rightarrow> nat \<Rightarrow> unit result) \<Rightarrow> log_writer" where
  "send_datagram_envelope to_cbor max_datagram_size session out msg =
     and_then (map_err (\<lambda>e. datagram_error (''failed to encode datagram payload: '' @ e)) (to_cbor msg)) (\<lambda>bytes.
       if max_datagram_size < length bytes
       then Inl (datagram_error (''datagram payload too large: size='' @ decimal (length bytes) @
              '' max='' @ decimal max_datagram_size))
       else send_datagram_with_retry (session out bytes))"

text \<open>\<open>max_by_key\<close> returns the last of the longest names.\<close>

definition longest_name :: "string list \<Rightarrow> string option" where
  "longest_name names =
     fold (\<lambda>name best. case best of None \<Rightarrow> Some name
        | Some b \<Rightarrow> if length b \<le> length name then Some name else Some b) names None"

definition fixed_log_chunk_size ::
    "(LogMessage \<Rightarrow> string + bytes) \<Rightarrow> uuid \<Rightarrow> nat \<Rightarrow> string list \<Rightarrow> bool \<Rightarrow> nat result" where
  "fixed_log_chunk_size to_cbor request_id max_datagram_size service_names with_timestamp =
     (let name = (case longest_name service_names of Some n \<Rightarrow> n | None \<Rightarrow> ''logs'');
          probe = \<lparr>lc_request_id = request_id, lc_seq = - 1, lc_name = name, lc_stream_kind = LS_Composite,
            lc_bytes = [], lc_is_last = False,
            lc_timestamp_unix_ms = (if with_timestamp then Some (- 1) else None)\<rparr>
      in and_then (map_err (\<lambda>e. datagram_error (''failed to encode datagram probe: '' @ e)) (to_cbor (ChunkMsg probe))) (\<lambda>overhead.
        let computed_limit = max_datagram_size - usize_saturating_add (length overhead) 2;
            chunk_size = min computed_limit LOG_DATAGRAM_TARGET_BYTES
        in if chunk_size = 0
           then Inl (datagram_error (''datagram size is too small for logs payload: max='' @
                  decimal max_datagram_size @ '' overhead='' @ decimal (length overhead)))
           else Inr chunk_size))"

text \<open>The loop over the offsets of \<open>send_log_data_chunks\<close>; the chunk size is checked before it.\<close>

function datagram_chunk_loop ::
    "log_writer \<Rightarrow> uuid \<Rightarrow> bool \<Rightarrow> nat \<Rightarrow> string \<Rightarrow> LogStreamKind \<Rightarrow> bytes \<Rightarrow> u64 option \<Rightarrow> nat \<Rightarrow> Forward
       \<Rightarrow> unit result \<times> Forward" where
  "datagram_chunk_loop w request_id with_timestamp chunk_size name stream_kind bytes ts offset st =
     (if offset < length bytes \<and> 0 < chunk_size then
        let stop = min (length bytes) (offset + chunk_size) in
        (case send_single_log_chunk w request_id with_timestamp name stream_kind
             (take (stop - offset) (drop offset bytes)) False ts st of
           (Inl e, st') \<Rightarrow> (Inl e, st')
         | (Inr _, st') \<Rightarrow>
             datagram_chunk_loop w request_id with_timestamp chunk_size name stream_kind bytes ts stop st')
      else (Inr (), st))"
  by pat_completeness auto

termination
  by (relation "measure (\<lambda>(w, rid, wt, chunk_size, name, kind, bytes, ts, offset, st). length bytes - offset)") auto

declare datagram_chunk_loop.simps [simp del]

definition datagram_send_log_data_chunks :: "log_writer \<Rightarrow> uuid \<Rightarrow> bool \<Rightarrow> nat \<Rightarrow> data_sender" where
  "datagram_send_log_data_chunks w request_id with_timestamp chunk_size name stream_kind bytes timestamp_unix_ms st =
     (if bytes = [] then (Inr (), st)
      else if chunk_size = 0
      then (Inl (datagram_error ''computed logs chunk size must be greater than zero''), st)
      else
        case datagram_chunk_loop w request_id with_timestamp chunk_size name stream_kind bytes timestamp_unix_ms 0 st of
          (Inl e, st') \<Rightarrow> (Inl e, st')
        | (Inr _, st') \<Rightarrow> (Inr (), st'\<lparr>fw_last_name := Some name\<rparr>))"

definition stream_logs_datagrams ::
    "log_writer \<Rightarrow> uuid \<Rightarrow> bool \<Rightarrow> nat \<Rightarrow> ServiceLogSubscription list \<Rightarrow> FollowForwardMsg list \<Rightarrow> Forward
       \<Rightarrow> unit result \<times> Forward" where
  "stream_logs_datagrams w request_id with_timestamp chunk_size =
     stream_logs (datagram_send_log_data_chunks w request_id with_timestamp chunk_size) with_timestamp"

definition run_logs_forwarder ::
    "(LogMessage \<Rightarrow> string + bytes) \<Rightarrow> nat option \<Rightarrow> (LogMessage list \<Rightarrow> bytes \<Rightarrow> nat \<Rightarrow> unit result)
       \<Rightarrow> uuid \<Rightarrow> ServiceLogSubscription list \<Rightarrow> bool \<Rightarrow> FollowForwardMsg list \<Rightarrow> Forward" where
  "run_logs_forwarder to_cbor session_max session request_id subscriptions with_timestamp msgs =
     (case (subscriptions, session_max) of
        (first # _, Some max_datagram_size) \<Rightarrow>
          let w = send_datagram_envelope to_cbor max_datagram_size session in
          (case fixed_log_chunk_size to_cbor request_id max_datagram_size
               (map sub_service_name subscriptions) with_timestamp of
             Inl err \<Rightarrow> snd (send_logs_end w request_id (Some (log_error_from_imagod_error err)) forward_init)
           | Inr chunk_size \<Rightarrow>
               (case stream_logs_datagrams w request_id with_timestamp chunk_size subscriptions msgs forward_init of
                  (Inr _, st) \<Rightarrow>
                    let terminal_name = (case fw_last_name st of Some n \<Rightarrow> n | None \<Rightarrow> sub_service_name first);
                        st' = snd (send_single_log_chunk w request_id with_timestamp terminal_name
                          LS_Composite [] True None st)
                    in snd (send_logs_end w request_id None st')
                | (Inl err, st) \<Rightarrow>
                    snd (send_logs_end w request_id (Some (log_error_from_imagod_error err)) st)))
      | _ \<Rightarrow> forward_init)"

section \<open>The client\<close>

fun detect_seq_gap :: "u64 option \<Rightarrow> u64 \<Rightarrow> bool \<times> u64 option" where
  "detect_seq_gap (Some expected) actual = (actual \<noteq> expected, Some (saturating_add actual 1))"
| "detect_seq_gap None actual = (actual \<noteq> 0, Some (saturating_add actual 1))"

text \<open>The state of the gap detection: the expected number and whether a warning was shown.\<close>

definition warn_if_seq_gap :: "u64 \<Rightarrow> u64 option \<times> bool \<Rightarrow> u64 option \<times> bool" where
  "warn_if_seq_gap actual state =
     (case state of (expected_seq, truncated_warned) \<Rightarrow>
        case detect_seq_gap expected_seq actual of (gap, expected_seq') \<Rightarrow>
          (expected_seq', truncated_warned \<or> gap))"

definition apply_end_seq_after_drain :: "u64 \<Rightarrow> u64 list \<Rightarrow> u64 option \<times> bool \<Rightarrow> u64 option \<times> bool" where
  "apply_end_seq_after_drain end_seq delayed_chunk_seqs state =
     warn_if_seq_gap end_seq (fold warn_if_seq_gap delayed_chunk_seqs state)"

record StreamPrefixState =
  sp_name :: string
  sp_stream_kind :: LogStreamKind
  sp_at_line_start :: bool

record PrefixRenderState =
  pr_streams :: "StreamPrefixState list"
  pr_max_name_width_chars :: nat

text \<open>\<open>chars().count()\<close> of a UTF-8 string counts the bytes that do not continue a character.\<close>

definition chars_count :: "string \<Rightarrow> nat" where
  "chars_count name = length (filter (\<lambda>c. \<not> (128 \<le> (of_char c :: nat) \<and> (of_char c :: nat) < 192)) name)"

definition observe_name :: "string \<Rightarrow> PrefixRenderState \<Rightarrow> PrefixRenderState" where
  "observe_name name st =
     (if pr_max_name_width_chars st < chars_count name then st\<lparr>pr_max_name_width_chars := chars_count name\<rparr> else st)"

definition current_name_width :: "PrefixRenderState \<Rightarrow> nat" where
  "current_name_width st = max (pr_max_name_width_chars st) 1"

definition same_stream :: "string \<Rightarrow> LogStreamKind \<Rightarrow> StreamPrefixState \<Rightarrow> bool" where
  "same_stream name stream_kind state \<longleftrightarrow> sp_name state = name \<and> sp_stream_kind state = stream_kind"

definition get_at_line_start :: "string \<Rightarrow> LogStreamKind \<Rightarrow> PrefixRenderState \<Rightarrow> bool" where
  "get_at_line_start name stream_kind st =
     (case find (same_stream name stream_kind) (pr_streams st) of
        Some state \<Rightarrow> sp_at_line_start state | None \<Rightarrow> True)"

fun set_first :: "string \<Rightarrow> LogStreamKind \<Rightarrow> bool \<Rightarrow> StreamPrefixState list \<Rightarrow> StreamPrefixState list" where
  "set_first name stream_kind flag [] =
     [\<lparr>sp_name = name, sp_stream_kind = stream_kind, sp_at_line_start = flag\<rparr>]"
| "set_first name stream_kind flag (state # states) =
     (if same_stream name stream_kind state then state\<lparr>sp_at_line_start := flag\<rparr> # states
      else state # set_first name stream_kind flag states)"

definition set_at_line_start :: "string \<Rightarrow> LogStreamKind \<Rightarrow> bool \<Rightarrow> PrefixRenderState \<Rightarrow> PrefixRenderState" where
  "set_at_line_start name stream_kind flag st = st\<lparr>pr_streams := set_first name stream_kind flag (pr_streams st)\<rparr>"

definition line_prefix :: "string \<Rightarrow> string option \<Rightarrow> nat \<Rightarrow> bytes" where
  "line_prefix name timestamp name_width_chars =
     as_bytes (name @ replicate (name_width_chars - chars_count name) CHR '' '' @ '' | '' @
       (case timestamp of Some ts \<Rightarrow> ts @ '' '' | None \<Rightarrow> []))"

text \<open>The loop of \<open>format_structured_bytes\<close> over the segments that end with a newline.\<close>

function format_loop :: "bytes \<Rightarrow> bytes \<Rightarrow> bool \<Rightarrow> bytes \<times> bool" where
  "format_loop prefix bytes at_line_start =
     (if bytes = [] then ([], at_line_start)
      else
        let lead = (if at_line_start then prefix else []);
            segment = takeWhile (\<lambda>b. b \<noteq> 10) bytes;
            rest = drop (length segment + 1) bytes
        in if length segment < length bytes
           then case format_loop prefix rest True of (out, flag) \<Rightarrow> (lead @ segment @ [10] @ out, flag)
           else (lead @ bytes, False))"
  by pat_completeness auto

termination
  by (relation "measure (\<lambda>(prefix, bytes, flag). length bytes)") auto

declare format_loop.simps [simp del]

definition format_structured_bytes ::
    "string \<Rightarrow> bytes \<Rightarrow> string option \<Rightarrow> bool \<Rightarrow> nat \<Rightarrow> bytes \<times> bool" where
  "format_structured_bytes name bytes timestamp at_line_start name_width_chars =
     format_loop (line_prefix name timestamp name_width_chars) bytes at_line_start"

definition renderable_chunk_bytes ::
    "LogChunk \<Rightarrow> string option \<Rightarrow> PrefixRenderState \<Rightarrow> bytes \<times> PrefixRenderState" where
  "renderable_chunk_bytes chunk timestamp st =
     (let st1 = observe_name (lc_name chunk) st;
          at_line_start = get_at_line_start (lc_name chunk) (lc_stream_kind chunk) st1;
          (rendered, next_at_line_start) = format_structured_bytes (lc_name chunk) (lc_bytes chunk) timestamp
            at_line_start (current_name_width st1)
      in (rendered, set_at_line_start (lc_name chunk) (lc_stream_kind chunk) next_at_line_start st1))"

text \<open>
  The client's callback for one message of the response stream, after the request was
  acknowledged. \<open>format_ts\<close> is the conversion of a time stamp; the result says whether the
  stream is done.
\<close>

record LogsClient =
  cl_gap :: "u64 option \<times> bool"
  cl_prefix :: PrefixRenderState
  cl_stdout :: bytes
  cl_stderr :: bytes
  cl_saw_end :: bool

definition format_chunk_timestamp ::
    "(u64 \<Rightarrow> string + string) \<Rightarrow> LogChunk \<Rightarrow> bool \<Rightarrow> string + string option" where
  "format_chunk_timestamp format_ts chunk with_timestamp =
     (if \<not> with_timestamp then Inr None
      else case lc_timestamp_unix_ms chunk of
        None \<Rightarrow> Inl ''logs.chunk is missing timestamp_unix_ms''
      | Some ms \<Rightarrow> and_then (format_ts ms) (\<lambda>t. Inr (Some t)))"

definition should_write_text_chunk_to_stderr :: "LogChunk \<Rightarrow> bool \<Rightarrow> bool" where
  "should_write_text_chunk_to_stderr chunk all_processes \<longleftrightarrow> \<not> all_processes \<and> lc_stream_kind chunk = LS_Stderr"

definition render_chunk ::
    "(u64 \<Rightarrow> string + string) \<Rightarrow> LogChunk \<Rightarrow> bool \<Rightarrow> bool \<Rightarrow> LogsClient \<Rightarrow> string + LogsClient" where
  "render_chunk format_ts chunk all_processes with_timestamp cl =
     (if lc_bytes chunk = [] then Inr cl
      else
        and_then (format_chunk_timestamp format_ts chunk with_timestamp) (\<lambda>timestamp.
          let (rendered, prefix) = renderable_chunk_bytes chunk timestamp (cl_prefix cl) in
          Inr (if should_write_text_chunk_to_stderr chunk all_processes
               then cl\<lparr>cl_prefix := prefix, cl_stderr := cl_stderr cl @ rendered\<rparr>
               else cl\<lparr>cl_prefix := prefix, cl_stdout := cl_stdout cl @ rendered\<rparr>)))"

definition client_message ::
    "(u64 \<Rightarrow> string + string) \<Rightarrow> uuid \<Rightarrow> bool \<Rightarrow> bool \<Rightarrow> LogMessage \<Rightarrow> LogsClient \<Rightarrow> string + bool \<times> LogsClient" where
  "client_message format_ts request_id all_processes with_timestamp msg cl =
     (case msg of
        ChunkMsg chunk \<Rightarrow>
          if request_id \<noteq> lc_request_id chunk then Inr (False, cl)
          else
            and_then (render_chunk format_ts chunk all_processes with_timestamp
                (cl\<lparr>cl_gap := warn_if_seq_gap (lc_seq chunk) (cl_gap cl)\<rparr>)) (\<lambda>cl'. Inr (False, cl'))
      | EndMsg fin \<Rightarrow>
          if request_id \<noteq> lend_request_id fin then Inr (False, cl)
          else
            (case lend_error fin of
               Some error \<Rightarrow> Inl (''logs stream ended with error: '' @ le_message error)
             | None \<Rightarrow>
                 Inr (True, cl\<lparr>cl_gap := apply_end_seq_after_drain (lend_seq fin) [] (cl_gap cl),
                                cl_saw_end := True\<rparr>)))"

section \<open>What was sent\<close>

text \<open>The log of a forwarder: every byte with the service, the kind of stream and the time it is sent under.\<close>

type_synonym sent_byte = "string \<times> LogStreamKind \<times> u64 option \<times> u8"

definition tagged :: "string \<Rightarrow> LogStreamKind \<Rightarrow> u64 option \<Rightarrow> bytes \<Rightarrow> sent_byte list" where
  "tagged name kind ts = map (\<lambda>b. (name, kind, ts, b))"

fun message_log :: "LogMessage \<Rightarrow> sent_byte list" where
  "message_log (ChunkMsg c) = tagged (lc_name c) (lc_stream_kind c) (lc_timestamp_unix_ms c) (lc_bytes c)"
| "message_log (EndMsg e) = []"

fun message_seq :: "LogMessage \<Rightarrow> u64" where
  "message_seq (ChunkMsg c) = lc_seq c"
| "message_seq (EndMsg e) = lend_seq e"

definition sent_log :: "LogMessage list \<Rightarrow> sent_byte list" where
  "sent_log out = concat (map message_log out)"

definition gap_state :: "LogMessage list \<Rightarrow> u64 option \<times> bool" where
  "gap_state out = fold (\<lambda>m. warn_if_seq_gap (message_seq m)) out (None, False)"

definition next_expected :: "u64 option \<Rightarrow> u64" where
  "next_expected e = (case e of None \<Rightarrow> 0 | Some n \<Rightarrow> n)"

text \<open>What has to be sent for the subscriptions and the messages that follow.\<close>

definition snapshot_log :: "bool \<Rightarrow> ServiceLogSubscription \<Rightarrow> sent_byte list" where
  "snapshot_log with_timestamp sub =
     (case sub_snapshot sub of
        SnapBytes bytes \<Rightarrow> tagged (sub_service_name sub) LS_Composite None bytes
      | SnapEvents events \<Rightarrow> concat (map (\<lambda>e. tagged (sub_service_name sub) LS_Composite
          (if with_timestamp then Some (ev_timestamp_unix_ms e) else None) (ev_bytes e)) events))"

fun follow_log :: "bool \<Rightarrow> FollowForwardMsg \<Rightarrow> sent_byte list" where
  "follow_log with_timestamp (FollowEvent name e) =
     tagged name (service_log_stream_to_protocol (ev_stream e))
       (if with_timestamp then Some (ev_timestamp_unix_ms e) else None) (ev_bytes e)"
| "follow_log with_timestamp (Lagged name dropped) = []"

fun lagging :: "FollowForwardMsg \<Rightarrow> bool" where
  "lagging (FollowEvent name e) = False"
| "lagging (Lagged name dropped) = (dropped \<noteq> 0)"

fun follow_name :: "FollowForwardMsg \<Rightarrow> string" where
  "follow_name (FollowEvent name e) = name"
| "follow_name (Lagged name dropped) = name"

definition followed :: "ServiceLogSubscription list \<Rightarrow> FollowForwardMsg list \<Rightarrow> FollowForwardMsg list" where
  "followed subs msgs = (if filter sub_follow subs = [] then [] else msgs)"

definition planned_log ::
    "bool \<Rightarrow> ServiceLogSubscription list \<Rightarrow> FollowForwardMsg list \<Rightarrow> sent_byte list" where
  "planned_log with_timestamp subs msgs =
     concat (map (snapshot_log with_timestamp) subs) @ concat (map (follow_log with_timestamp) (followed subs msgs))"

definition data_message :: "bool \<Rightarrow> uuid \<Rightarrow> nat \<Rightarrow> string set \<Rightarrow> LogMessage \<Rightarrow> bool" where
  "data_message wt request_id limit names m \<longleftrightarrow>
     (\<exists>c. m = ChunkMsg c \<and> (lc_timestamp_unix_ms c \<noteq> None \<longrightarrow> wt) \<and> lc_request_id c = request_id \<and> \<not> lc_is_last c \<and> lc_name c \<in> names \<and>
        0 < length (lc_bytes c) \<and> length (lc_bytes c) \<le> limit)"

text \<open>
  The invariant of a forwarder while all its writes succeed: the log sent so far, the shape of
  the messages, and that the receiver of the numbers has seen or is about to see a gap exactly
  if events were dropped (as long as the number has not reached its maximum).
\<close>

definition forward_ok ::
    "bool \<Rightarrow> uuid \<Rightarrow> nat \<Rightarrow> string set \<Rightarrow> bool \<Rightarrow> sent_byte list \<Rightarrow> Forward \<Rightarrow> bool" where
  "forward_ok wt request_id limit names lagged log st \<longleftrightarrow>
     sent_log (fw_out st) = log \<and> list_all (data_message wt request_id limit names) (fw_out st) \<and>
     (\<forall>n. fw_last_name st = Some n \<longrightarrow> n \<in> names) \<and>
     (fw_seq st \<noteq> - 1 \<longrightarrow>
        (case gap_state (fw_out st) of (expected, warned) \<Rightarrow>
           next_expected expected \<le> fw_seq st \<and> (warned \<or> next_expected expected \<noteq> fw_seq st) = lagged))"

lemma sent_log_simps [simp]: "sent_log [] = []" "sent_log (xs @ ys) = sent_log xs @ sent_log ys"
    "sent_log [m] = message_log m"
  by (simp_all add: sent_log_def)

lemma gap_state_snoc: "gap_state (out @ [m]) = warn_if_seq_gap (message_seq m) (gap_state out)"
  by (simp add: gap_state_def)

lemma warn_eq:
  "warn_if_seq_gap actual (e, warned) = (Some (saturating_add actual 1), warned \<or> actual \<noteq> next_expected e)"
  by (cases e) (simp_all add: warn_if_seq_gap_def next_expected_def)

lemma tagged_simps [simp]: "tagged n k t [] = []" "tagged n k t (xs @ ys) = tagged n k t xs @ tagged n k t ys"
  by (simp_all add: tagged_def)

lemma saturating_not_max:
  fixes a b :: u64
  assumes "saturating_add a b \<noteq> - 1"
  shows "a \<noteq> - 1" "unat (saturating_add a b) = unat a + unat b"
proof -
  have "unat (saturating_add a b) \<noteq> unat (- 1 :: u64)" using assms by (simp add: word_unat_eq_iff)
  then have *: "unat a + unat b < 2 ^ 64 - 1"
    using unat_saturating_add [of a b] by (simp add: unsigned_minus_1_eq_mask mask_eq_exp_minus_1 min_def split: if_splits)
  then show "unat (saturating_add a b) = unat a + unat b"
    using unat_saturating_add [of a b] by simp
  show "a \<noteq> - 1" using * by (auto simp: unsigned_minus_1_eq_mask mask_eq_exp_minus_1)
qed

definition writer_ok :: "log_writer \<Rightarrow> bool \<Rightarrow> uuid \<Rightarrow> nat \<Rightarrow> string set \<Rightarrow> bool" where
  "writer_ok w wt request_id limit names \<longleftrightarrow>
     (\<forall>out m. data_message wt request_id limit names m \<longrightarrow> w out m = Inr ())"

lemma single_chunk_ok:
  assumes "forward_ok wt request_id limit names lagged log st" "n \<in> names" "0 < length c" "length c \<le> limit"
    and "writer_ok w wt request_id limit names"
  shows "\<exists>st'. send_single_log_chunk w request_id wt n k c False ts st = (Inr (), st') \<and>
    forward_ok wt request_id limit names lagged (log @ tagged n k (if wt then ts else None) c) st'"
proof -
  let ?m = "ChunkMsg \<lparr>lc_request_id = request_id, lc_seq = fw_seq st, lc_name = n, lc_stream_kind = k,
    lc_bytes = c, lc_is_last = False, lc_timestamp_unix_ms = (if wt then ts else None)\<rparr>"
  let ?st = "st\<lparr>fw_out := fw_out st @ [?m], fw_seq := saturating_add (fw_seq st) 1\<rparr>"
  have m: "data_message wt request_id limit names ?m" using assms(2-4) by (simp add: data_message_def)
  have sends: "send_single_log_chunk w request_id wt n k c False ts st = (Inr (), ?st)"
    using assms(5) m by (simp add: writer_ok_def send_single_log_chunk_def send_message_def)
  obtain e warned where gap: "gap_state (fw_out st) = (e, warned)" by force
  have "forward_ok wt request_id limit names lagged (log @ tagged n k (if wt then ts else None) c) ?st"
    using assms(1) m gap saturating_not_max [of "fw_seq st" 1]
    by (auto simp: forward_ok_def gap_state_snoc warn_eq next_expected_def)
  then show ?thesis using sends by blast
qed

lemma chunk_list_ok:
  assumes "forward_ok wt request_id limit names lagged log st" "n \<in> names"
    and "\<forall>c \<in> set cs. 0 < length c \<and> length c \<le> limit"
    and "writer_ok w wt request_id limit names"
  shows "\<exists>st'. send_chunk_list w request_id wt n k ts cs st = (Inr (), st') \<and>
    forward_ok wt request_id limit names lagged (log @ tagged n k (if wt then ts else None) (concat cs)) st'"
  using assms(1,3)
proof (induction cs arbitrary: log st)
  case (Cons c cs)
  from single_chunk_ok [where c = c and wt = wt and k = k and ts = ts,
      OF Cons.prems(1) assms(2) _ _ assms(4)] Cons.prems(2)
  obtain st1 where st1: "send_single_log_chunk w request_id wt n k c False ts st = (Inr (), st1)"
      "forward_ok wt request_id limit names lagged (log @ tagged n k (if wt then ts else None) c) st1"
    by auto
  from Cons.IH [OF st1(2)] Cons.prems(2) show ?case by (auto simp: st1(1))
qed simp

lemma concat_chunks: "0 < n \<Longrightarrow> concat (chunks n xs) = xs"
  by (induction n xs rule: chunks.induct) (subst chunks.simps, auto)

lemma chunks_sizes: "c \<in> set (chunks n xs) \<Longrightarrow> 0 < length c \<and> length c \<le> n"
  by (induction n xs rule: chunks.induct) (subst (asm) (2) chunks.simps, auto split: if_splits)

text \<open>The offset loop of the datagram sender sends the same chunks.\<close>

lemma datagram_chunk_loop_chunks:
  "0 < n \<Longrightarrow> datagram_chunk_loop w request_id wt n name k bytes ts offset st =
     send_chunk_list w request_id wt name k ts (chunks n (drop offset bytes)) st"
proof (induction w request_id wt n name k bytes ts offset st rule: datagram_chunk_loop.induct)
  case (1 w request_id wt n name k bytes ts offset st)
  let ?stop = "min (length bytes) (offset + n)"
  show ?case
  proof (cases "offset < length bytes")
    case False
    then show ?thesis by (subst datagram_chunk_loop.simps, subst chunks.simps) simp
  next
    case True
    have slice: "take (?stop - offset) (drop offset bytes) = take n (drop offset bytes)"
      by (simp add: min_def)
    have rest: "drop ?stop bytes = drop n (drop offset bytes)"
      by (simp add: min_def add.commute)
    have chunk: "chunks n (drop offset bytes) = take n (drop offset bytes) # chunks n (drop n (drop offset bytes))"
      using True "1.prems" by (subst chunks.simps) simp
    show ?thesis
      using "1.IH" [OF conjI [OF True "1.prems"] refl] "1.prems" True
      by (subst datagram_chunk_loop.simps)
        (simp add: Let_def chunk rest slice split: prod.splits sum.splits)
  qed
qed

locale log_sender =
  fixes send_data :: data_sender and request_id :: uuid and limit :: nat and names :: "string set" and wt :: bool
  assumes sends: "n \<in> names \<Longrightarrow> forward_ok wt request_id limit names lagged log st \<Longrightarrow>
    \<exists>st'. send_data n k b ts st = (Inr (), st') \<and>
      forward_ok wt request_id limit names lagged (log @ tagged n k (if wt then ts else None) b) st'"
begin

lemma events_sent:
  "n \<in> names \<Longrightarrow> forward_ok wt request_id limit names lagged log st \<Longrightarrow>
    \<exists>st'. send_events send_data n es st = (Inr (), st') \<and>
      forward_ok wt request_id limit names lagged
        (log @ concat (map (\<lambda>e. tagged n LS_Composite (if wt then Some (ev_timestamp_unix_ms e) else None) (ev_bytes e)) es)) st'"
proof (induction es arbitrary: log st)
  case (Cons e es)
  from sends [OF Cons.prems, of LS_Composite "ev_bytes e" "Some (ev_timestamp_unix_ms e)"]
  obtain st1 where st1: "send_data n LS_Composite (ev_bytes e) (Some (ev_timestamp_unix_ms e)) st = (Inr (), st1)"
    "forward_ok wt request_id limit names lagged
      (log @ tagged n LS_Composite (if wt then Some (ev_timestamp_unix_ms e) else None) (ev_bytes e)) st1" by blast
  from Cons.IH [OF Cons.prems(1) st1(2)] show ?case by (auto simp: st1(1))
qed simp

lemma snapshot_sent:
  assumes "sub_service_name sub \<in> names" "forward_ok wt request_id limit names lagged log st"
  shows "\<exists>st'. send_snapshot send_data wt sub st = (Inr (), st') \<and>
      forward_ok wt request_id limit names lagged (log @ snapshot_log wt sub) st'"
proof (cases "sub_snapshot sub")
  case (SnapBytes bytes)
  then show ?thesis using sends [OF assms, of LS_Composite bytes None] by (simp add: send_snapshot_def snapshot_log_def)
next
  case (SnapEvents es)
  have "tagged n k None (flatten_log_event_bytes es) = concat (map (\<lambda>e. tagged n k None (ev_bytes e)) es)" for n k
    by (induction es) (simp_all add: flatten_log_event_bytes_def)
  then show ?thesis
    using SnapEvents events_sent [OF assms, of es] sends [OF assms, of LS_Composite "flatten_log_event_bytes es" None]
    by (auto simp: send_snapshot_def snapshot_log_def)
qed

lemma snapshots_sent:
  "\<forall>sub \<in> set subs. sub_service_name sub \<in> names \<Longrightarrow> forward_ok wt request_id limit names lagged log st \<Longrightarrow>
    \<exists>st'. send_snapshots send_data wt subs st = (Inr (), st') \<and>
      forward_ok wt request_id limit names lagged (log @ concat (map (snapshot_log wt) subs)) st'"
proof (induction subs arbitrary: log st)
  case (Cons sub subs)
  from snapshot_sent [of sub lagged log st] Cons.prems obtain st1 where
    st1: "send_snapshot send_data wt sub st = (Inr (), st1)"
      "forward_ok wt request_id limit names lagged (log @ snapshot_log wt sub) st1" by auto
  from Cons.IH [OF _ st1(2)] Cons.prems(1) show ?case by (auto simp: st1(1))
qed simp

lemma lag_ok:
  assumes "forward_ok wt request_id limit names lagged log st" "n \<in> names"
  shows "forward_ok wt request_id limit names (lagged \<or> dropped \<noteq> 0) log
    (st\<lparr>fw_last_name := Some n, fw_seq := advance_seq_for_lagged (fw_seq st) dropped\<rparr>)"
proof -
  obtain e warned where gap: "gap_state (fw_out st) = (e, warned)" by force
  note sat = saturating_not_max [of "fw_seq st" dropped]
  show ?thesis
    using assms gap sat
    by (auto simp: forward_ok_def advance_seq_for_lagged_def word_le_nat_alt word_unat_eq_iff)
qed

lemma follow_sent:
  "\<forall>m \<in> set msgs. follow_name m \<in> names \<Longrightarrow> forward_ok wt request_id limit names lagged log st \<Longrightarrow>
    \<exists>st'. follow_loop send_data msgs st = (Inr (), st') \<and>
      forward_ok wt request_id limit names (lagged \<or> list_ex lagging msgs)
        (log @ concat (map (follow_log wt) msgs)) st'"
proof (induction msgs arbitrary: lagged log st)
  case (Cons m msgs)
  show ?case
  proof (cases m)
    case (FollowEvent n e)
    let ?k = "service_log_stream_to_protocol (ev_stream e)"
    from sends [of n lagged log st ?k "ev_bytes e" "Some (ev_timestamp_unix_ms e)"] Cons.prems FollowEvent
    obtain st1 where st1: "send_data n ?k (ev_bytes e) (Some (ev_timestamp_unix_ms e)) st = (Inr (), st1)"
      "forward_ok wt request_id limit names lagged (log @ follow_log wt m) st1" by auto
    from Cons.IH [OF _ st1(2)] Cons.prems(1) FollowEvent show ?thesis by (auto simp: st1(1))
  next
    case (Lagged n dropped)
    from Cons.IH [OF _ lag_ok [OF Cons.prems(2), of n dropped]] Cons.prems(1) Lagged show ?thesis by auto
  qed
qed simp

lemma stream_sent:
  assumes "\<forall>sub \<in> set subs. sub_service_name sub \<in> names" "\<forall>m \<in> set msgs. follow_name m \<in> names"
    and "forward_ok wt request_id limit names False [] st"
  shows "\<exists>st'. stream_logs send_data wt subs msgs st = (Inr (), st') \<and>
    forward_ok wt request_id limit names (list_ex lagging (followed subs msgs)) (planned_log wt subs msgs) st'"
proof -
  from snapshots_sent [OF assms(1,3)] obtain st1 where st1: "send_snapshots send_data wt subs st = (Inr (), st1)"
    "forward_ok wt request_id limit names False (concat (map (snapshot_log wt) subs)) st1" by auto
  show ?thesis
    using st1 follow_sent [OF assms(2) st1(2)]
    by (auto simp: stream_logs_def followed_def planned_log_def)
qed

end

lemma forward_init_ok: "forward_ok wt request_id limit names False [] forward_init"
  by (simp add: forward_ok_def forward_init_def gap_state_def next_expected_def)

lemma last_name_ok:
  "forward_ok wt request_id limit names lagged log st \<Longrightarrow> n \<in> names \<Longrightarrow>
     forward_ok wt request_id limit names lagged log (st\<lparr>fw_last_name := Some n\<rparr>)"
  by (auto simp: forward_ok_def)

lemma stream_sender:
  assumes "writer_ok w wt request_id LOG_STREAM_CHUNK_BYTES names"
  shows "log_sender (send_log_data_chunks w request_id wt) request_id LOG_STREAM_CHUNK_BYTES names wt"
proof
  fix n lagged log st k b ts
  assume n: "n \<in> names" and ok: "forward_ok wt request_id LOG_STREAM_CHUNK_BYTES names lagged log st"
  obtain st' where st': "send_chunk_list w request_id wt n k ts (chunks LOG_STREAM_CHUNK_BYTES b) st = (Inr (), st')"
      "forward_ok wt request_id LOG_STREAM_CHUNK_BYTES names lagged (log @ tagged n k (if wt then ts else None) b) st'"
    using chunk_list_ok [OF ok n _ assms, of "chunks LOG_STREAM_CHUNK_BYTES b" k ts] chunks_sizes
      concat_chunks [of LOG_STREAM_CHUNK_BYTES b]
    by (auto simp: LOG_STREAM_CHUNK_BYTES_def)
  show "\<exists>st'. send_log_data_chunks w request_id wt n k b ts st = (Inr (), st') \<and>
      forward_ok wt request_id LOG_STREAM_CHUNK_BYTES names lagged (log @ tagged n k (if wt then ts else None) b) st'"
    using st' ok n last_name_ok by (cases "b = []") (auto simp: send_log_data_chunks_def)
qed

lemma datagram_sender:
  assumes "writer_ok w wt request_id csize names" "0 < csize"
  shows "log_sender (datagram_send_log_data_chunks w request_id wt csize) request_id csize names wt"
proof
  fix n lagged log st k b ts
  assume n: "n \<in> names" and ok: "forward_ok wt request_id csize names lagged log st"
  obtain st' where st': "send_chunk_list w request_id wt n k ts (chunks csize b) st = (Inr (), st')"
      "forward_ok wt request_id csize names lagged (log @ tagged n k (if wt then ts else None) b) st'"
    using chunk_list_ok [OF ok n _ assms(1), of "chunks csize b" k ts] chunks_sizes concat_chunks [OF assms(2), of b]
    by auto
  show "\<exists>st'. datagram_send_log_data_chunks w request_id wt csize n k b ts st = (Inr (), st') \<and>
      forward_ok wt request_id csize names lagged (log @ tagged n k (if wt then ts else None) b) st'"
    using st' ok n last_name_ok assms(2) datagram_chunk_loop_chunks [OF assms(2), of w request_id wt n k b ts 0 st]
    by (cases "b = []") (auto simp: datagram_send_log_data_chunks_def)
qed

interpretation stream: log_sender "send_log_data_chunks (\<lambda>_ _. Inr ()) request_id wt" request_id LOG_STREAM_CHUNK_BYTES UNIV wt
  by (rule stream_sender) (simp add: writer_ok_def)

lemma longest_name_max:
  assumes "names \<noteq> []"
  shows "\<exists>n. longest_name names = Some n \<and> (\<forall>m \<in> set names. length m \<le> length n)"
proof -
  let ?f = "\<lambda>name best. case best of None \<Rightarrow> Some name | Some b \<Rightarrow> if length b \<le> length name then Some name else Some b"
  have "\<exists>n. fold ?f ns (Some b) = Some n \<and> length b \<le> length n \<and> (\<forall>m \<in> set ns. length m \<le> length n)"
    for ns and b :: string
  proof (induction ns arbitrary: b)
    case (Cons a ns)
    show ?case using Cons.IH [of "if length b \<le> length a then a else b"] by (auto split: if_splits)
  qed simp
  from this [of "tl names" "hd names"] assms show ?thesis by (cases names) (auto simp: longest_name_def)
qed

text \<open>
  What the size of an encoded chunk depends on: numbers and optional fields are largest in the
  probe, a longer name takes more bytes, and the header of a byte string grows by at most two
  bytes up to 65535 bytes. An end without an error has none of the fields of a chunk but the
  identifier and the number, and is not longer than an empty chunk.
\<close>

definition cbor_sizes :: "(LogMessage \<Rightarrow> bytes) \<Rightarrow> bool" where
  "cbor_sizes enc \<longleftrightarrow> (\<forall>c probe. length (lc_name c) \<le> length (lc_name probe) \<and> lc_seq probe = - 1 \<and>
     lc_stream_kind probe = LS_Composite \<and> lc_bytes probe = [] \<and> length (lc_bytes c) < 65536 \<and>
     lc_request_id c = lc_request_id probe \<and>
     (case lc_timestamp_unix_ms probe of None \<Rightarrow> lc_timestamp_unix_ms c = None | Some t \<Rightarrow> t = - 1) \<longrightarrow>
     length (enc (ChunkMsg c)) \<le> length (enc (ChunkMsg probe)) + 2 + length (lc_bytes c)) \<and>
     (\<forall>e probe. lend_error e = None \<and> lend_request_id e = lc_request_id probe \<and> lc_seq probe = - 1 \<longrightarrow>
       length (enc (EndMsg e)) \<le> length (enc (ChunkMsg probe)))"

lemma datagram_sizes:
  assumes "cbor_sizes enc" and "\<forall>m. length (enc m) + 2 \<le> usize_max" and "names \<noteq> []"
    and "fixed_log_chunk_size (\<lambda>m. Inr (enc m)) request_id max_size names wt = Inr chunk_size"
  shows "0 < chunk_size" and "chunk_size \<le> LOG_DATAGRAM_TARGET_BYTES"
    and "(lc_timestamp_unix_ms c \<noteq> None \<longrightarrow> wt) \<Longrightarrow> lc_request_id c = request_id \<Longrightarrow> lc_name c \<in> set names \<Longrightarrow>
      length (lc_bytes c) \<le> chunk_size \<Longrightarrow> length (enc (ChunkMsg c)) \<le> max_size"
    and "lend_error e = None \<Longrightarrow> lend_request_id e = request_id \<Longrightarrow> length (enc (EndMsg e)) \<le> max_size"
proof -
  obtain n where n: "longest_name names = Some n" "\<forall>m \<in> set names. length m \<le> length n"
    using longest_name_max [of names] assms(3) by auto
  define probe where "probe = \<lparr>lc_request_id = request_id, lc_seq = - 1, lc_name = n, lc_stream_kind = LS_Composite,
    lc_bytes = [], lc_is_last = False, lc_timestamp_unix_ms = (if wt then Some (- 1) else None)\<rparr>"
  have size: "chunk_size = min (max_size - (length (enc (ChunkMsg probe)) + 2)) LOG_DATAGRAM_TARGET_BYTES" "0 < chunk_size"
    using assms(2,4) n(1)
    by (auto simp: fixed_log_chunk_size_def Let_def usize_saturating_add_def probe_def split: if_splits)
  show "0 < chunk_size" "chunk_size \<le> LOG_DATAGRAM_TARGET_BYTES" using size by simp_all
  show "length (enc (ChunkMsg c)) \<le> max_size"
    if "lc_timestamp_unix_ms c \<noteq> None \<longrightarrow> wt" "lc_request_id c = request_id" "lc_name c \<in> set names"
      "length (lc_bytes c) \<le> chunk_size"
  proof -
    have "length (enc (ChunkMsg c)) \<le> length (enc (ChunkMsg probe)) + 2 + length (lc_bytes c)"
      using assms(1) that n(2) size unfolding cbor_sizes_def by (auto simp: probe_def LOG_DATAGRAM_TARGET_BYTES_def)
    then show ?thesis using that(4) size by linarith
  qed
  show "length (enc (EndMsg e)) \<le> max_size" if "lend_error e = None" "lend_request_id e = request_id"
  proof -
    have "length (enc (EndMsg e)) \<le> length (enc (ChunkMsg probe))"
      using assms(1) that unfolding cbor_sizes_def by (simp add: probe_def)
    then show ?thesis using size by linarith
  qed
qed

text \<open>The two messages that close a forwarding: the numbers show a gap exactly if events were dropped.\<close>

definition closing :: "uuid \<Rightarrow> string \<Rightarrow> Forward \<Rightarrow> LogMessage list" where
  "closing request_id name st =
     [ChunkMsg \<lparr>lc_request_id = request_id, lc_seq = fw_seq st, lc_name = name, lc_stream_kind = LS_Composite,
        lc_bytes = [], lc_is_last = True, lc_timestamp_unix_ms = None\<rparr>,
      EndMsg \<lparr>lend_request_id = request_id, lend_seq = saturating_add (fw_seq st) 1, lend_error = None\<rparr>]"

lemma closing_gap:
  assumes "forward_ok wt request_id limit names lagged log st"
  shows "saturating_add (fw_seq st) 1 = - 1 \<or> snd (gap_state (fw_out st @ closing request_id name st)) = lagged"
proof -
  obtain e warned where gap: "gap_state (fw_out st) = (e, warned)" by force
  show ?thesis
    using assms gap saturating_not_max(1) [of "fw_seq st" 1]
    by (auto simp: forward_ok_def closing_def gap_state_snoc [of "fw_out st @ [_]", simplified]
        gap_state_snoc warn_eq next_expected_def)
qed

lemma send_closing:
  assumes "\<And>out m. m \<in> set (closing request_id name st) \<Longrightarrow> w out m = Inr ()"
  shows "send_single_log_chunk w request_id wt name LS_Composite [] True None st =
      (Inr (), st\<lparr>fw_out := fw_out st @ [hd (closing request_id name st)], fw_seq := saturating_add (fw_seq st) 1\<rparr>)"
    and "send_logs_end w request_id None
        (st\<lparr>fw_out := fw_out st @ [hd (closing request_id name st)], fw_seq := saturating_add (fw_seq st) 1\<rparr>) =
      (Inr (), st\<lparr>fw_out := fw_out st @ closing request_id name st, fw_seq := saturating_add (fw_seq st) 1\<rparr>)"
  using assms by (simp_all add: send_single_log_chunk_def send_logs_end_def send_message_def closing_def)

section \<open>Rendering\<close>

lemma takeWhile_full: "length (takeWhile P xs) < length xs \<longleftrightarrow> (\<exists>x \<in> set xs. \<not> P x)"
  by (induction xs) auto

lemma format_loop_nil: "format_loop prefix [] flag = ([], flag)"
  by (subst format_loop.simps) simp

lemma format_loop_line:
  assumes "10 \<in> set xs"
  shows "format_loop prefix xs flag =
    (case format_loop prefix (drop (length (takeWhile (\<lambda>b. b \<noteq> 10) xs) + 1) xs) True of
       (out, f) \<Rightarrow> ((if flag then prefix else []) @ takeWhile (\<lambda>b. b \<noteq> 10) xs @ [10] @ out, f))"
proof -
  have "xs \<noteq> []" "length (takeWhile (\<lambda>b. b \<noteq> 10) xs) < length xs" using assms by (auto simp: takeWhile_full)
  then show ?thesis by (subst format_loop.simps) (simp add: Let_def)
qed

lemma format_loop_part:
  assumes "xs \<noteq> []" "10 \<notin> set xs"
  shows "format_loop prefix xs flag = ((if flag then prefix else []) @ xs, False)"
proof -
  have "\<not> length (takeWhile (\<lambda>b. b \<noteq> 10) xs) < length xs" using assms(2) by (auto simp: takeWhile_full)
  then show ?thesis using assms(1) by (subst format_loop.simps) (simp add: Let_def)
qed

lemma format_loop_append:
  "format_loop prefix (xs @ ys) flag =
     (case format_loop prefix xs flag of (out1, flag1) \<Rightarrow>
      case format_loop prefix ys flag1 of (out2, flag2) \<Rightarrow> (out1 @ out2, flag2))"
proof (induction "length xs" arbitrary: xs flag rule: less_induct)
  case less
  let ?seg = "takeWhile (\<lambda>b. b \<noteq> 10) xs"
  consider (empty) "xs = []" | (line) "10 \<in> set xs" | (part) "xs \<noteq> []" "10 \<notin> set xs" by blast
  then show ?case
  proof cases
    case empty
    then show ?thesis by (simp add: format_loop_nil split: prod.splits)
  next
    case line
    then have seg: "takeWhile (\<lambda>b. b \<noteq> 10) (xs @ ys) = ?seg" "length ?seg < length xs"
      by (simp_all add: takeWhile_append1 takeWhile_full)
    have "format_loop prefix (drop (length ?seg + 1) xs @ ys) True =
        (case format_loop prefix (drop (length ?seg + 1) xs) True of (out1, flag1) \<Rightarrow>
         case format_loop prefix ys flag1 of (out2, flag2) \<Rightarrow> (out1 @ out2, flag2))"
      using less [of "drop (length ?seg + 1) xs"] seg(2) by simp
    then show ?thesis
      using line seg format_loop_line [of xs] format_loop_line [of "xs @ ys"] by (simp split: prod.splits)
  next
    case part
    note first = format_loop_part [OF part]
    show ?thesis
    proof (cases "10 \<in> set ys")
      case True
      have "takeWhile (\<lambda>b. b \<noteq> 10) (xs @ ys) = xs @ takeWhile (\<lambda>b. b \<noteq> 10) ys"
        using part(2) by (intro takeWhile_append2) auto
      then show ?thesis
        using first True format_loop_line [of ys prefix False] format_loop_line [of "xs @ ys" prefix flag]
        by (simp split: prod.splits)
    next
      case False
      then show ?thesis
        using part first format_loop_part [of "xs @ ys"] format_loop_part [of ys prefix False]
        by (cases "ys = []") (simp_all add: format_loop_nil)
    qed
  qed
qed

text \<open>A text that starts at the beginning of a line gets the prefix once per line.\<close>

lemma split_lines_line: "10 \<notin> set seg \<Longrightarrow> split_lines (seg @ 10 # rest) = (seg @ [10]) # split_lines rest"
  by (induction seg) auto

lemma split_lines_part: "xs \<noteq> [] \<Longrightarrow> 10 \<notin> set xs \<Longrightarrow> split_lines xs = [xs]"
proof (induction xs)
  case (Cons b xs)
  then show ?case by (cases "xs = []") auto
qed simp

lemma format_loop_lines:
  "format_loop prefix xs True = (concat (map (\<lambda>l. prefix @ l) (split_lines xs)), xs = [] \<or> last xs = 10)"
proof (induction "length xs" arbitrary: xs rule: less_induct)
  case less
  consider (empty) "xs = []" | (line) "10 \<in> set xs" | (part) "xs \<noteq> []" "10 \<notin> set xs" by blast
  then show ?case
  proof cases
    case empty
    then show ?thesis by (simp add: format_loop_nil)
  next
    case line
    then obtain seg rest where xs: "xs = seg @ 10 # rest" "10 \<notin> set seg" by (meson split_list_first)
    have "takeWhile (\<lambda>b. b \<noteq> 10) xs = seg" using xs by (auto simp: takeWhile_tail)
    then show ?thesis
      using format_loop_line [OF line, of prefix True] less [of rest] xs split_lines_line [OF xs(2), of rest]
      by simp
  next
    case part
    have "last xs \<noteq> 10" using part last_in_set [OF part(1)] by metis
    then show ?thesis using part(1) format_loop_part [OF part] split_lines_part [OF part] by simp
  qed
qed

lemma same_stream_simps [simp]:
  "same_stream n k (s\<lparr>sp_at_line_start := f\<rparr>) = same_stream n k s"
  "same_stream n k \<lparr>sp_name = n', sp_stream_kind = k', sp_at_line_start = f\<rparr> \<longleftrightarrow> n' = n \<and> k' = k"
  by (simp_all add: same_stream_def)

lemma same_stream_unique: "same_stream n k s \<Longrightarrow> same_stream n' k' s \<Longrightarrow> n = n' \<and> k = k'"
  by (simp add: same_stream_def)

lemma find_set_first_same: "\<exists>s. find (same_stream n k) (set_first n k f states) = Some s \<and> sp_at_line_start s = f"
  by (induction states) simp_all

lemma find_set_first_other:
  assumes "n \<noteq> n' \<or> k \<noteq> k'"
  shows "find (same_stream n k) (set_first n' k' f states) = find (same_stream n k) states"
proof (induction states)
  case (Cons s states)
  then show ?case using same_stream_unique [of n k s n' k'] assms by (cases "same_stream n' k' s") auto
qed (use assms in auto)

lemma get_set_at_line_start:
  "get_at_line_start n k (set_at_line_start n' k' flag st) =
     (if n = n' \<and> k = k' then flag else get_at_line_start n k st)"
  using find_set_first_same [of n k flag "pr_streams st"] find_set_first_other [of n n' k k' flag "pr_streams st"]
  by (auto simp: get_at_line_start_def set_at_line_start_def)

lemma set_first_twice: "set_first n k f (set_first n k g states) = set_first n k f states"
  by (induction states) auto

lemma set_at_line_start_twice:
  "set_at_line_start n k f (set_at_line_start n k g st) = set_at_line_start n k f st"
  by (simp add: set_at_line_start_def set_first_twice)

lemma observe_twice: "observe_name n (set_at_line_start n k f (observe_name n st)) = set_at_line_start n k f (observe_name n st)"
  by (auto simp: observe_name_def set_at_line_start_def)

section \<open>Properties\<close>

text \<open>
  C31: the client receives the logs it asked for, and the warning about lost logs is exact.
  When the stream takes every message, the forwarder sends the snapshots of all services and
  then every event that follows, byte for byte and in order, in non-empty chunks of at most
  16 KiB, closed by one empty final chunk and an end message without error; and the client
  that checks the numbers warns exactly if a receiver lagged and lost events, as long as the
  numbers stay below their maximum.
\<close>

theorem logs_delivered:
  assumes "subs \<noteq> []"
  shows "\<exists>out final fin st. run_stream_logs_forwarder (\<lambda>_ _. Inr ()) request_id subs wt msgs = (Inr (), st) \<and>
    fw_out st = out @ [ChunkMsg final, EndMsg fin] \<and>
    sent_log out = planned_log wt subs msgs \<and>
    list_all (data_message wt request_id LOG_STREAM_CHUNK_BYTES UNIV) out \<and>
    lc_is_last final \<and> lc_bytes final = [] \<and> lend_error fin = None \<and>
    (lend_seq fin = - 1 \<or> snd (gap_state (fw_out st)) = list_ex lagging (followed subs msgs))"
proof -
  obtain first rest where subs: "subs = first # rest" using assms by (cases subs) auto
  obtain st1 where st1: "stream_logs (send_log_data_chunks (\<lambda>_ _. Inr ()) request_id wt) wt subs msgs forward_init = (Inr (), st1)"
      "forward_ok wt request_id LOG_STREAM_CHUNK_BYTES UNIV (list_ex lagging (followed subs msgs)) (planned_log wt subs msgs) st1"
    using stream.stream_sent [OF _ _ forward_init_ok, of subs msgs request_id wt] by auto
  define name where "name = (case fw_last_name st1 of Some n \<Rightarrow> n | None \<Rightarrow> sub_service_name first)"
  let ?st = "st1\<lparr>fw_out := fw_out st1 @ closing request_id name st1, fw_seq := saturating_add (fw_seq st1) 1\<rparr>"
  have "run_stream_logs_forwarder (\<lambda>_ _. Inr ()) request_id subs wt msgs = (Inr (), ?st)"
    using st1(1) send_closing [of request_id name st1 "\<lambda>_ _. Inr ()"]
    by (simp add: run_stream_logs_forwarder_def stream_logs_chunks_def subs Let_def flip: name_def)
  then show ?thesis
    using st1(2) closing_gap [OF st1(2), of name] by (simp add: forward_ok_def closing_def)
qed

text \<open>
  C37: logs in datagrams arrive in full. With a datagram size for which a chunk size can be
  computed, an encoder with the documented sizes and a session that delivers, the forwarder
  sends all snapshots and events byte for byte and in order in non-empty chunks of at most 1024
  bytes, then one empty final chunk and an end without error, and nothing else; every datagram
  respects the session's limit; and the numbers show a gap exactly if a receiver lagged, as long
  as they stay below their maximum.
\<close>

theorem datagram_logs_delivered:
  assumes "cbor_sizes enc" and "\<forall>m. length (enc m) + 2 \<le> usize_max" and "subs \<noteq> []"
    and "\<forall>m \<in> set msgs. follow_name m \<in> set (map sub_service_name subs)"
    and "fixed_log_chunk_size (\<lambda>m. Inr (enc m)) request_id max_size (map sub_service_name subs) wt = Inr chunk_size"
  shows "\<exists>out final fin st. run_logs_forwarder (\<lambda>m. Inr (enc m)) (Some max_size) (\<lambda>_ _ _. Inr ()) request_id subs wt msgs = st \<and>
    fw_out st = out @ [ChunkMsg final, EndMsg fin] \<and>
    sent_log out = planned_log wt subs msgs \<and>
    list_all (data_message wt request_id LOG_DATAGRAM_TARGET_BYTES (set (map sub_service_name subs))) out \<and>
    lc_is_last final \<and> lc_bytes final = [] \<and> lend_error fin = None \<and>
    list_all (\<lambda>m. length (enc m) \<le> max_size) (fw_out st) \<and>
    (lend_seq fin = - 1 \<or> snd (gap_state (fw_out st)) = list_ex lagging (followed subs msgs))"
proof -
  let ?names = "set (map sub_service_name subs)"
  let ?w = "send_datagram_envelope (\<lambda>m. Inr (enc m)) max_size (\<lambda>_ _ _. Inr ())"
  have "map sub_service_name subs \<noteq> []" using assms(3) by simp
  note sizes = datagram_sizes [OF assms(1,2) this assms(5)]
  have data_fits: "length (enc m) \<le> max_size" if "data_message wt request_id chunk_size ?names m" for m
    using that sizes(3) by (auto simp: data_message_def)
  have sends: "length (enc m) \<le> max_size \<Longrightarrow> ?w out m = Inr ()" for out m
    by (simp add: send_datagram_envelope_def send_datagram_with_retry_def)
  obtain first rest where subs: "subs = first # rest" using assms(3) by (cases subs) auto
  have writer: "writer_ok ?w wt request_id chunk_size ?names"
    unfolding writer_ok_def using data_fits sends by blast
  obtain st1 where st1: "stream_logs (datagram_send_log_data_chunks ?w request_id wt chunk_size) wt subs msgs forward_init = (Inr (), st1)"
      "forward_ok wt request_id chunk_size ?names (list_ex lagging (followed subs msgs)) (planned_log wt subs msgs) st1"
    using log_sender.stream_sent [OF datagram_sender [OF writer sizes(1)] _ assms(4) forward_init_ok, of subs] by auto
  define name where "name = (case fw_last_name st1 of Some n \<Rightarrow> n | None \<Rightarrow> sub_service_name first)"
  have "name \<in> ?names" using st1(2) by (auto simp: name_def forward_ok_def subs split: option.splits)
  then have "length (enc (hd (closing request_id name st1))) \<le> max_size" "length (enc (closing request_id name st1 ! 1)) \<le> max_size"
    using sizes(3) [of "\<lparr>lc_request_id = request_id, lc_seq = fw_seq st1, lc_name = name, lc_stream_kind = LS_Composite,
        lc_bytes = [], lc_is_last = True, lc_timestamp_unix_ms = None\<rparr>"] sizes(4) by (simp_all add: closing_def)
  then have close_fits: "length (enc m) \<le> max_size" if "m \<in> set (closing request_id name st1)" for m
    using that by (auto simp: closing_def)
  let ?st = "st1\<lparr>fw_out := fw_out st1 @ closing request_id name st1, fw_seq := saturating_add (fw_seq st1) 1\<rparr>"
  have run: "run_logs_forwarder (\<lambda>m. Inr (enc m)) (Some max_size) (\<lambda>_ _ _. Inr ()) request_id subs wt msgs = ?st"
    using st1(1) assms(5) send_closing [of request_id name st1 ?w, OF sends [OF close_fits]] unfolding subs
    by (simp add: run_logs_forwarder_def stream_logs_datagrams_def Let_def flip: name_def)
  have data: "list_all (data_message wt request_id chunk_size ?names) (fw_out st1)"
      "sent_log (fw_out st1) = planned_log wt subs msgs"
    using st1(2) by (simp_all add: forward_ok_def)
  have "list_all (data_message wt request_id LOG_DATAGRAM_TARGET_BYTES ?names) (fw_out st1)"
    using data(1) sizes(2) by (fastforce simp: list_all_iff data_message_def)
  moreover have "list_all (\<lambda>m. length (enc m) \<le> max_size) (fw_out ?st)"
    using data(1) data_fits close_fits by (auto simp: list_all_iff)
  ultimately show ?thesis
    unfolding run using data(2) closing_gap [OF st1(2), of name] by (simp add: closing_def)
qed

text \<open>
  C38: the rendered output does not depend on how the log was cut into chunks. Rendering two
  consecutive chunks of one stream gives the same bytes and the same state as rendering
  their concatenation, so that a line split over chunks gets its prefix once; and a text that
  starts on a fresh line is shown with the prefix before each of its lines.
\<close>

theorem rendering_chunk_independent:
  assumes "renderable_chunk_bytes (chunk\<lparr>lc_bytes := xs\<rparr>) ts st = (out1, st1)"
    and "renderable_chunk_bytes (chunk\<lparr>lc_bytes := ys\<rparr>) ts st1 = (out2, st2)"
  shows "renderable_chunk_bytes (chunk\<lparr>lc_bytes := xs @ ys\<rparr>) ts st = (out1 @ out2, st2) \<and>
    (get_at_line_start (lc_name chunk) (lc_stream_kind chunk) (observe_name (lc_name chunk) st) \<longrightarrow>
      out1 @ out2 = concat (map (\<lambda>l. line_prefix (lc_name chunk) ts
        (current_name_width (observe_name (lc_name chunk) st)) @ l) (split_lines (xs @ ys))))"
proof -
  let ?st = "observe_name (lc_name chunk) st"
  let ?prefix = "line_prefix (lc_name chunk) ts (current_name_width ?st)"
  let ?flag = "get_at_line_start (lc_name chunk) (lc_stream_kind chunk) ?st"
  obtain f1 where f1: "format_loop ?prefix xs ?flag = (out1, f1)"
      "st1 = set_at_line_start (lc_name chunk) (lc_stream_kind chunk) f1 ?st"
    using assms(1) by (auto simp: renderable_chunk_bytes_def format_structured_bytes_def Let_def split: prod.splits)
  have width: "current_name_width st1 = current_name_width ?st"
    by (simp add: f1(2) current_name_width_def set_at_line_start_def)
  obtain f2 where f2: "format_loop ?prefix ys f1 = (out2, f2)"
      "st2 = set_at_line_start (lc_name chunk) (lc_stream_kind chunk) f2 ?st"
    using assms(2) width unfolding f1(2)
    by (auto simp: renderable_chunk_bytes_def format_structured_bytes_def Let_def observe_twice
        get_set_at_line_start set_at_line_start_twice split: prod.splits)
  have all: "format_loop ?prefix (xs @ ys) ?flag = (out1 @ out2, f2)"
    by (simp add: format_loop_append f1(1) f2(1))
  show ?thesis
    using all f2(2) format_loop_lines [of ?prefix "xs @ ys"]
    by (auto simp: renderable_chunk_bytes_def format_structured_bytes_def Let_def)
qed

text \<open>A service with one line in its snapshot, whose receiver later loses three events.\<close>

definition example_sub :: ServiceLogSubscription where
  "example_sub = \<lparr>sub_service_name = ''web'', sub_snapshot = SnapBytes [97, 10], sub_follow = True\<rparr>"

definition example_chunk :: LogChunk where
  "example_chunk = \<lparr>lc_request_id = 1, lc_seq = 0, lc_name = ''web'', lc_stream_kind = LS_Stdout, lc_bytes = [],
     lc_is_last = False, lc_timestamp_unix_ms = None\<rparr>"

theorem logs_delivered_witness:
  "\<exists>out final fin st. run_stream_logs_forwarder (\<lambda>_ _. Inr ()) 1 [example_sub] False [Lagged ''web'' 3] = (Inr (), st) \<and>
     fw_out st = out @ [ChunkMsg final, EndMsg fin] \<and> sent_log out = tagged ''web'' LS_Composite None [97, 10]"
proof -
  have "planned_log False [example_sub] [Lagged ''web'' 3] = tagged ''web'' LS_Composite None [97, 10]"
    by (simp add: planned_log_def snapshot_log_def followed_def example_sub_def)
  then show ?thesis using logs_delivered [of "[example_sub]" 1 False "[Lagged ''web'' 3]"] by auto
qed

text \<open>An encoder with the sizes of a real one: a fixed header, the name and the bytes.\<close>

fun example_enc :: "LogMessage \<Rightarrow> bytes" where
  "example_enc (ChunkMsg c) = replicate (min 1000 (100 + length (lc_name c) + length (lc_bytes c))) 0"
| "example_enc (EndMsg e) = replicate 90 0"

lemma example_enc_sizes: "cbor_sizes example_enc" "\<forall>m. length (example_enc m) + 2 \<le> usize_max"
proof -
  show "cbor_sizes example_enc" by (auto simp: cbor_sizes_def)
  have "length (example_enc m) + 2 \<le> usize_max" for m
    by (cases m) (simp_all add: usize_max_def)
  then show "\<forall>m. length (example_enc m) + 2 \<le> usize_max" by blast
qed

theorem datagram_logs_delivered_witness:
  "\<exists>out final fin st. run_logs_forwarder (\<lambda>m. Inr (example_enc m)) (Some 120) (\<lambda>_ _ _. Inr ()) 1 [example_sub] False
      [Lagged ''web'' 3] = st \<and>
    fw_out st = out @ [ChunkMsg final, EndMsg fin] \<and> sent_log out = tagged ''web'' LS_Composite None [97, 10] \<and>
    list_all (\<lambda>m. length (example_enc m) \<le> 120) (fw_out st)"
proof -
  have "fixed_log_chunk_size (\<lambda>m. Inr (example_enc m)) 1 120 (map sub_service_name [example_sub]) False = Inr 15"
    by (simp add: fixed_log_chunk_size_def longest_name_def example_sub_def usize_saturating_add_def usize_max_def
      LOG_DATAGRAM_TARGET_BYTES_def)
  moreover have "\<forall>m \<in> set [Lagged ''web'' 3]. follow_name m \<in> set (map sub_service_name [example_sub])"
    by (simp add: example_sub_def)
  moreover have "planned_log False [example_sub] [Lagged ''web'' 3] = tagged ''web'' LS_Composite None [97, 10]"
    by (simp add: planned_log_def snapshot_log_def followed_def example_sub_def)
  ultimately show ?thesis
    using datagram_logs_delivered [OF example_enc_sizes, of "[example_sub]" "[Lagged ''web'' 3]" 1 120 False 15] by auto
qed

theorem rendering_chunk_independent_witness:
  "fst (renderable_chunk_bytes (example_chunk\<lparr>lc_bytes := [97] @ [98, 10]\<rparr>) None
     \<lparr>pr_streams = [], pr_max_name_width_chars = 3\<rparr>) = as_bytes ''web | '' @ [97, 98, 10]"
proof -
  let ?st = "\<lparr>pr_streams = [], pr_max_name_width_chars = 3\<rparr>"
  obtain out1 st1 where one: "renderable_chunk_bytes (example_chunk\<lparr>lc_bytes := [97]\<rparr>) None ?st = (out1, st1)" by force
  obtain out2 st2 where two: "renderable_chunk_bytes (example_chunk\<lparr>lc_bytes := [98, 10]\<rparr>) None st1 = (out2, st2)" by force
  have obs: "observe_name ''web'' ?st = ?st" and name: "lc_name example_chunk = ''web''"
    by (simp_all add: observe_name_def chars_count_def example_chunk_def)
  have "out1 @ out2 = as_bytes ''web | '' @ [97, 98, 10]"
    using rendering_chunk_independent [OF one two]
    by (simp add: obs name get_at_line_start_def current_name_width_def line_prefix_def chars_count_def as_bytes_def)
  then show ?thesis using rendering_chunk_independent [OF one two] by simp
qed

end
