(* ===== verification/Protocol_Router.thy ===== *)
theory Protocol_Router
  imports Access_Control Artifact_Store Command_Start Framed_Streams
    Log_Forwarding
begin

text \<open>
  The dispatch of a parsed request to its handler (\<open>handle_parsed_request\<close> of
  \<^verbatim>\<open>session_loop.rs\<close> and the handlers of \<^verbatim>\<open>router.rs\<close>): the composition of the access check
  with the artifact store, the operation manager, the command handler, the registry of client
  keys, the configuration file and the log forwarder. The client takes every message; what a
  failing write does to a command is the subject of \<open>Command_Start\<close>.

  The JSON library, the orchestrator and the library that compares versions are parameters.
\<close>

section \<open>Parameters and state\<close>

text \<open>The payloads of the responses.\<close>

datatype ResponsePayload =
    R_Hello HelloNegotiateResponse
  | R_Prepare DeployPrepareResponse
  | R_Push ArtifactPushAck
  | R_Commit ArtifactCommitResponse
  | R_Accepted
  | R_Event CommandEvent
  | R_State StateResponse
  | R_Services "ServiceStatusEntry list"
  | R_Cancel CommandCancelResponse
  | R_Rpc RpcInvokeResponse
  | R_CertInspect string
  | R_CertUpload bool string
  | R_LogsAck "string list" bool
  | R_Log LogMessage

text \<open>Conversions between JSON values and messages. \<open>serde_json::to_value\<close> fails for maps whose keys are
  not strings and for serializers that report an error; the messages the daemon sends are structs with
  derived serializers and string keys, so \<open>js_encode\<close> is total.\<close>

record 'v Json =
  js_null :: 'v
  js_encode :: "ResponsePayload \<Rightarrow> 'v"
  js_hello :: "'v \<Rightarrow> string + HelloNegotiateRequest"
  js_prepare :: "'v \<Rightarrow> string + DeployPrepareRequest"
  js_push :: "'v \<Rightarrow> string + ArtifactPushRequest"
  js_commit :: "'v \<Rightarrow> string + ArtifactCommitRequest"
  js_command :: "'v \<Rightarrow> string + CommandStartRequest"
  js_state :: "'v \<Rightarrow> string + StateRequest"
  js_services :: "'v \<Rightarrow> string + ServiceListRequest"
  js_cancel :: "'v \<Rightarrow> string + CommandCancelRequest"
  js_logs :: "'v \<Rightarrow> string + LogRequest"
  js_rpc :: "'v \<Rightarrow> string + RpcInvokeRequest"
  js_cert_inspect :: "'v \<Rightarrow> string + unit"
  js_cert_upload :: "'v \<Rightarrow> string + BindingsCertUploadRequest"

text \<open>What the handler was created with.\<close>

record Settings =
  st_config :: ImagodConfig
  st_config_path :: string
  st_store :: ArtifactStore
  st_build :: Build
  st_toml :: TomlLib

text \<open>What one request meets: times, new identifiers, outcomes of file operations, the answers of
  the orchestrator, the key file, and the comparison of versions (\<open>None\<close> for a text that is no
  version).\<close>

record Surroundings =
  su_now :: u64
  su_now_after_io :: u64
  su_deploy_id :: string
  su_upload_token :: string
  su_sha :: "bytes \<Rightarrow> string"
  su_remove_fails :: "path \<Rightarrow> bool"
  su_file :: io_outcome
  su_config_io :: ConfigIo
  su_reload_io :: ConfigIo
  su_shutdown_requested :: bool
  su_version_in_range :: "string \<Rightarrow> bool option"
  su_list_service_states :: "string list option \<Rightarrow> ServiceStatusEntry list result"
  su_invoke :: "string \<Rightarrow> string \<Rightarrow> string \<Rightarrow> bytes \<Rightarrow> bytes result"
  su_command :: "(string \<times> string) result"
  su_loggable_service_names :: "string list"
  su_open_logs :: "string \<Rightarrow> LogRequest \<Rightarrow> ServiceLogSubscription result"
  su_followed :: "FollowForwardMsg list"
  su_server_public_key :: "bytes result"
  su_fresh_request_id :: uuid
  su_fresh_correlation_id :: uuid

record Daemon =
  dm_artifacts :: World
  dm_operations :: operations
  dm_keys :: DynamicPublicKeys
  dm_config_files :: "string \<Rightarrow> string option"

section \<open>Envelopes\<close>

definition response_envelope ::
    "'v Json \<Rightarrow> MessageType \<Rightarrow> uuid \<Rightarrow> uuid \<Rightarrow> ResponsePayload \<Rightarrow> 'v ProtocolEnvelope" where
  "response_envelope json message_type request_id correlation_id payload =
     \<lparr>env_message_type = message_type, env_request_id = request_id, env_correlation_id = correlation_id,
      env_payload = js_encode json payload, env_error = None\<rparr>"

definition error_envelope :: "'v Json \<Rightarrow> MessageType \<Rightarrow> uuid \<Rightarrow> uuid \<Rightarrow> StructuredError \<Rightarrow> 'v ProtocolEnvelope" where
  "error_envelope json message_type request_id correlation_id error =
     \<lparr>env_message_type = message_type, env_request_id = request_id, env_correlation_id = correlation_id,
      env_payload = js_null json, env_error = Some error\<rparr>"

definition response_message_type_for_request :: "MessageType \<Rightarrow> MessageType" where
  "response_message_type_for_request request_type =
     (case request_type of MT_StateRequest \<Rightarrow> MT_StateResponse | _ \<Rightarrow> request_type)"

definition payload_take :: "('v \<Rightarrow> string + 'a) \<Rightarrow> 'v ProtocolEnvelope \<Rightarrow> 'a result" where
  "payload_take from_value request =
     map_err (\<lambda>e. bad_request ''protocol'' (''request payload decode failed: '' @ e)) (from_value (env_payload request))"

text \<open>\<open>payload_take\<close> followed by \<open>validate\<close>, with which the handlers start.\<close>

definition take_valid :: "('v \<Rightarrow> string + 'a) \<Rightarrow> ('a \<Rightarrow> validation) \<Rightarrow> string \<Rightarrow> 'v ProtocolEnvelope \<Rightarrow> 'a result" where
  "take_valid from_value check stage request =
     and_then (payload_take from_value request) (\<lambda>payload.
     and_then (map_err (\<lambda>e. bad_request stage (ve_display e)) (check payload)) (\<lambda>_. Inr payload))"

definition respond_with ::
    "'v Json \<Rightarrow> MessageType \<Rightarrow> uuid \<Rightarrow> uuid \<Rightarrow> ResponsePayload result \<Rightarrow> 'v ProtocolEnvelope result" where
  "respond_with json message_type request_id correlation_id r =
     and_then r (\<lambda>payload. Inr (response_envelope json message_type request_id correlation_id payload))"

section \<open>The handlers\<close>

definition PROTOCOL_VERSION :: string where
  "PROTOCOL_VERSION = ''0.1.0''"

definition SUPPORTED_PROTOCOL_VERSION_RANGE :: string where
  "SUPPORTED_PROTOCOL_VERSION_RANGE = ''>=0.1.0,<0.2.0''"

definition protocol_compatibility_announcement :: "(string \<Rightarrow> bool option) \<Rightarrow> string \<Rightarrow> string option" where
  "protocol_compatibility_announcement in_range version =
     (case in_range version of
        None \<Rightarrow> Some (''client protocol version '' @ quoted version @ '' is invalid; supported range is '' @
          quoted SUPPORTED_PROTOCOL_VERSION_RANGE @ '' (server protocol '' @ quoted PROTOCOL_VERSION @ '')'')
      | Some True \<Rightarrow> None
      | Some False \<Rightarrow> Some (''client protocol version '' @ quoted version @ '' is not supported; imagod supports '' @
          quoted SUPPORTED_PROTOCOL_VERSION_RANGE @ '' (server protocol '' @ quoted PROTOCOL_VERSION @ '')''))"

definition hello_features_for_auth_context :: "SessionAuthContext \<Rightarrow> string list" where
  "hello_features_for_auth_context auth_context =
     (case sa_role auth_context of
        Admin \<Rightarrow>
          [''hello.negotiate'', ''deploy.prepare'', ''artifact.push'', ''artifact.commit'', ''command.start'',
           ''command.event'', ''state.request'', ''services.list'', ''command.cancel'', ''logs.request'',
           ''logs.stream'', ''logs.chunk'', ''logs.chunk.timestamp'', ''logs.end'', ''rpc.invoke'',
           ''bindings.cert.inspect'', ''bindings.cert.upload'']
      | _ \<Rightarrow> [''hello.negotiate'', ''rpc.invoke''])"

definition hello_limits :: "RuntimeConfig \<Rightarrow> (string, string) btree" where
  "hello_limits runtime =
     fold (\<lambda>(k, v). bt_insert k v)
       [(''chunk_size'', decimal (rt_chunk_size runtime)),
        (''max_inflight_chunks'', decimal (rt_max_inflight_chunks runtime)),
        (''max_artifact_size_bytes'', decimal (unat (rt_max_artifact_size_bytes runtime))),
        (''upload_session_ttl'', decimal (unat (rt_upload_session_ttl_secs runtime)) @ ''s''),
        (''deploy_stream_timeout_secs'', decimal (unat (rt_deploy_stream_timeout_secs runtime)))] []"

definition handle_hello ::
    "'v Json \<Rightarrow> Settings \<Rightarrow> Surroundings \<Rightarrow> SessionAuthContext \<Rightarrow> 'v ProtocolEnvelope \<Rightarrow> 'v ProtocolEnvelope result" where
  "handle_hello json st su auth_context request =
     respond_with json HelloNegotiate (env_request_id request) (env_correlation_id request)
       (and_then (take_valid (js_hello json) validate_HelloNegotiateRequest ''hello.negotiate'' request) (\<lambda>payload.
        let announcement = protocol_compatibility_announcement (su_version_in_range su) (hnr_client_version payload) in
        Inr (R_Hello \<lparr>hnp_accepted = (announcement = None), hnp_server_version = cfg_server_version (st_config st),
          hnp_server_protocol_version = PROTOCOL_VERSION,
          hnp_supported_protocol_version_range = SUPPORTED_PROTOCOL_VERSION_RANGE,
          hnp_compatibility_announcement = announcement,
          hnp_features = hello_features_for_auth_context auth_context,
          hnp_limits = hello_limits (cfg_runtime (st_config st))\<rparr>)))"

definition handle_prepare ::
    "'v Json \<Rightarrow> Settings \<Rightarrow> Surroundings \<Rightarrow> 'v ProtocolEnvelope \<Rightarrow> Daemon \<Rightarrow> Daemon \<times> 'v ProtocolEnvelope result" where
  "handle_prepare json st su request d =
     (case take_valid (js_prepare json) validate_DeployPrepareRequest ''deploy.prepare'' request of
        Inl e \<Rightarrow> (d, Inl e)
      | Inr payload \<Rightarrow>
          (case prepare (st_store st) (su_sha su) (su_remove_fails su) (su_file su) (su_now su) (su_now_after_io su)
              (su_deploy_id su) (su_upload_token su) payload (dm_artifacts d) of
             (w, r) \<Rightarrow> (d\<lparr>dm_artifacts := w\<rparr>,
               respond_with json DeployPrepare (env_request_id request) (env_correlation_id request) (and_then r (\<lambda>x. Inr (R_Prepare x))))))"

definition validate_push_payload :: "ArtifactPushRequest \<Rightarrow> unit result" where
  "validate_push_payload payload =
     map_err (\<lambda>e. bad_request ''artifact.push'' (ve_display e)) (validate_ArtifactPushRequest payload)"

definition handle_push_typed ::
    "'v Json \<Rightarrow> Settings \<Rightarrow> Surroundings \<Rightarrow> uuid \<Rightarrow> uuid \<Rightarrow> ArtifactPushRequest \<Rightarrow> Daemon
       \<Rightarrow> Daemon \<times> 'v ProtocolEnvelope result" where
  "handle_push_typed json st su request_id correlation_id payload d =
     (case validate_push_payload payload of
        Inl e \<Rightarrow> (d, Inl e)
      | Inr _ \<Rightarrow>
          (case push (st_store st) (su_sha su) (su_remove_fails su) (su_file su) (su_now su) payload (dm_artifacts d) of
             (w, r) \<Rightarrow> (d\<lparr>dm_artifacts := w\<rparr>,
               respond_with json ArtifactPush request_id correlation_id (and_then r (\<lambda>x. Inr (R_Push x))))))"

definition handle_push ::
    "'v Json \<Rightarrow> Settings \<Rightarrow> Surroundings \<Rightarrow> 'v ProtocolEnvelope \<Rightarrow> Daemon \<Rightarrow> Daemon \<times> 'v ProtocolEnvelope result" where
  "handle_push json st su request d =
     (case payload_take (js_push json) request of
        Inl e \<Rightarrow> (d, Inl e)
      | Inr payload \<Rightarrow> handle_push_typed json st su (env_request_id request) (env_correlation_id request) payload d)"

definition handle_commit ::
    "'v Json \<Rightarrow> Settings \<Rightarrow> Surroundings \<Rightarrow> 'v ProtocolEnvelope \<Rightarrow> Daemon \<Rightarrow> Daemon \<times> 'v ProtocolEnvelope result" where
  "handle_commit json st su request d =
     (case take_valid (js_commit json) validate_ArtifactCommitRequest ''artifact.commit'' request of
        Inl e \<Rightarrow> (d, Inl e)
      | Inr payload \<Rightarrow>
          (case commit (st_store st) (su_sha su) (su_remove_fails su) (su_file su) (su_now su) payload (dm_artifacts d) of
             (w, r) \<Rightarrow> (d\<lparr>dm_artifacts := w\<rparr>,
               respond_with json ArtifactCommit (env_request_id request) (env_correlation_id request) (and_then r (\<lambda>x. Inr (R_Commit x))))))"

definition handle_state_request ::
    "'v Json \<Rightarrow> 'v ProtocolEnvelope \<Rightarrow> Daemon \<Rightarrow> 'v ProtocolEnvelope result" where
  "handle_state_request json request d =
     respond_with json MT_StateResponse (env_request_id request) (env_correlation_id request)
       (and_then (take_valid (js_state json) validate_StateRequest ''state.request'' request) (\<lambda>payload.
        and_then (snapshot_running (srq_request_id payload) (dm_operations d)) (\<lambda>x. Inr (R_State x))))"

definition handle_services_list :: "'v Json \<Rightarrow> Surroundings \<Rightarrow> 'v ProtocolEnvelope \<Rightarrow> 'v ProtocolEnvelope result" where
  "handle_services_list json su request =
     respond_with json ServicesList (env_request_id request) (env_correlation_id request)
       (and_then (take_valid (js_services json) validate_ServiceListRequest ''services.list'' request) (\<lambda>payload.
        and_then (su_list_service_states su (slr_names payload)) (\<lambda>services.
        and_then (map_err (\<lambda>e. bad_request ''services.list'' (ve_display e)) (validate_ServiceListResponse services)) (\<lambda>_.
        Inr (R_Services services)))))"

definition handle_command_cancel ::
    "'v Json \<Rightarrow> Surroundings \<Rightarrow> 'v ProtocolEnvelope \<Rightarrow> Daemon \<Rightarrow> Daemon \<times> 'v ProtocolEnvelope result" where
  "handle_command_cancel json su request d =
     (case take_valid (js_cancel json) validate_CommandCancelRequest ''command.cancel'' request of
        Inl e \<Rightarrow> (d, Inl e)
      | Inr payload \<Rightarrow>
          (case request_cancel (su_now su) (ccr_request_id payload) (dm_operations d) of
             (ops, r) \<Rightarrow> (d\<lparr>dm_operations := ops\<rparr>,
               respond_with json CommandCancel (env_request_id request) (env_correlation_id request) (and_then r (\<lambda>x. Inr (R_Cancel x))))))"

definition handle_rpc_invoke :: "'v Json \<Rightarrow> Surroundings \<Rightarrow> 'v ProtocolEnvelope \<Rightarrow> 'v ProtocolEnvelope result" where
  "handle_rpc_invoke json su request =
     respond_with json RpcInvoke (env_request_id request) (env_correlation_id request)
       (and_then (take_valid (js_rpc json) validate_RpcInvokeRequest ''rpc.invoke'' request) (\<lambda>payload.
        Inr (R_Rpc (case su_invoke su (rir_target_service_name payload) (rir_interface_id payload)
            (rir_function payload) (rir_args_cbor payload) of
          Inr result_cbor \<Rightarrow> rpc_from_result result_cbor
        | Inl err \<Rightarrow> rpc_from_error (err_code err) (err_stage err) (err_message err)))))"

text \<open>\<open>su_server_public_key\<close> is the SubjectPublicKeyInfo of the key in the file, as the TLS library derives it.\<close>

definition load_server_public_key_hex :: "Settings \<Rightarrow> Surroundings \<Rightarrow> string result" where
  "load_server_public_key_hex st su =
     and_then (su_server_public_key su) (\<lambda>bs.
     if length bs \<noteq> length ED25519_SPKI_PREFIX + 32 \<or> take (length ED25519_SPKI_PREFIX) bs \<noteq> ED25519_SPKI_PREFIX
     then Inl (new_error Internal ''bindings.cert.inspect''
       (''server key '' @ tls_server_key (cfg_tls (st_config st)) @ '' must be ed25519''))
     else Inr (encode_hex (drop (length ED25519_SPKI_PREFIX) bs)))"

definition handle_bindings_cert_inspect ::
    "'v Json \<Rightarrow> Settings \<Rightarrow> Surroundings \<Rightarrow> 'v ProtocolEnvelope \<Rightarrow> 'v ProtocolEnvelope result" where
  "handle_bindings_cert_inspect json st su request =
     respond_with json BindingsCertInspect (env_request_id request) (env_correlation_id request)
       (and_then (take_valid (js_cert_inspect json) (\<lambda>_. Inr ()) ''bindings.cert.inspect'' request) (\<lambda>_.
        and_then (load_server_public_key_hex st su) (\<lambda>key. Inr (R_CertInspect key))))"

definition handle_bindings_cert_upload ::
    "'v Json \<Rightarrow> Settings \<Rightarrow> Surroundings \<Rightarrow> 'v ProtocolEnvelope \<Rightarrow> Daemon \<Rightarrow> Daemon \<times> 'v ProtocolEnvelope result" where
  "handle_bindings_cert_upload json st su request d =
     (case take_valid (js_cert_upload json) validate_BindingsCertUploadRequest ''bindings.cert.upload'' request of
        Inl e \<Rightarrow> (d, Inl e)
      | Inr payload \<Rightarrow>
          (case upsert_tls_known_client_key (st_build st) (st_toml st) (su_config_io su) (su_reload_io su)
              (dm_config_files d) (st_config_path st) (bcu_authority payload) (bcu_public_key_hex payload) of
             (Inl e, files) \<Rightarrow> (d\<lparr>dm_config_files := files\<rparr>, Inl e)
           | (Inr _, files) \<Rightarrow>
               (case upsert_dynamic_client_public_key (bcu_public_key_hex payload) (dm_keys d) of
                  (keys, r) \<Rightarrow>
                    (d\<lparr>dm_config_files := files, dm_keys := keys\<rparr>,
                     respond_with json BindingsCertUpload (env_request_id request) (env_correlation_id request) (and_then r (\<lambda>updated.
                       Inr (R_CertUpload updated
                         (if updated then ''registered client key for authority '' @ bcu_authority payload
                          else ''client key already registered for authority '' @ bcu_authority payload))))))))"

definition handle_single ::
    "'v Json \<Rightarrow> Settings \<Rightarrow> Surroundings \<Rightarrow> SessionAuthContext \<Rightarrow> 'v ProtocolEnvelope \<Rightarrow> Daemon
       \<Rightarrow> Daemon \<times> 'v ProtocolEnvelope result" where
  "handle_single json st su auth_context request d =
     (case env_message_type request of
        HelloNegotiate \<Rightarrow> (d, handle_hello json st su auth_context request)
      | DeployPrepare \<Rightarrow> handle_prepare json st su request d
      | ArtifactPush \<Rightarrow> handle_push json st su request d
      | ArtifactCommit \<Rightarrow> handle_commit json st su request d
      | MT_StateRequest \<Rightarrow> (d, handle_state_request json request d)
      | ServicesList \<Rightarrow> (d, handle_services_list json su request)
      | CommandCancel \<Rightarrow> handle_command_cancel json su request d
      | RpcInvoke \<Rightarrow> (d, handle_rpc_invoke json su request)
      | BindingsCertInspect \<Rightarrow> (d, handle_bindings_cert_inspect json st su request)
      | BindingsCertUpload \<Rightarrow> handle_bindings_cert_upload json st su request d
      | _ \<Rightarrow> (d, Inl (new_error BadRequest ''dispatch'' ''unsupported message type'')))"

section \<open>Commands and logs\<close>

text \<open>
  An event as an envelope of the request. The envelopes of a command are the acceptance and the
  events its handler sent; after the command the deploy session it consumed is purged.
\<close>

definition event_envelopes :: "'v Json \<Rightarrow> uuid \<Rightarrow> uuid \<Rightarrow> CommandEvent list \<Rightarrow> 'v ProtocolEnvelope list" where
  "event_envelopes json operation_id correlation_id events =
     map (\<lambda>event. response_envelope json MT_CommandEvent operation_id correlation_id (R_Event event)) events"

definition purge_after_command :: "Settings \<Rightarrow> Surroundings \<Rightarrow> string option \<Rightarrow> World \<Rightarrow> World" where
  "purge_after_command st su purged w =
     (case purged of
        None \<Rightarrow> w
      | Some deploy_id \<Rightarrow> fst (purge_deploy_session (st_store st) (su_remove_fails su) (su_now su) deploy_id w))"

fun handler_result :: "Handler \<Rightarrow> unit result" where
  "handler_result h = (case h_pc h of Returned r \<Rightarrow> r | _ \<Rightarrow> Inr ())"

definition run_command_start ::
    "'v Json \<Rightarrow> Settings \<Rightarrow> Surroundings \<Rightarrow> 'v ProtocolEnvelope \<Rightarrow> Daemon
       \<Rightarrow> Daemon \<times> 'v ProtocolEnvelope list \<times> unit result" where
  "run_command_start json st su request d =
     (let request_id = env_request_id request; correlation_id = env_correlation_id request in
      case payload_take (js_command json) request of
        Inl e \<Rightarrow> (d, [], Inl e)
      | Inr payload \<Rightarrow>
          (case handle_command_start (su_now su) (su_shutdown_requested su) request_id payload
              (su_command su) (dm_operations d) of
             (ops, Inl e) \<Rightarrow> (d\<lparr>dm_operations := ops\<rparr>, [], Inl e)
           | (ops, Inr h) \<Rightarrow>
               (d\<lparr>dm_operations := ops, dm_artifacts := purge_after_command st su (h_purged h) (dm_artifacts d)\<rparr>,
                response_envelope json CommandStart request_id correlation_id R_Accepted #
                  event_envelopes json request_id correlation_id (h_events h),
                handler_result h)))"

definition resolve_logs_request_service_names :: "string option \<Rightarrow> string list \<Rightarrow> string list result" where
  "resolve_logs_request_service_names requested_name loggable_names =
     (case requested_name of
        Some name \<Rightarrow> Inr [name]
      | None \<Rightarrow>
          if loggable_names \<noteq> [] then Inr loggable_names
          else Inl (new_error NotFound ''logs.request'' ''no loggable services are available''))"

fun open_all_logs :: "(string \<Rightarrow> ServiceLogSubscription result) \<Rightarrow> string list \<Rightarrow> ServiceLogSubscription list result" where
  "open_all_logs open_one [] = Inr []"
| "open_all_logs open_one (name # names) =
     and_then (open_one name) (\<lambda>sub. and_then (open_all_logs open_one names) (\<lambda>subs. Inr (sub # subs)))"

fun log_message_type :: "LogMessage \<Rightarrow> MessageType" where
  "log_message_type (ChunkMsg _) = LogsChunk"
| "log_message_type (EndMsg _) = LogsEnd"

definition log_envelopes :: "'v Json \<Rightarrow> uuid \<Rightarrow> uuid \<Rightarrow> LogMessage list \<Rightarrow> 'v ProtocolEnvelope list" where
  "log_envelopes json request_id correlation_id msgs =
     map (\<lambda>m. response_envelope json (log_message_type m) request_id correlation_id (R_Log m)) msgs"

text \<open>\<open>datagrams\<close> holds when the session carries datagrams and the client did not ask for the stream:
  then the logs leave the stream after the acknowledgement.\<close>

definition handle_logs_request ::
    "'v Json \<Rightarrow> Surroundings \<Rightarrow> bool \<Rightarrow> 'v ProtocolEnvelope \<Rightarrow> 'v ProtocolEnvelope list \<times> unit result" where
  "handle_logs_request json su datagrams request =
     (let request_id = env_request_id request; correlation_id = env_correlation_id request in
      case take_valid (js_logs json) validate_LogRequest ''logs.request'' request of
        Inl e \<Rightarrow> ([], Inl e)
      | Inr payload \<Rightarrow>
          (case and_then (resolve_logs_request_service_names (lrq_name payload)
                (if lrq_name payload = None then su_loggable_service_names su else [])) (\<lambda>names.
              and_then (open_all_logs (\<lambda>n. su_open_logs su n payload) names) (\<lambda>subs. Inr (names, subs))) of
             Inl e \<Rightarrow> ([], Inl e)
           | Inr (names, subs) \<Rightarrow>
               let ack = response_envelope json LogsRequest request_id correlation_id (R_LogsAck names (lrq_follow payload)) in
               if datagrams then ([ack], Inr ())
               else
                 (case run_stream_logs_forwarder (\<lambda>_ _. Inr ()) request_id subs
                     (lrq_with_timestamp payload) (su_followed su) of
                    (r, fw) \<Rightarrow> (ack # log_envelopes json request_id correlation_id (fw_out fw), r))))"

section \<open>The dispatch\<close>

definition LOGS_STREAM_FEATURE :: string where
  "LOGS_STREAM_FEATURE = ''logs.stream''"

text \<open>The features a session asked for; \<open>None\<close> for a connection to the control socket.\<close>

definition record_hello_request :: "'v Json \<Rightarrow> 'v ProtocolEnvelope \<Rightarrow> bool option \<Rightarrow> bool option" where
  "record_hello_request json request features =
     (case (features, js_hello json (env_payload request)) of
        (Some old, Inr hello) \<Rightarrow>
          Some (if is_ok (validate_HelloNegotiateRequest hello)
                then list_ex (\<lambda>f. f = LOGS_STREAM_FEATURE) (hnr_required_features hello) else old)
      | _ \<Rightarrow> features)"

definition should_wrap_command_start_error :: "ImagodError \<Rightarrow> bool" where
  "should_wrap_command_start_error err = (err_stage err = ''command.start'')"

definition is_benign_logs_request_write_error :: "ImagodError \<Rightarrow> bool" where
  "is_benign_logs_request_write_error err = (err_stage err = ''session.write'')"

text \<open>The new state, the features, the envelopes written to the stream, and the result.\<close>

definition handle_parsed_request ::
    "'v Json \<Rightarrow> Settings \<Rightarrow> Surroundings \<Rightarrow> bool option \<Rightarrow> SessionAuthContext \<Rightarrow> 'v ParsedSingleRequestEnvelope \<Rightarrow> Daemon
       \<Rightarrow> Daemon \<times> bool option \<times> 'v ProtocolEnvelope list \<times> unit result" where
  "handle_parsed_request json st su features auth_context parsed d =
     (let request = pse_request parsed; mt = env_message_type request;
          request_id = env_request_id request; correlation_id = env_correlation_id request;
          failed = (\<lambda>response_type err. error_envelope json response_type request_id correlation_id (to_structured err));
          features' = (if mt = HelloNegotiate then record_hello_request json request features else features) in
      case ensure_message_type_allowed mt auth_context of
        Inl err \<Rightarrow> (d, features', [failed (response_message_type_for_request mt) err], Inr ())
      | Inr _ \<Rightarrow>
      if mt = ArtifactPush then
        (case pse_typed_push parsed of
           None \<Rightarrow> (d, features', [failed ArtifactPush
             (bad_request ''protocol'' ''request payload decode failed: missing artifact.push payload'')], Inr ())
         | Some payload \<Rightarrow>
             (case handle_push_typed json st su request_id correlation_id payload d of
                (d', Inl err) \<Rightarrow> (d', features', [failed ArtifactPush err], Inr ())
              | (d', Inr response) \<Rightarrow> (d', features', [response], Inr ())))
      else if mt = CommandStart then
        (case run_command_start json st su request d of
           (d', out, Inr _) \<Rightarrow> (d', features', out, Inr ())
         | (d', out, Inl err) \<Rightarrow>
             if should_wrap_command_start_error err then (d', features', out @ [failed CommandStart err], Inr ())
             else (d', features', out, Inl err))
      else if mt = LogsRequest then
        (case handle_logs_request json su (features' = Some False) request of
           (out, Inr _) \<Rightarrow> (d, features', out, Inr ())
         | (out, Inl err) \<Rightarrow>
             if is_benign_logs_request_write_error err then (d, features', out, Inr ())
             else (d, features', out @ [failed LogsRequest err], Inr ()))
      else
        (case handle_single json st su auth_context request d of
           (d', Inr response) \<Rightarrow> (d', features', [response], Inr ())
         | (d', Inl err) \<Rightarrow> (d', features', [failed (response_message_type_for_request mt) err], Inr ())))"

section \<open>Streams\<close>

text \<open>
  What a stream is answered with, given what was read from it: a request is dispatched, an empty stream
  is closed without an answer, and what cannot be read as a request is answered with an error of
  type \<open>command.event\<close> under new identifiers.
\<close>

definition answer_read ::
    "'v Json \<Rightarrow> Settings \<Rightarrow> Surroundings \<Rightarrow> bool option \<Rightarrow> SessionAuthContext \<Rightarrow> 'v ParsedSingleRequestEnvelope option result \<Rightarrow> Daemon
       \<Rightarrow> Daemon \<times> bool option \<times> 'v ProtocolEnvelope list \<times> unit result" where
  "answer_read json st su features auth_context r d =
     (case r of
        Inl err \<Rightarrow>
          (d, features, [error_envelope json MT_CommandEvent (su_fresh_request_id su) (su_fresh_correlation_id su) (to_structured err)], Inr ())
      | Inr None \<Rightarrow> (d, features, [], Inr ())
      | Inr (Some parsed) \<Rightarrow> handle_parsed_request json st su features auth_context parsed d)"

definition answer_stream ::
    "'v Cbor \<Rightarrow> 'v Json \<Rightarrow> Settings \<Rightarrow> Surroundings \<Rightarrow> bool option \<Rightarrow> SessionAuthContext \<Rightarrow> bool \<Rightarrow> reader \<Rightarrow> Daemon
       \<Rightarrow> Daemon \<times> bool option \<times> 'v ProtocolEnvelope list \<times> unit result" where
  "answer_stream cbor json st su features auth_context timed_out recv d =
     answer_read json st su features auth_context (read_single_request_envelope cbor (js_null json) timed_out recv) d"

definition answer_local_stream ::
    "'v Cbor \<Rightarrow> 'v Json \<Rightarrow> Settings \<Rightarrow> Surroundings \<Rightarrow> SessionAuthContext \<Rightarrow> bool \<Rightarrow> reader \<Rightarrow> Daemon
       \<Rightarrow> Daemon \<times> bool option \<times> 'v ProtocolEnvelope list \<times> unit result" where
  "answer_local_stream cbor json st su auth_context timed_out recv d =
     answer_read json st su None auth_context (read_single_local_request_envelope cbor (js_null json) timed_out recv) d"

section \<open>What the dispatch changes\<close>

lemma handle_single_read_only:
  "env_message_type request \<in> {HelloNegotiate, RpcInvoke, MT_StateRequest, ServicesList, BindingsCertInspect} \<Longrightarrow>
     fst (handle_single json st su auth request d) = d"
  by (auto simp: handle_single_def)

lemma dispatch_refused:
  assumes "ensure_message_type_allowed (env_message_type (pse_request parsed)) auth = Inl err"
  shows "\<exists>features'. handle_parsed_request json st su features auth parsed d =
    (d, features', [error_envelope json (response_message_type_for_request (env_message_type (pse_request parsed)))
      (env_request_id (pse_request parsed)) (env_correlation_id (pse_request parsed)) (to_structured err)], Inr ())"
  using assms by (simp add: handle_parsed_request_def Let_def)

lemma dispatch_single:
  assumes "ensure_message_type_allowed (env_message_type (pse_request parsed)) auth = Inr ()"
    and "env_message_type (pse_request parsed) \<notin> {ArtifactPush, CommandStart, LogsRequest}"
  shows "\<exists>features'. handle_parsed_request json st su features auth parsed d =
    (case handle_single json st su auth (pse_request parsed) d of
       (d', r) \<Rightarrow> (d', features', [case r of Inr response \<Rightarrow> response
         | Inl err \<Rightarrow> error_envelope json (response_message_type_for_request (env_message_type (pse_request parsed)))
             (env_request_id (pse_request parsed)) (env_correlation_id (pse_request parsed)) (to_structured err)], Inr ()))"
proof -
  obtain d' r where r: "handle_single json st su auth (pse_request parsed) d = (d', r)" by force
  show ?thesis using assms by (cases r) (simp_all add: handle_parsed_request_def Let_def r)
qed

lemma dispatch_read_only:
  assumes "env_message_type (pse_request parsed) \<in> {HelloNegotiate, RpcInvoke}"
  shows "fst (handle_parsed_request json st su features auth parsed d) = d"
proof (cases "ensure_message_type_allowed (env_message_type (pse_request parsed)) auth")
  case (Inl err)
  then show ?thesis using dispatch_refused [OF Inl, of json st su features d] by force
next
  case (Inr u)
  obtain d' r where r: "handle_single json st su auth (pse_request parsed) d = (d', r)" by force
  have "d' = d" using handle_single_read_only [of "pse_request parsed" json st su auth d] assms r by auto
  then show ?thesis
    using dispatch_single [of parsed auth json st su features d] Inr assms r by auto
qed

section \<open>Responses belong to the request\<close>

fun response_types :: "MessageType \<Rightarrow> MessageType set" where
  "response_types CommandStart = {CommandStart, MT_CommandEvent}"
| "response_types LogsRequest = {LogsRequest, LogsChunk, LogsEnd}"
| "response_types mt = {response_message_type_for_request mt}"

definition answers_request :: "'v ProtocolEnvelope \<Rightarrow> 'v ProtocolEnvelope \<Rightarrow> bool" where
  "answers_request request response \<longleftrightarrow>
     env_request_id response = env_request_id request \<and> env_correlation_id response = env_correlation_id request \<and>
     env_message_type response \<in> response_types (env_message_type request)"

lemma answers_error: "answers_request request
    (error_envelope json (response_message_type_for_request (env_message_type request)) (env_request_id request) (env_correlation_id request) err)"
  by (cases "env_message_type request") (simp_all add: answers_request_def error_envelope_def response_message_type_for_request_def)

lemma answers_response:
  "mt \<in> response_types (env_message_type request) \<Longrightarrow> 
     answers_request request (response_envelope json mt (env_request_id request) (env_correlation_id request) payload)"
  by (simp add: answers_request_def response_envelope_def)

lemma respond_with_Inr: "respond_with json mt rid cid r = Inr e \<longleftrightarrow> (\<exists>p. r = Inr p \<and> e = response_envelope json mt rid cid p)"
  by (auto simp: respond_with_def)

lemmas handler_defs = handle_hello_def handle_prepare_def handle_push_def handle_push_typed_def handle_commit_def
  handle_state_request_def handle_services_list_def handle_command_cancel_def handle_rpc_invoke_def
  handle_bindings_cert_inspect_def handle_bindings_cert_upload_def

lemma handle_single_response:
  assumes "handle_single json st su auth request d = (d', Inr response)"
  shows "\<exists>p. response = response_envelope json (response_message_type_for_request (env_message_type request))
    (env_request_id request) (env_correlation_id request) p"
  using assms unfolding handle_single_def
  by (cases "env_message_type request")
    (auto simp: handler_defs respond_with_Inr response_message_type_for_request_def
      split: sum.splits prod.splits)

lemma answers_single:
  "mt \<notin> {CommandStart, LogsRequest} \<Longrightarrow> response_message_type_for_request mt \<in> response_types mt"
  by (cases mt) (simp_all add: response_message_type_for_request_def)

lemma dispatch_answers:
  assumes "handle_parsed_request json st su features auth parsed d = (d', features', out, r)"
  shows "list_all (answers_request (pse_request parsed)) out \<and>
    (env_message_type (pse_request parsed) \<notin> {CommandStart, LogsRequest} \<longrightarrow> length out = 1 \<and> r = Inr ()) \<and>
    (env_message_type (pse_request parsed) = CommandStart \<and> out = [] \<longrightarrow> \<not> is_ok r)"
proof -
  let ?request = "pse_request parsed"
  let ?mt = "env_message_type ?request"
  note error = answers_error [of ?request json]
  show ?thesis
  proof (cases "ensure_message_type_allowed ?mt auth")
    case (Inl err)
    then show ?thesis using dispatch_refused [OF Inl, of json st su features d] assms error by auto
  next
    case (Inr u)
    consider "?mt \<notin> {ArtifactPush, CommandStart, LogsRequest}" | "?mt = ArtifactPush" | "?mt = CommandStart" | "?mt = LogsRequest"
      by auto
    then show ?thesis
    proof cases
      case 1
      obtain d1 r1 where r1: "handle_single json st su auth ?request d = (d1, r1)" by force
      show ?thesis
        using dispatch_single [of parsed auth json st su features d] Inr 1 r1 assms error
          handle_single_response [of json st su auth ?request d d1] answers_single [of ?mt]
        by (cases r1) (auto simp: answers_response)
    next
      case 2
      then show ?thesis
        using assms Inr error by (auto simp: handle_parsed_request_def Let_def handle_push_typed_def respond_with_Inr
            response_message_type_for_request_def answers_response split: option.splits sum.splits prod.splits)
    next
      case 3
      then show ?thesis
        using assms Inr error by (auto simp: handle_parsed_request_def Let_def run_command_start_def event_envelopes_def
            response_message_type_for_request_def answers_response list_all_iff split: if_splits sum.splits prod.splits)
    next
      case 4
      have "log_message_type m \<in> response_types LogsRequest" for m by (cases m) simp_all
      then show ?thesis
        using assms Inr error 4 by (auto simp: handle_parsed_request_def Let_def handle_logs_request_def log_envelopes_def
            response_message_type_for_request_def answers_response list_all_iff split: if_splits sum.splits prod.splits)
    qed
  qed
qed

section \<open>Properties\<close>

text \<open>
  C5: a peer on the network cannot change the daemon. Whatever certificate a session presents and
  whatever request it sends, the artifacts, the running operations, the registry of keys and the
  configuration file stay as they are; and unless its key is allowed and the request is a
  negotiation or a remote call, the only answer is one refusal as unauthorized. Administration
  needs the control socket and a process of the daemon's user or of root.
\<close>

theorem network_peer_cannot_change_daemon:
  assumes "resolve_session_auth_context keys identity = Inr auth"
    and "handle_parsed_request json st su features auth parsed d = (d', features', out, r)"
  shows "d' = d \<and>
    (\<exists>k. extract_peer_public_key identity = Inr k \<and>
      (is_tls_client_key_allowlisted keys k \<and> env_message_type (pse_request parsed) \<in> {HelloNegotiate, RpcInvoke} \<or>
       (\<exists>err. out = [error_envelope json (response_message_type_for_request (env_message_type (pse_request parsed)))
         (env_request_id (pse_request parsed)) (env_correlation_id (pse_request parsed)) err] \<and> se_code err = Unauthorized))) \<and>
    (\<forall>peer_cred euid admin. resolve_local_auth_context peer_cred euid = Inr admin \<longrightarrow>
       peer_cred \<in> {Inr 0, Inr euid} \<and> auth \<noteq> admin)"
proof -
  obtain k where k: "extract_peer_public_key identity = Inr k"
      "auth = \<lparr>sa_role = (if is_tls_client_key_allowlisted keys k then Client else Unknown), sa_public_key_hex = encode_hex k\<rparr>"
    using assms(1) by (auto simp: network_session_role)
  have admin: "\<forall>peer_cred euid admin. resolve_local_auth_context peer_cred euid = Inr admin \<longrightarrow>
       peer_cred \<in> {Inr 0, Inr euid} \<and> auth \<noteq> admin"
    by (auto simp: local_session_role local_admin_def k(2))
  show ?thesis
  proof (cases "ensure_message_type_allowed (env_message_type (pse_request parsed)) auth")
    case (Inl err)
    have "err_code err = Unauthorized"
      using Inl by (auto simp: ensure_message_type_allowed_def not_allowed_def with_detail_def new_error_def
          split: DynamicClientRole.splits if_splits)
    then show ?thesis
      using dispatch_refused [OF Inl, of json st su features d] assms(2) k(1) admin by (auto simp: to_structured_def)
  next
    case (Inr u)
    then have "is_tls_client_key_allowlisted keys k \<and> env_message_type (pse_request parsed) \<in> {HelloNegotiate, RpcInvoke}"
      using allowed_iff [of "env_message_type (pse_request parsed)" auth] by (auto simp: k(2) split: if_splits)
    then show ?thesis
      using dispatch_read_only [of parsed json st su features auth d] assms(2) k(1) admin by auto
  qed
qed

text \<open>
  C7: answers belong to their request. Every envelope the daemon writes for a request read from a
  stream, of the network or of the control socket, carries the request's identifiers and a
  type that answers it. A request other than a command or a request for logs gets exactly one
  answer, and a command stays without an answer only if its stream ends with an error. A stream
  that cannot be read as a request gets one error of type \<open>command.event\<close> under new identifiers
  and changes nothing, and an empty stream gets nothing.
\<close>

theorem responses_correlated:
  assumes "read = read_single_request_envelope cbor (js_null json) timed_out recv \<and>
      answer_stream cbor json st su features auth timed_out recv d = (d', features', out, r) \<or>
    read = read_single_local_request_envelope cbor (js_null json) timed_out recv \<and>
      answer_local_stream cbor json st su auth timed_out recv d = (d', features', out, r)"
  shows "case read of
      Inl err \<Rightarrow> d' = d \<and> r = Inr () \<and> (\<exists>e. out = [e] \<and> env_message_type e = MT_CommandEvent \<and>
        env_request_id e = su_fresh_request_id su \<and> env_correlation_id e = su_fresh_correlation_id su \<and>
        env_error e = Some (to_structured err))
    | Inr None \<Rightarrow> d' = d \<and> out = [] \<and> r = Inr ()
    | Inr (Some parsed) \<Rightarrow>
        list_all (answers_request (pse_request parsed)) out \<and>
        (env_message_type (pse_request parsed) \<notin> {CommandStart, LogsRequest} \<longrightarrow> length out = 1 \<and> r = Inr ()) \<and>
        (env_message_type (pse_request parsed) = CommandStart \<and> out = [] \<longrightarrow> \<not> is_ok r)"
proof -
  obtain features0 where run: "answer_read json st su features0 auth read d = (d', features', out, r)"
    using assms by (auto simp: answer_stream_def answer_local_stream_def)
  show ?thesis
  proof (cases read)
    case (Inl err)
    then show ?thesis using run by (auto simp: answer_read_def error_envelope_def)
  next
    case (Inr parsed)
    show ?thesis
    proof (cases parsed)
      case None
      then show ?thesis using run Inr by (simp add: answer_read_def)
    next
      case (Some request)
      then have "handle_parsed_request json st su features0 auth request d = (d', features', out, r)"
        using run Inr by (simp add: answer_read_def)
      from dispatch_answers [OF this] show ?thesis using Inr Some by simp
    qed
  qed
qed

text \<open>
  C6: uploading a certificate admits exactly that peer, now and after a restart. When the registry
  agrees with the allowlist of the configuration file and an administrator uploads a valid key,
  the upload is answered without error; the registry and the file agree afterwards, a session
  with the key has the client role, and no other key changed its role.
\<close>

theorem uploaded_key_admits_peer:
  assumes "toml_conversions (st_toml st)" and "toml_round_trip (st_toml st)" and "\<forall>table. is_ok (to_string_pretty (st_toml st) table)"
    and "io_works (su_config_io su) (st_config_path st)" and "io_read (su_reload_io su) (st_config_path st) = None"
    and "dm_config_files d (st_config_path st) = Some body" and "from_str (st_toml st) body = Inr (TTable root)"
    and "bt_get root ''tls'' = Some (TTable tls)"
    and "bt_get tls ''client_public_keys'' = Some (TArray (map TString ss))"
    and "get_or_insert tls ''known_public_keys'' (TTable []) = TTable (string_table m)"
    and "load (st_build st) (st_toml st) (su_config_io su) (dm_config_files d) (st_config_path st) = Inr config"
    and "set (client_keys (dm_keys d)) = key_of ` set (tls_client_public_keys (cfg_tls config))"
    and "sa_role auth = Admin" and "env_message_type (pse_request parsed) = BindingsCertUpload"
    and "js_cert_upload json (env_payload (pse_request parsed)) = Inr payload"
    and "validate_BindingsCertUploadRequest payload = Inr ()" and "trim (bcu_authority payload) \<noteq> []"
    and "parse_ed25519_raw_public_key_hex (bcu_public_key_hex payload) = Inr k"
  shows "\<exists>d' features' response config'.
    handle_parsed_request json st su features auth parsed d = (d', features', [response], Inr ()) \<and> env_error response = None \<and>
    load (st_build st) (st_toml st) (su_reload_io su) (dm_config_files d') (st_config_path st) = Inr config' \<and>
    set (client_keys (dm_keys d')) = key_of ` set (tls_client_public_keys (cfg_tls config')) \<and>
    resolve_dynamic_client_role (dm_keys d') k = Client \<and>
    (\<forall>other. other \<noteq> k \<longrightarrow> resolve_dynamic_client_role (dm_keys d') other = resolve_dynamic_client_role (dm_keys d) other)"
proof -
  let ?request = "pse_request parsed"
  obtain files' keys where up: "upsert_tls_known_client_key (st_build st) (st_toml st) (su_config_io su) (su_reload_io su)
        (dm_config_files d) (st_config_path st) (bcu_authority payload) (bcu_public_key_hex payload) = (Inr (), files')"
      "load (st_build st) (st_toml st) (su_reload_io su) files' (st_config_path st) = Inr (config\<lparr>cfg_tls := (cfg_tls config)\<lparr>tls_client_public_keys := keys,
        tls_known_public_keys := bt_insert (trim (bcu_authority payload)) (encode_hex k) (tls_known_public_keys (cfg_tls config))\<rparr>\<rparr>)"
      "set (map key_of keys) = insert k (set (map key_of (tls_client_public_keys (cfg_tls config))))"
    using upsert_client_key_effect [OF assms(1-11,17,18)] by blast
  let ?keys = "(dm_keys d)\<lparr>client_keys := List.insert k (client_keys (dm_keys d))\<rparr>"
  let ?d = "d\<lparr>dm_config_files := files', dm_keys := ?keys\<rparr>"
  have "take_valid (js_cert_upload json) validate_BindingsCertUploadRequest ''bindings.cert.upload'' ?request = Inr payload"
    using assms(15,16) by (simp add: take_valid_def payload_take_def)
  then obtain p where "handle_single json st su auth ?request d = (?d, Inr (response_envelope json BindingsCertUpload (env_request_id ?request) (env_correlation_id ?request) p))"
    using assms(14,18) up(1)
    by (simp add: handle_single_def handle_bindings_cert_upload_def upsert_dynamic_client_public_key_def respond_with_def)
  moreover have "ensure_message_type_allowed BindingsCertUpload auth = Inr ()"
    using assms(13) by (simp add: ensure_message_type_allowed_def)
  ultimately obtain features' where "handle_parsed_request json st su features auth parsed d =
      (?d, features', [response_envelope json BindingsCertUpload (env_request_id ?request) (env_correlation_id ?request) p], Inr ())"
    using dispatch_single [of parsed auth json st su features d] assms(14) by auto
  then show ?thesis
    using up(2,3) assms(12)
    by (auto simp: response_envelope_def resolve_dynamic_client_role_def)
qed

text \<open>
  A command whose payload does not decode gets no answer: the error carries the stage
  \<open>protocol\<close>, so that it is not turned into a response but ends the connection.
\<close>

lemma undecodable_command_unanswered:
  assumes "sa_role auth = Admin" and "env_message_type (pse_request parsed) = CommandStart"
    and "js_command json (env_payload (pse_request parsed)) = Inl e"
  shows "\<exists>features' err. handle_parsed_request json st su features auth parsed d = (d, features', [], Inl err)"
  using assms by (auto simp: handle_parsed_request_def Let_def ensure_message_type_allowed_def run_command_start_def
      payload_take_def should_wrap_command_start_error_def bad_request_def new_error_def)

section \<open>Witnesses\<close>

text \<open>A JSON library with one value, which decodes as an upload of a key, and a daemon whose registry is empty.\<close>

definition example_json :: "unit Json" where
  "example_json =
     \<lparr>js_null = (), js_encode = (\<lambda>_. ()), js_hello = (\<lambda>_. Inl ''e''), js_prepare = (\<lambda>_. Inl ''e''),
      js_push = (\<lambda>_. Inl ''e''), js_commit = (\<lambda>_. Inl ''e''), js_command = (\<lambda>_. Inl ''e''), js_state = (\<lambda>_. Inl ''e''),
      js_services = (\<lambda>_. Inl ''e''), js_cancel = (\<lambda>_. Inl ''e''), js_logs = (\<lambda>_. Inl ''e''), js_rpc = (\<lambda>_. Inl ''e''),
      js_cert_inspect = (\<lambda>_. Inl ''e''),
      js_cert_upload = (\<lambda>_. Inr \<lparr>bcu_public_key_hex = encode_hex (replicate 32 17), bcu_authority = ''rpc://node:4443''\<rparr>)\<rparr>"

definition example_settings :: Settings where
  "example_settings =
     \<lparr>st_config = example_config, st_config_path = ''/srv/imagod.toml'', st_store = example_store, st_build = example_build,
      st_toml = example_lib\<rparr>"

definition example_surroundings :: Surroundings where
  "example_surroundings =
     \<lparr>su_now = 1, su_now_after_io = 1, su_deploy_id = ''d'', su_upload_token = ''t'', su_sha = example_sha,
      su_remove_fails = (\<lambda>_. False), su_file = IoOk, su_config_io = example_io (\<lambda>_. Inr False),
      su_reload_io = example_io (\<lambda>_. Inr False), su_shutdown_requested = False, su_version_in_range = (\<lambda>_. Some True),
      su_list_service_states = (\<lambda>_. Inr []), su_invoke = (\<lambda>_ _ _ _. Inr []), su_command = Inr (''svc'', ''hash''),
      su_loggable_service_names = [], su_open_logs = (\<lambda>_ _. Inl (new_error NotFound ''logs.request'' ''none'')),
      su_followed = [], su_server_public_key = Inr [], su_fresh_request_id = 3, su_fresh_correlation_id = 4\<rparr>"

definition example_daemon :: Daemon where
  "example_daemon = \<lparr>dm_artifacts = empty_world, dm_operations = [], dm_keys = \<lparr>client_keys = []\<rparr>, dm_config_files = example_files\<rparr>"

definition example_parsed :: "MessageType \<Rightarrow> unit ParsedSingleRequestEnvelope" where
  "example_parsed mt =
     \<lparr>pse_request = \<lparr>env_message_type = mt, env_request_id = 1, env_correlation_id = 2, env_payload = (), env_error = None\<rparr>,
      pse_typed_push = None\<rparr>"

theorem network_peer_cannot_change_daemon_witness:
  "fst (handle_parsed_request example_json example_settings example_surroundings (Some False)
     \<lparr>sa_role = Unknown, sa_public_key_hex = encode_hex (replicate 32 7)\<rparr> (example_parsed BindingsCertUpload) example_daemon) = example_daemon"
proof -
  have "resolve_session_auth_context \<lparr>client_keys = []\<rparr> (CertificateChain [ED25519_SPKI_PREFIX @ replicate 32 7]) =
      Inr \<lparr>sa_role = Unknown, sa_public_key_hex = encode_hex (replicate 32 7)\<rparr>"
    using extract_peer_public_key_Inr [of "CertificateChain [ED25519_SPKI_PREFIX @ replicate 32 7]" "replicate 32 7"]
    by (simp add: resolve_session_auth_context_def resolve_dynamic_client_role_def del: extract_peer_public_key.simps)
  from network_peer_cannot_change_daemon [OF this] show ?thesis by (metis prod.collapse)
qed

text \<open>A CBOR library in which every frame is a request for the state, and a stream with one frame.\<close>

definition state_cbor :: "unit Cbor" where
  "state_cbor =
     \<lparr>cbor_header = (\<lambda>_. Inr \<lparr>eh_message_type = MT_StateRequest, eh_request_id = 1, eh_correlation_id = 2\<rparr>),
      cbor_push = (\<lambda>_. Inl ''push''), cbor_envelope = (\<lambda>_. Inr (pse_request (example_parsed MT_StateRequest)))\<rparr>"

theorem responses_correlated_witness:
  "\<exists>d' features' e r. answer_stream state_cbor example_json example_settings example_surroundings (Some False) (local_admin ''a'') False
      (encode_frame [7, 8], Eof []) example_daemon = (d', features', [e], r) \<and>
    env_request_id e = 1 \<and> env_correlation_id e = 2 \<and> env_message_type e \<in> response_types MT_StateRequest"
proof -
  let ?recv = "(encode_frame [7, 8], Eof [])"
  let ?read = "read_single_request_envelope state_cbor (js_null example_json) False ?recv"
  have read: "?read = Inr (Some (example_parsed MT_StateRequest))"
    using decode_wire [of "[[7, 8]]"]
    by (simp add: example_frame state_cbor_def read_single_request_envelope_def read_stream_with_timeout_def MAX_STREAM_BYTES_def
        parse_single_request_envelope_def parse_request_frame_def ensure_non_nil_envelope_ids_def example_parsed_def encode_frame_def)
  obtain d' features' out r where run: "answer_stream state_cbor example_json example_settings example_surroundings (Some False)
      (local_admin ''a'') False ?recv example_daemon = (d', features', out, r)"
    using prod_cases4 by blast
  have "list_all (answers_request (pse_request (example_parsed MT_StateRequest))) out \<and> length out = 1"
    using responses_correlated [OF disjI1, OF conjI, OF refl run] unfolding read by (simp add: example_parsed_def)
  then show ?thesis
    using run by (cases out) (auto simp: example_parsed_def answers_request_def)
qed

lemma example_upload:
  "validate_BindingsCertUploadRequest \<lparr>bcu_public_key_hex = encode_hex (replicate 32 17), bcu_authority = ''rpc://node:4443''\<rparr> = Inr ()"
proof -
  have "encode_hex (replicate (Suc 31) 17) = hex_digit 1 # hex_digit 1 # encode_hex (replicate 31 17)"
    unfolding replicate_Suc by (simp add: encode_hex_def)
  moreover have "\<not> trim_is_empty (hex_digit 1 # s)" for s
    by (rule not_blank_digit) (simp_all add: hex_digit_def)
  ultimately have "\<not> trim_is_empty (encode_hex (replicate (Suc 31) 17))" by metis
  moreover have "\<not> trim_is_empty ''rpc://node:4443''" by simp
  ultimately show ?thesis by (simp add: validate_BindingsCertUploadRequest_def validate_simps del: trim_is_empty.simps)
qed

theorem uploaded_key_admits_peer_witness:
  "\<exists>d' features' response.
    handle_parsed_request example_json example_settings example_surroundings None (local_admin ''a'')
      (example_parsed BindingsCertUpload) example_daemon = (d', features', [response], Inr ()) \<and>
    resolve_dynamic_client_role (dm_keys d') (replicate 32 17) = Client"
proof -
  let ?payload = "\<lparr>bcu_public_key_hex = encode_hex (replicate 32 17), bcu_authority = ''rpc://node:4443''\<rparr>"
  note example = example_settings_def example_surroundings_def example_daemon_def example_parsed_def example_json_def
  have "toml_conversions (st_toml example_settings)" "toml_round_trip (st_toml example_settings)"
      "\<forall>table. is_ok (to_string_pretty (st_toml example_settings) table)"
      "io_works (su_config_io example_surroundings) (st_config_path example_settings)"
      "io_read (su_reload_io example_surroundings) (st_config_path example_settings) = None"
      "dm_config_files example_daemon (st_config_path example_settings) = Some (decimal (to_nat example_root))"
      "from_str (st_toml example_settings) (decimal (to_nat example_root)) = Inr (TTable example_root)"
    using example_conversions example_round_trip example_prints example_io_works example_load by (simp_all add: example)
  note store = this example_tls
  have "load (st_build example_settings) (st_toml example_settings) (su_config_io example_surroundings) (dm_config_files example_daemon)
        (st_config_path example_settings) = Inr example_config"
      "set (client_keys (dm_keys example_daemon)) = key_of ` set (tls_client_public_keys (cfg_tls example_config))"
      "sa_role (local_admin ''a'') = Admin" "env_message_type (pse_request (example_parsed BindingsCertUpload)) = BindingsCertUpload"
      "js_cert_upload example_json (env_payload (pse_request (example_parsed BindingsCertUpload))) = Inr ?payload"
      "trim (bcu_authority ?payload) \<noteq> []" "parse_ed25519_raw_public_key_hex (bcu_public_key_hex ?payload) = Inr (replicate 32 17)"
    using example_load example_authority example_key by (simp_all add: example example_config_def local_admin_def)
  note request = this
  show ?thesis
    using uploaded_key_admits_peer [where d = example_daemon,
        OF store request(1-5) example_upload request(6,7)] by blast
qed

end
