(* ===== verification/Upload_Client.thy ===== *)
theory Upload_Client
  imports Protocol_Router
begin

text \<open>
  The upload of a deployment by the command line client
  (\<^verbatim>\<open>imago-cli/src/commands/deploy/mod.rs\<close>): the negotiation, the plan of chunks, the retries of
  one request and of the whole upload, and the identity under which an upload can be resumed.

  The client is written over its surroundings: a connection, one exchange of a request for the
  envelopes of its answer, fresh identifiers, and the digest. What the surroundings keep is the type
  variable \<open>'s\<close>; \<open>Deploy_Upload\<close> puts the daemon there.
\<close>

section \<open>Errors and retries\<close>

text \<open>
  An error of the client: the answer of the daemon, the answer that the artifact was not verified,
  or the messages of a chain of causes, the outermost first. Added context is part of the chain; it
  does not hide the first two.
\<close>

datatype ClientError =
    ServerResponseError StructuredError
  | CommitNotVerifiedError
  | OtherError "string list"

fun with_context :: "string \<Rightarrow> ClientError \<Rightarrow> ClientError" where
  "with_context message (OtherError chain) = OtherError (message # chain)"
| "with_context message err = err"

definition contains_unauthorized_marker :: "string list \<Rightarrow> bool" where
  "contains_unauthorized_marker chain = list_ex (contains_text ''E_UNAUTHORIZED'') chain"

definition is_non_retryable_error_code :: "ErrorCode \<Rightarrow> bool" where
  "is_non_retryable_error_code code =
     (code \<in> {Unauthorized, BadRequest, BadManifest, IdempotencyConflict, RangeInvalid, ChunkHashMismatch,
        StorageQuota, PreconditionFailed})"

fun should_retry_upload_error :: "ClientError \<Rightarrow> bool" where
  "should_retry_upload_error CommitNotVerifiedError = False"
| "should_retry_upload_error (ServerResponseError error) =
     (if is_non_retryable_error_code (se_code error) then False
      else if se_code error = Busy then True
      else se_retryable error)"
| "should_retry_upload_error (OtherError chain) = (\<not> contains_unauthorized_marker chain)"

definition UPLOAD_MAX_ATTEMPTS :: nat where "UPLOAD_MAX_ATTEMPTS = 4"
definition UPLOAD_RETRY_BASE_BACKOFF_MS :: u64 where "UPLOAD_RETRY_BASE_BACKOFF_MS = 250"
definition UPLOAD_RETRY_MAX_BACKOFF_MS :: u64 where "UPLOAD_RETRY_MAX_BACKOFF_MS = 1000"
definition DEFAULT_DEPLOY_STREAM_TIMEOUT_SECS :: u64 where "DEFAULT_DEPLOY_STREAM_TIMEOUT_SECS = 30"
definition DEPLOY_STREAM_RETRY_BACKOFF_MS :: "u64 list" where "DEPLOY_STREAM_RETRY_BACKOFF_MS = [100, 250]"
definition DEPLOY_STREAM_MAX_ATTEMPTS :: nat where
  "DEPLOY_STREAM_MAX_ATTEMPTS = length DEPLOY_STREAM_RETRY_BACKOFF_MS + 1"

definition saturating_mul :: "u64 \<Rightarrow> u64 \<Rightarrow> u64" where
  "saturating_mul a b = (if unat a * unat b < 2 ^ 64 then a * b else - 1)"

definition retry_backoff_duration :: "nat \<Rightarrow> u64" where
  "retry_backoff_duration retry_index =
     (let shift = min (retry_index - 1) 8; factor = push_bit shift 1
      in min (saturating_mul UPLOAD_RETRY_BASE_BACKOFF_MS factor) UPLOAD_RETRY_MAX_BACKOFF_MS)"

text \<open>Messages are cut after whole characters: the first \<open>n\<close> bytes that start one, and what continues them.\<close>

fun take_chars :: "nat \<Rightarrow> string \<Rightarrow> string" where
  "take_chars n [] = []"
| "take_chars n (c # cs) =
     (if 128 \<le> (of_char c :: nat) \<and> (of_char c :: nat) < 192 then c # take_chars n cs
      else if n = 0 then [] else c # take_chars (n - 1) cs)"

definition truncate_log_message :: "string \<Rightarrow> nat \<Rightarrow> string" where
  "truncate_log_message message max_chars =
     (if chars_count message \<le> max_chars then message
      else if max_chars = 0 then []
      else if max_chars \<le> 3 then replicate max_chars CHR ''.''
      else take_chars (max_chars - 3) message @ ''...'')"

text \<open>The errors of an exchange are never answers of the daemon, so their summary is the outermost message.\<close>

definition summarize_retry_error :: "string list \<Rightarrow> string" where
  "summarize_retry_error chain = truncate_log_message (case chain of [] \<Rightarrow> [] | message # _ \<Rightarrow> message) 160"

datatype RequestStreamRetryPolicy = Standard | CommandStartNoRetry

definition deploy_stream_retry_backoff :: "nat \<Rightarrow> u64 option" where
  "deploy_stream_retry_backoff attempt =
     (if attempt \<ge> DEPLOY_STREAM_MAX_ATTEMPTS then None
      else if attempt - 1 < length DEPLOY_STREAM_RETRY_BACKOFF_MS
      then Some (DEPLOY_STREAM_RETRY_BACKOFF_MS ! (attempt - 1)) else None)"

fun request_stream_retry_backoff :: "RequestStreamRetryPolicy \<Rightarrow> nat \<Rightarrow> u64 option" where
  "request_stream_retry_backoff Standard attempt = deploy_stream_retry_backoff attempt"
| "request_stream_retry_backoff CommandStartNoRetry attempt = None"

definition format_request_stream_failure_summary :: "nat \<Rightarrow> string option \<Rightarrow> string \<Rightarrow> string" where
  "format_request_stream_failure_summary attempt first_failure last_failure =
     (case first_failure of
        Some first \<Rightarrow>
          if first \<noteq> last_failure
          then ''request stream failed after '' @ decimal attempt @ '' attempts (first_failure='' @ first @
            ''; last_failure='' @ last_failure @ '')''
          else ''request stream failed on attempt '' @ decimal attempt @ '' (reason='' @ last_failure @ '')''
      | None \<Rightarrow> ''request stream failed on attempt '' @ decimal attempt @ '' (reason='' @ last_failure @ '')'')"

lemma retry_below_max: "request_stream_retry_backoff policy attempt = Some b \<Longrightarrow> attempt < DEPLOY_STREAM_MAX_ATTEMPTS"
  by (cases policy) (auto simp: deploy_stream_retry_backoff_def split: if_splits)

text \<open>The loop of \<open>request_events_with_retry_policy_framed\<close> around one exchange.\<close>

function request_events_loop ::
    "RequestStreamRetryPolicy \<Rightarrow> ('s \<Rightarrow> 's \<times> (string list + 'a)) \<Rightarrow> nat \<Rightarrow> string option \<Rightarrow> 's \<Rightarrow> 's \<times> (ClientError + 'a)" where
  "request_events_loop policy once attempt first_failure_reason s =
     (case once s of
        (s', Inr responses) \<Rightarrow> (s', Inr responses)
      | (s', Inl err) \<Rightarrow>
          let reason = summarize_retry_error err;
              first' = (case first_failure_reason of None \<Rightarrow> Some reason | Some r \<Rightarrow> Some r)
          in case request_stream_retry_backoff policy attempt of
               None \<Rightarrow> (s', Inl (OtherError (format_request_stream_failure_summary attempt first' reason # err)))
             | Some backoff \<Rightarrow> request_events_loop policy once (attempt + 1) first' s')"
  by pat_completeness auto
termination
  by (relation "measure (\<lambda>(policy, once, attempt, first, s). DEPLOY_STREAM_MAX_ATTEMPTS - attempt)")
    (auto dest!: retry_below_max)

declare request_events_loop.simps [simp del]

section \<open>What the client works with\<close>

text \<open>A request as the client sends it; chunks are encoded from their own type.\<close>

datatype 'v ClientRequest =
    JsonRequest "'v ProtocolEnvelope"
  | PushRequest "ArtifactPushRequest ProtocolEnvelope"

text \<open>Conversions of the client between messages and JSON values.\<close>

record 'v ClientJson =
  cj_hello :: "HelloNegotiateRequest \<Rightarrow> 'v"
  cj_prepare :: "DeployPrepareRequest \<Rightarrow> 'v"
  cj_commit :: "ArtifactCommitRequest \<Rightarrow> 'v"
  cj_command :: "CommandStartRequest \<Rightarrow> 'v"
  cj_hello_response :: "'v \<Rightarrow> string + HelloNegotiateResponse"
  cj_prepare_response :: "'v \<Rightarrow> string + DeployPrepareResponse"
  cj_push_ack :: "'v \<Rightarrow> string + ArtifactPushAck"
  cj_commit_response :: "'v \<Rightarrow> string + ArtifactCommitResponse"
  cj_start_accepted :: "'v \<Rightarrow> string + bool"
  cj_event :: "'v \<Rightarrow> string + CommandEvent"

text \<open>
  The surroundings: opening a session, one exchange (the messages of the error if it fails), a fresh
  identifier, and whether a text is a version of the supported range (an error text for none).
\<close>

record ('s, 'v) ClientEnv =
  cv_connect :: "'s \<Rightarrow> 's \<times> (string list + unit)"
  cv_exchange :: "'v ClientRequest \<Rightarrow> 's \<Rightarrow> 's \<times> (string list + 'v ProtocolEnvelope list)"
  cv_uuid :: "'s \<Rightarrow> uuid"
  cv_version_supported :: "string \<Rightarrow> string + bool"
  cv_sha :: "bytes \<Rightarrow> string"

record UploadLimits =
  ul_chunk_size :: nat
  ul_max_inflight_chunks :: nat
  ul_deploy_stream_timeout :: u64

text \<open>\<open>UploadPhaseInputs\<close>, with the contents of the artifact file for its path.\<close>

record UploadPhaseInputs =
  up_name :: string
  up_app_type :: string
  up_target :: "(string, string) btree"
  up_policy :: "(string, string) btree"
  up_artifact :: bytes
  up_artifact_digest :: string
  up_artifact_size :: u64
  up_manifest_digest :: string
  up_idempotency_key :: string
  up_correlation_id :: uuid

definition request_envelope :: "MessageType \<Rightarrow> uuid \<Rightarrow> uuid \<Rightarrow> 'v \<Rightarrow> 'v ProtocolEnvelope" where
  "request_envelope message_type request_id correlation_id payload =
     \<lparr>env_message_type = message_type, env_request_id = request_id, env_correlation_id = correlation_id,
      env_payload = payload, env_error = None\<rparr>"

definition response_payload :: "('v \<Rightarrow> string + 'a) \<Rightarrow> 'v ProtocolEnvelope \<Rightarrow> ClientError + 'a" where
  "response_payload from_value response =
     (case env_error response of
        Some error \<Rightarrow> Inl (ServerResponseError error)
      | None \<Rightarrow> map_err (\<lambda>e. OtherError [''response payload decode failed: '' @ e]) (from_value (env_payload response)))"

definition request_events_with_retry_policy ::
    "('s, 'v) ClientEnv \<Rightarrow> RequestStreamRetryPolicy \<Rightarrow> 'v ClientRequest \<Rightarrow> 's \<Rightarrow> 's \<times> (ClientError + 'v ProtocolEnvelope list)" where
  "request_events_with_retry_policy env policy request s = request_events_loop policy (cv_exchange env request) 1 None s"

text \<open>\<open>request_response\<close> and the decoding of its payload.\<close>

definition request_payload ::
    "('s, 'v) ClientEnv \<Rightarrow> ('v \<Rightarrow> string + 'a) \<Rightarrow> 'v ClientRequest \<Rightarrow> 's \<Rightarrow> 's \<times> (ClientError + 'a)" where
  "request_payload env from_value request s =
     (case request_events_with_retry_policy env Standard request s of
        (s', Inl e) \<Rightarrow> (s', Inl e)
      | (s', Inr []) \<Rightarrow> (s', Inl (OtherError [''empty response stream'']))
      | (s', Inr (response # _)) \<Rightarrow> (s', response_payload from_value response))"

section \<open>Negotiation\<close>

definition parse_positive_limit :: "(string, string) btree \<Rightarrow> string \<Rightarrow> nat \<Rightarrow> string \<Rightarrow> ClientError + nat" where
  "parse_positive_limit limits key fallback label =
     (case bt_get limits key of
        Some raw \<Rightarrow>
          (case parse_unsigned (2 ^ 64) raw of
             Inl e \<Rightarrow> Inl (OtherError [''failed to parse '' @ label @ '' as integer: '' @ raw, e])
           | Inr n \<Rightarrow> if n = 0 then Inl (OtherError [label @ '' must be greater than 0'']) else Inr n)
      | None \<Rightarrow> Inr fallback)"

definition DEFAULT_CHUNK_SIZE :: nat where "DEFAULT_CHUNK_SIZE = 1024 * 1024"
definition DEFAULT_MAX_INFLIGHT_CHUNKS :: nat where "DEFAULT_MAX_INFLIGHT_CHUNKS = 16"

definition parse_upload_limits :: "HelloNegotiateResponse \<Rightarrow> ClientError + UploadLimits" where
  "parse_upload_limits response =
     and_then (parse_positive_limit (hnp_limits response) ''chunk_size'' DEFAULT_CHUNK_SIZE
       ''hello.negotiate response chunk_size'') (\<lambda>chunk_size.
     and_then (parse_positive_limit (hnp_limits response) ''max_inflight_chunks'' DEFAULT_MAX_INFLIGHT_CHUNKS
       ''hello.negotiate response max_inflight_chunks'') (\<lambda>max_inflight_chunks.
     and_then (parse_positive_limit (hnp_limits response) ''deploy_stream_timeout_secs''
       (unat DEFAULT_DEPLOY_STREAM_TIMEOUT_SECS) ''hello.negotiate response deploy_stream_timeout_secs'') (\<lambda>secs.
     Inr \<lparr>ul_chunk_size = chunk_size, ul_max_inflight_chunks = max_inflight_chunks,
          ul_deploy_stream_timeout = of_nat secs\<rparr>)))"

definition hello_rejection_message :: "HelloNegotiateResponse \<Rightarrow> string" where
  "hello_rejection_message response =
     (case hnp_compatibility_announcement response of
        Some announcement \<Rightarrow>
          if trim announcement \<noteq> [] then announcement
          else ''hello.negotiate was rejected by server (server_protocol_version='' @ hnp_server_protocol_version response @
            '', supported_protocol_version_range='' @ hnp_supported_protocol_version_range response @ '')''
      | None \<Rightarrow> ''hello.negotiate was rejected by server (server_protocol_version='' @ hnp_server_protocol_version response @
            '', supported_protocol_version_range='' @ hnp_supported_protocol_version_range response @ '')'')"

definition ensure_server_protocol_version_supported :: "(string \<Rightarrow> string + bool) \<Rightarrow> HelloNegotiateResponse \<Rightarrow> ClientError + unit" where
  "ensure_server_protocol_version_supported supported response =
     (case supported (hnp_server_protocol_version response) of
        Inl err \<Rightarrow> Inl (OtherError [''server_protocol_version '' @ quoted (hnp_server_protocol_version response) @
          '' is not valid semver: '' @ err])
      | Inr matches \<Rightarrow>
          if matches then Inr ()
          else Inl (OtherError [''server protocol version '' @ quoted (hnp_server_protocol_version response) @
            '' is not supported by this client (client supports '' @ quoted SUPPORTED_PROTOCOL_VERSION_RANGE @ '')'']))"

definition ensure_hello_protocol_compatibility :: "(string \<Rightarrow> string + bool) \<Rightarrow> HelloNegotiateResponse \<Rightarrow> ClientError + unit" where
  "ensure_hello_protocol_compatibility supported response =
     (if \<not> hnp_accepted response then Inl (OtherError [hello_rejection_message response])
      else ensure_server_protocol_version_supported supported response)"

section \<open>The plan of chunks\<close>

definition upload_ranges_for_prepare :: "ArtifactStatus \<Rightarrow> ByteRange list \<Rightarrow> u64 \<Rightarrow> ClientError + ByteRange list" where
  "upload_ranges_for_prepare status missing_ranges artifact_size =
     (case status of
        Complete \<Rightarrow> Inr []
      | Missing \<Rightarrow> Inr [\<lparr>br_offset = 0, br_length = artifact_size\<rparr>]
      | Partial \<Rightarrow>
          if missing_ranges = []
          then Inl (OtherError [''server reported artifact_status=partial but missing_ranges is empty''])
          else Inr missing_ranges)"

text \<open>
  The loop over one range has no bound of its own: with chunks of no bytes it would not end, and
  \<open>None\<close> stands for that.
\<close>

partial_function (option) plan_range :: "u64 \<Rightarrow> u64 \<Rightarrow> u64 \<Rightarrow> (u64 \<times> nat) list option" where
  "plan_range cursor range_end chunk_size =
     (if cursor < range_end then
        let remaining = range_end - cursor; chunk_len = min remaining chunk_size in
        Option.bind (plan_range (saturating_add cursor chunk_len) range_end chunk_size) (\<lambda>planned.
          Some ((cursor, unat chunk_len) # planned))
      else Some [])"

fun plan_ranges :: "u64 \<Rightarrow> u64 \<Rightarrow> ByteRange list \<Rightarrow> (u64 \<times> nat) list \<Rightarrow> (ClientError + (u64 \<times> nat) list) option" where
  "plan_ranges artifact_size chunk_size [] planned_chunks = Some (Inr planned_chunks)"
| "plan_ranges artifact_size chunk_size (r # ranges) planned_chunks =
     (if br_length r = 0 then Some (Inl (OtherError [''missing range length must be greater than 0'']))
      else case checked_add (br_offset r) (br_length r) of
        None \<Rightarrow> Some (Inl (OtherError [''missing range overflow: offset+length'']))
      | Some range_end \<Rightarrow>
          if range_end > artifact_size
          then Some (Inl (OtherError [''missing range is outside artifact size: end='' @ decimal (unat range_end) @
            '' artifact_size='' @ decimal (unat artifact_size)]))
          else case plan_range (br_offset r) range_end chunk_size of
            None \<Rightarrow> None
          | Some planned \<Rightarrow> plan_ranges artifact_size chunk_size ranges (planned_chunks @ planned))"

definition build_upload_chunk_plan :: "ByteRange list \<Rightarrow> u64 \<Rightarrow> nat \<Rightarrow> (ClientError + (u64 \<times> nat) list) option" where
  "build_upload_chunk_plan ranges artifact_size chunk_size =
     (if chunk_size = 0 then Some (Inl (OtherError [''chunk_size must be greater than 0'']))
      else plan_ranges artifact_size (of_nat chunk_size) ranges [])"

section \<open>The upload\<close>

definition push_single_artifact_chunk ::
    "('s, 'v) ClientEnv \<Rightarrow> 'v ClientJson \<Rightarrow> uuid \<Rightarrow> string \<Rightarrow> string \<Rightarrow> u64 \<Rightarrow> bytes \<Rightarrow> 's \<Rightarrow> 's \<times> (ClientError + unit)" where
  "push_single_artifact_chunk env cj correlation_id deploy_id upload_token offset chunk s =
     (case request_payload env (cj_push_ack cj)
         (PushRequest \<lparr>env_message_type = ArtifactPush, env_request_id = cv_uuid env s, env_correlation_id = correlation_id,
            env_payload = \<lparr>apr_header = \<lparr>aph_deploy_id = deploy_id, aph_offset = offset, aph_length = of_nat (length chunk),
                aph_chunk_sha256 = cv_sha env chunk, aph_upload_token = upload_token\<rparr>, apr_chunk = chunk\<rparr>,
            env_error = None\<rparr>) s of
        (s', r) \<Rightarrow> (s', and_then r (\<lambda>_. Inr ())))"

text \<open>
  \<open>push_artifact_ranges\<close> waits for the chunk in flight before it reads the next one, since it
  allows one at a time whatever the daemon offers.
\<close>

fun push_chunks ::
    "('s, 'v) ClientEnv \<Rightarrow> 'v ClientJson \<Rightarrow> uuid \<Rightarrow> string \<Rightarrow> string \<Rightarrow> bytes \<Rightarrow> (u64 \<times> nat) list \<Rightarrow> 's \<Rightarrow> 's \<times> (ClientError + unit)" where
  "push_chunks env cj correlation_id deploy_id upload_token artifact [] s = (s, Inr ())"
| "push_chunks env cj correlation_id deploy_id upload_token artifact ((offset, chunk_len) # chunk_plan) s =
     (if unat offset + chunk_len > length artifact
      then (s, Inl (OtherError [''failed to read artifact bundle chunk'', ''failed to fill whole buffer'']))
      else case push_single_artifact_chunk env cj correlation_id deploy_id upload_token offset
          (take chunk_len (drop (unat offset) artifact)) s of
        (s', Inl e) \<Rightarrow> (s', Inl e)
      | (s', Inr _) \<Rightarrow> push_chunks env cj correlation_id deploy_id upload_token artifact chunk_plan s')"

definition push_artifact_ranges ::
    "('s, 'v) ClientEnv \<Rightarrow> 'v ClientJson \<Rightarrow> uuid \<Rightarrow> string \<Rightarrow> string \<Rightarrow> bytes \<Rightarrow> u64 \<Rightarrow> ByteRange list \<Rightarrow> UploadLimits
       \<Rightarrow> 's \<Rightarrow> ('s \<times> (ClientError + unit)) option" where
  "push_artifact_ranges env cj correlation_id deploy_id upload_token artifact artifact_size ranges limits s =
     (case build_upload_chunk_plan ranges artifact_size (ul_chunk_size limits) of
        None \<Rightarrow> None
      | Some (Inl e) \<Rightarrow> Some (s, Inl e)
      | Some (Inr chunk_plan) \<Rightarrow> Some (push_chunks env cj correlation_id deploy_id upload_token artifact chunk_plan s))"

definition required_features :: "string list" where
  "required_features = [''deploy.prepare'', ''artifact.push'', ''artifact.commit'', ''command.start'', ''command.event'']"

definition negotiate :: "('s, 'v) ClientEnv \<Rightarrow> 'v ClientJson \<Rightarrow> UploadPhaseInputs \<Rightarrow> 's \<Rightarrow> 's \<times> (ClientError + UploadLimits)" where
  "negotiate env cj inputs s =
     (case request_payload env (cj_hello_response cj)
         (JsonRequest (request_envelope HelloNegotiate (cv_uuid env s) (up_correlation_id inputs)
           (cj_hello cj \<lparr>hnr_client_version = PROTOCOL_VERSION, hnr_required_features = required_features\<rparr>))) s of
        (s', r) \<Rightarrow>
          (s', and_then r (\<lambda>response.
               and_then (ensure_hello_protocol_compatibility (cv_version_supported env) response) (\<lambda>_.
               parse_upload_limits response))))"

definition prepare_request :: "UploadPhaseInputs \<Rightarrow> DeployPrepareRequest" where
  "prepare_request inputs =
     \<lparr>dpr_name = up_name inputs, dpr_app_type = up_app_type inputs, dpr_target = up_target inputs,
      dpr_artifact_digest = up_artifact_digest inputs, dpr_artifact_size = up_artifact_size inputs,
      dpr_manifest_digest = up_manifest_digest inputs, dpr_idempotency_key = up_idempotency_key inputs,
      dpr_policy = up_policy inputs\<rparr>"

definition request_prepare :: "('s, 'v) ClientEnv \<Rightarrow> 'v ClientJson \<Rightarrow> UploadPhaseInputs \<Rightarrow> 's \<Rightarrow> 's \<times> (ClientError + DeployPrepareResponse)" where
  "request_prepare env cj inputs s =
     request_payload env (cj_prepare_response cj)
       (JsonRequest (request_envelope DeployPrepare (cv_uuid env s) (up_correlation_id inputs)
         (cj_prepare cj (prepare_request inputs)))) s"

definition commit_request :: "UploadPhaseInputs \<Rightarrow> string \<Rightarrow> ArtifactCommitRequest" where
  "commit_request inputs deploy_id =
     \<lparr>acr_deploy_id = deploy_id, acr_artifact_digest = up_artifact_digest inputs,
      acr_artifact_size = up_artifact_size inputs, acr_manifest_digest = up_manifest_digest inputs\<rparr>"

definition request_commit :: "('s, 'v) ClientEnv \<Rightarrow> 'v ClientJson \<Rightarrow> UploadPhaseInputs \<Rightarrow> string \<Rightarrow> 's \<Rightarrow> 's \<times> (ClientError + unit)" where
  "request_commit env cj inputs deploy_id s =
     (case request_payload env (cj_commit_response cj)
         (JsonRequest (request_envelope ArtifactCommit (cv_uuid env s) (up_correlation_id inputs)
           (cj_commit cj (commit_request inputs deploy_id)))) s of
        (s', r) \<Rightarrow>
          (s', and_then r (\<lambda>response. if acp_verified response then Inr () else Inl CommitNotVerifiedError)))"

record UploadPhaseResult =
  ur_deploy_id :: string
  ur_deploy_stream_timeout :: u64

text \<open>The missing ranges of the answer, then the commit; \<open>None\<close> is a plan that does not end.\<close>

definition upload_and_commit ::
    "('s, 'v) ClientEnv \<Rightarrow> 'v ClientJson \<Rightarrow> UploadPhaseInputs \<Rightarrow> UploadLimits \<Rightarrow> DeployPrepareResponse \<Rightarrow> 's
       \<Rightarrow> ('s \<times> (ClientError + UploadPhaseResult)) option" where
  "upload_and_commit env cj inputs limits response s =
     (let deploy_id = dpp_deploy_id response;
          finish = (\<lambda>s. case request_commit env cj inputs deploy_id s of
            (s', r) \<Rightarrow> (s', and_then r (\<lambda>_.
              Inr \<lparr>ur_deploy_id = deploy_id, ur_deploy_stream_timeout = ul_deploy_stream_timeout limits\<rparr>))) in
      case upload_ranges_for_prepare (dpp_artifact_status response) (dpp_missing_ranges response) (up_artifact_size inputs) of
        Inl e \<Rightarrow> Some (s, Inl e)
      | Inr ranges \<Rightarrow>
          if ranges = [] then Some (finish s)
          else case push_artifact_ranges env cj (up_correlation_id inputs) deploy_id (dpp_upload_token response)
              (up_artifact inputs) (up_artifact_size inputs) ranges limits s of
            None \<Rightarrow> None
          | Some (s', Inl e) \<Rightarrow> Some (s', Inl e)
          | Some (s', Inr _) \<Rightarrow> Some (finish s'))"

definition run_upload_phase_once ::
    "('s, 'v) ClientEnv \<Rightarrow> 'v ClientJson \<Rightarrow> UploadPhaseInputs \<Rightarrow> 's \<Rightarrow> ('s \<times> (ClientError + UploadPhaseResult)) option" where
  "run_upload_phase_once env cj inputs s =
     (case cv_connect env s of
        (s1, Inl e) \<Rightarrow> Some (s1, Inl (OtherError e))
      | (s1, Inr _) \<Rightarrow>
          (case negotiate env cj inputs s1 of
             (s2, Inl e) \<Rightarrow> Some (s2, Inl e)
           | (s2, Inr limits) \<Rightarrow>
               (case request_prepare env cj inputs s2 of
                  (s3, Inl e) \<Rightarrow> Some (s3, Inl e)
                | (s3, Inr response) \<Rightarrow> upload_and_commit env cj inputs limits response s3)))"

function run_upload_phase_attempts ::
    "('s, 'v) ClientEnv \<Rightarrow> 'v ClientJson \<Rightarrow> UploadPhaseInputs \<Rightarrow> nat \<Rightarrow> 's \<Rightarrow> ('s \<times> (ClientError + UploadPhaseResult)) option" where
  "run_upload_phase_attempts env cj inputs attempt s =
     (if attempt > UPLOAD_MAX_ATTEMPTS
      then Some (s, Inl (OtherError [''upload retry loop exhausted unexpectedly without a terminal result'']))
      else case run_upload_phase_once env cj inputs s of
        None \<Rightarrow> None
      | Some (s', Inr r) \<Rightarrow> Some (s', Inr r)
      | Some (s', Inl err) \<Rightarrow>
          if attempt \<ge> UPLOAD_MAX_ATTEMPTS \<or> \<not> should_retry_upload_error err
          then Some (s', Inl (with_context (''upload phase failed on attempt '' @ decimal attempt @ ''/'' @
            decimal UPLOAD_MAX_ATTEMPTS) err))
          else run_upload_phase_attempts env cj inputs (attempt + 1) s')"
  by pat_completeness auto
termination
  by (relation "measure (\<lambda>(env, cj, inputs, attempt, s). Suc UPLOAD_MAX_ATTEMPTS - attempt)") auto

declare run_upload_phase_attempts.simps [simp del]

definition run_upload_phase_with_resume ::
    "('s, 'v) ClientEnv \<Rightarrow> 'v ClientJson \<Rightarrow> UploadPhaseInputs \<Rightarrow> 's \<Rightarrow> ('s \<times> (ClientError + UploadPhaseResult)) option" where
  "run_upload_phase_with_resume env cj inputs s = run_upload_phase_attempts env cj inputs 1 s"

section \<open>The identity of an upload\<close>

definition update_canonical_field :: "string \<Rightarrow> string \<Rightarrow> string" where
  "update_canonical_field key value' = key @ [CHR 0x00] @ decimal (length value') @ [CHR 0x00] @ value' @ [CHR 0x00]"

definition update_canonical_map :: "string \<Rightarrow> (string, string) btree \<Rightarrow> string" where
  "update_canonical_map key m = key @ [CHR 0x00] @ concat (map (\<lambda>(k, v). update_canonical_field k v) m) @ [CHR 0x00]"

text \<open>The bytes the hasher of \<open>build_idempotency_key\<close> is fed.\<close>

definition canonical_upload ::
    "string \<Rightarrow> string \<Rightarrow> (string, string) btree \<Rightarrow> (string, string) btree \<Rightarrow> string \<Rightarrow> u64 \<Rightarrow> string \<Rightarrow> string" where
  "canonical_upload name app_type target policy artifact_digest artifact_size manifest_digest =
     update_canonical_field ''name'' name @ update_canonical_field ''app_type'' app_type @
     update_canonical_field ''artifact_digest'' artifact_digest @
     update_canonical_field ''artifact_size'' (decimal (unat artifact_size)) @
     update_canonical_field ''manifest_digest'' manifest_digest @
     update_canonical_map ''target'' target @ update_canonical_map ''policy'' policy"

definition build_idempotency_key ::
    "(bytes \<Rightarrow> string) \<Rightarrow> string \<Rightarrow> string \<Rightarrow> (string, string) btree \<Rightarrow> (string, string) btree \<Rightarrow> string \<Rightarrow> u64 \<Rightarrow> string \<Rightarrow> string" where
  "build_idempotency_key sha name app_type target policy artifact_digest artifact_size manifest_digest =
     ''deploy:'' @ sha (as_bytes
       (canonical_upload name app_type target policy artifact_digest artifact_size manifest_digest))"

definition normalize_target_for_protocol :: "string \<Rightarrow> (string, string) btree" where
  "normalize_target_for_protocol remote = bt_insert ''remote'' remote []"

section \<open>The plan covers the ranges\<close>

definition chunk_bytes :: "u64 \<times> nat \<Rightarrow> nat list" where
  "chunk_bytes c = [unat (fst c) ..< unat (fst c) + snd c]"

definition chunk_within :: "nat \<Rightarrow> u64 \<times> nat \<Rightarrow> bool" where
  "chunk_within limit c \<longleftrightarrow> 0 < snd c \<and> snd c \<le> limit"

lemma plan_range_ends:
  assumes "0 < chunk_size"
  shows "\<exists>planned. plan_range cursor range_end chunk_size = Some planned \<and>
    concat (map chunk_bytes planned) = [unat cursor ..< unat range_end] \<and> list_all (chunk_within (unat chunk_size)) planned"
proof (induction "unat range_end - unat cursor" arbitrary: cursor rule: less_induct)
  case less
  show ?case
  proof (cases "cursor < range_end")
    case False
    then have "plan_range cursor range_end chunk_size = Some []" by (subst plan_range.simps) simp
    then show ?thesis using False by (simp add: word_less_nat_alt)
  next
    case True
    define len where "len = min (range_end - cursor) chunk_size"
    have len: "0 < unat len" "unat len \<le> unat chunk_size" "unat cursor + unat len \<le> unat range_end"
      using True assms by (auto simp: len_def min_def word_less_nat_alt word_le_nat_alt unat_sub)
    moreover have "unat range_end < 2 ^ 64" using unat_lt_u64 [of range_end] by simp
    ultimately have next': "unat (saturating_add cursor len) = unat cursor + unat len"
      by (simp add: unat_saturating_add)
    obtain planned where planned: "plan_range (saturating_add cursor len) range_end chunk_size = Some planned"
        "concat (map chunk_bytes planned) = [unat cursor + unat len ..< unat range_end]"
        "list_all (chunk_within (unat chunk_size)) planned"
    proof -
      have "unat range_end - unat (saturating_add cursor len) < unat range_end - unat cursor" using len next' by linarith
      from less [OF this] show thesis using that next' by auto
    qed
    have "plan_range cursor range_end chunk_size = Some ((cursor, unat len) # planned)"
      using True planned(1) by (subst plan_range.simps) (simp add: Let_def len_def)
    then show ?thesis
      using planned(2,3) len upt_add_eq_append [of "unat cursor" "unat cursor + unat len" "unat range_end - (unat cursor + unat len)"]
      by (simp add: chunk_bytes_def chunk_within_def)
  qed
qed

definition range_ok :: "u64 \<Rightarrow> ByteRange \<Rightarrow> bool" where
  "range_ok artifact_size r \<longleftrightarrow> rstart r < rend r \<and> rend r \<le> unat artifact_size"

lemma plan_ranges_ends:
  assumes "0 < chunk_size"
  shows "\<exists>r. plan_ranges artifact_size chunk_size ranges done = Some r \<and>
    (case r of
       Inl e \<Rightarrow> \<not> list_all (range_ok artifact_size) ranges
     | Inr plan \<Rightarrow> list_all (range_ok artifact_size) ranges \<and>
         (\<exists>planned. plan = done @ planned \<and> list_all (chunk_within (unat chunk_size)) planned \<and>
           concat (map chunk_bytes planned) = concat (map (\<lambda>r. [rstart r ..< rend r]) ranges)))"
proof (induction ranges arbitrary: "done")
  case Nil
  show ?case by simp
next
  case (Cons r ranges)
  show ?case
  proof (cases "range_ok artifact_size r")
    case False
    then have "\<exists>e. plan_ranges artifact_size chunk_size (r # ranges) done = Some (Inl e)"
      using unat_lt_u64 [of artifact_size]
      by (auto simp: range_ok_def rstart_def rend_def checked_add_def word_less_nat_alt unat_word_ariths unat_eq_0 split: if_splits)
    then show ?thesis using False by auto
  next
    case True
    have lt: "unat (br_offset r) + unat (br_length r) < 2 ^ 64" and pos: "br_length r \<noteq> 0"
      using True unat_lt_u64 [of artifact_size] by (auto simp: range_ok_def rstart_def rend_def)
    define range_end where "range_end = br_offset r + br_length r"
    have range_end: "unat range_end = rend r" using lt by (simp add: range_end_def rend_def unat_word_ariths)
    obtain planned where planned: "plan_range (br_offset r) range_end chunk_size = Some planned"
        "concat (map chunk_bytes planned) = [rstart r ..< rend r]" "list_all (chunk_within (unat chunk_size)) planned"
      using plan_range_ends [OF assms, of "br_offset r" range_end] range_end by (auto simp: rstart_def)
    have step: "plan_ranges artifact_size chunk_size (r # ranges) done = plan_ranges artifact_size chunk_size ranges (done @ planned)"
      using True lt pos planned(1) range_end
      by (simp add: checked_add_def range_ok_def word_less_nat_alt flip: range_end_def)
    show ?thesis
      using Cons.IH [of "done @ planned"] True planned(2,3) unfolding step by (fastforce split: sum.splits)
  qed
qed

section \<open>Summaries keep what is not marked\<close>

abbreviation marker :: string where
  "marker \<equiv> ''E_UNAUTHORIZED''"

lemma contains_text_set: "contains_text pattern s \<Longrightarrow> set pattern \<subseteq> set s"
proof (induction s)
  case (Cons c s)
  have "set (take (length pattern) (c # s)) \<subseteq> set (c # s)" by (rule set_take_subset)
  then show ?case using Cons by (metis contains_text.simps(2) set_subset_Cons subset_trans)
qed simp

lemma contains_text_append: "contains_text pattern x \<Longrightarrow> contains_text pattern (x @ y)"
proof (induction x)
  case Nil
  then show ?case by (cases y) simp_all
next
  case (Cons c x)
  show ?case
  proof (cases "take (length pattern) (c # x) = pattern")
    case True
    then have "length pattern \<le> length (c # x)" by (metis length_take min.cobounded1)
    then show ?thesis using True take_append [of "length pattern" "c # x" y] by simp
  next
    case False
    then show ?thesis using Cons by simp
  qed
qed

lemma contains_text_separated:
  assumes "c \<notin> set pattern" "pattern \<noteq> []"
  shows "contains_text pattern (x @ c # y) \<longleftrightarrow> contains_text pattern x \<or> contains_text pattern y"
proof (induction x)
  case Nil
  show ?case using assms by (cases pattern) auto
next
  case (Cons a x)
  have "take (length pattern) ((a # x) @ c # y) = pattern \<longleftrightarrow> take (length pattern) (a # x) = pattern"
  proof (cases "length pattern \<le> length (a # x)")
    case True
    then show ?thesis using take_append [of "length pattern" "a # x" "c # y"] by simp
  next
    case False
    then have "c \<in> set (take (length pattern) ((a # x) @ c # y))" by (auto simp: take_append take_Cons')
    moreover have "take (length pattern) (a # x) \<noteq> pattern" using False by (metis length_take min.cobounded1)
    ultimately show ?thesis using assms(1) by metis
  qed
  then show ?case using Cons by (simp del: take_Suc_Cons)
qed

lemmas marker_separated =
  contains_text_separated [of "CHR '' ''" marker, simplified] contains_text_separated [of "CHR '';''" marker, simplified]
  contains_text_separated [of "CHR '')''" marker, simplified] contains_text_separated [of "CHR ''.''" marker, simplified]

lemma marker_not_in_decimal: "\<not> contains_text marker (decimal n)"
  using contains_text_set [of marker "decimal n"] decimal_digits [of "CHR ''E''" n] by auto

lemma take_chars_prefix: "\<exists>rest. s = take_chars n s @ rest"
  by (induction n s rule: take_chars.induct) auto

lemma summary_unmarked:
  assumes "\<not> contains_unauthorized_marker chain"
  shows "\<not> contains_text marker (summarize_retry_error chain)"
proof (cases chain)
  case Nil
  then show ?thesis by (simp add: summarize_retry_error_def truncate_log_message_def chars_count_def)
next
  case (Cons message rest)
  have "\<not> contains_text marker message" using assms Cons by (simp add: contains_unauthorized_marker_def)
  moreover have "\<not> contains_text marker (take_chars n message)" for n
    using calculation take_chars_prefix [of message n] contains_text_append by metis
  ultimately show ?thesis
    using Cons by (simp add: summarize_retry_error_def truncate_log_message_def marker_separated)
qed

lemma failure_summary_unmarked:
  assumes "\<not> contains_text marker reason" "\<And>r. first' = Some r \<Longrightarrow> \<not> contains_text marker r"
  shows "\<not> contains_text marker (format_request_stream_failure_summary attempt first' reason)"
  using assms marker_not_in_decimal [of attempt]
  by (simp add: format_request_stream_failure_summary_def marker_separated split: option.split)

section \<open>What the client needs of the daemon\<close>

text \<open>
  One exchange fails only if it is lost, and then keeps \<open>keep\<close> and reports no refusal of authority; when
  it succeeds its first envelope decodes to a payload for which \<open>good\<close> holds.
\<close>

definition exchange_law ::
    "('s, 'v) ClientEnv \<Rightarrow> bool \<Rightarrow> ('v \<Rightarrow> string + 'a) \<Rightarrow> 'v ClientRequest \<Rightarrow> ('s \<Rightarrow> bool) \<Rightarrow> ('a \<Rightarrow> 's \<Rightarrow> bool) \<Rightarrow> 's \<Rightarrow> bool" where
  "exchange_law env is_lost from_value request keep good s \<longleftrightarrow>
     (case cv_exchange env request s of
        (s', Inl e) \<Rightarrow> keep s' \<and> is_lost \<and> \<not> contains_unauthorized_marker e
      | (s', Inr responses) \<Rightarrow>
          \<exists>response rest x. responses = response # rest \<and> env_error response = None \<and>
            from_value (env_payload response) = Inr x \<and> good x s')"

text \<open>
  The contract of the daemon with a client that uploads \<open>inputs\<close>. \<open>sent\<close> counts the exchanges and
  \<open>lost\<close> says which of them fail. \<open>ready\<close>: an upload can start or resume; \<open>uploading d t B\<close>: the
  session \<open>d\<close> with token \<open>t\<close> holds at least the bytes \<open>B\<close> of the artifact; \<open>stored d\<close>: it holds all
  of them; \<open>committed d\<close>: it is committed with them.
\<close>

locale upload_service =
  fixes env :: "('s, 'v) ClientEnv" and cj :: "'v ClientJson" and inputs :: UploadPhaseInputs
    and sent :: "'s \<Rightarrow> nat" and lost :: "nat \<Rightarrow> bool" and limit :: nat
    and ready :: "'s \<Rightarrow> bool" and uploading :: "string \<Rightarrow> string \<Rightarrow> nat set \<Rightarrow> 's \<Rightarrow> bool"
    and stored :: "string \<Rightarrow> 's \<Rightarrow> bool" and committed :: "string \<Rightarrow> 's \<Rightarrow> bool"
  assumes connects: "ready s \<Longrightarrow> cv_connect env s = (s, Inr ())"
    and counts: "cv_exchange env request s = (s', r) \<Longrightarrow> sent s' = Suc (sent s)"
    and identifies: "ready s \<Longrightarrow> cv_uuid env s \<noteq> 0"
    and hello: "ready s \<Longrightarrow> i \<noteq> 0 \<Longrightarrow> exchange_law env (lost (sent s)) (cj_hello_response cj)
      (JsonRequest (request_envelope HelloNegotiate i (up_correlation_id inputs)
        (cj_hello cj \<lparr>hnr_client_version = PROTOCOL_VERSION, hnr_required_features = required_features\<rparr>)))
      ready (\<lambda>x s'. ready s' \<and> ensure_hello_protocol_compatibility (cv_version_supported env) x = Inr () \<and>
        (\<exists>limits. parse_upload_limits x = Inr limits \<and> 0 < ul_chunk_size limits \<and> ul_chunk_size limits < 2 ^ 64 \<and>
          ul_chunk_size limits \<le> limit)) s"
    and prepares: "ready s \<Longrightarrow> i \<noteq> 0 \<Longrightarrow> exchange_law env (lost (sent s)) (cj_prepare_response cj)
      (JsonRequest (request_envelope DeployPrepare i (up_correlation_id inputs) (cj_prepare cj (prepare_request inputs))))
      ready (\<lambda>x s'. if dpp_artifact_status x = Complete then stored (dpp_deploy_id x) s'
        else \<exists>ranges held. upload_ranges_for_prepare (dpp_artifact_status x) (dpp_missing_ranges x) (up_artifact_size inputs) = Inr ranges \<and>
          ranges \<noteq> [] \<and> list_all (range_ok (up_artifact_size inputs)) ranges \<and>
          {0 ..< length (up_artifact inputs)} \<subseteq> held \<union> covered ranges \<and>
          uploading (dpp_deploy_id x) (dpp_upload_token x) held s') s"
    and pushes: "uploading d t held s \<Longrightarrow> i \<noteq> 0 \<Longrightarrow> 0 < length chunk \<Longrightarrow> length chunk \<le> limit \<Longrightarrow>
      unat offset + length chunk \<le> length (up_artifact inputs) \<Longrightarrow>
      chunk = take (length chunk) (drop (unat offset) (up_artifact inputs)) \<Longrightarrow>
      exchange_law env (lost (sent s)) (cj_push_ack cj)
      (PushRequest \<lparr>env_message_type = ArtifactPush, env_request_id = i, env_correlation_id = up_correlation_id inputs,
         env_payload = \<lparr>apr_header = \<lparr>aph_deploy_id = d, aph_offset = offset, aph_length = of_nat (length chunk),
             aph_chunk_sha256 = cv_sha env chunk, aph_upload_token = t\<rparr>, apr_chunk = chunk\<rparr>, env_error = None\<rparr>)
      (uploading d t held) (\<lambda>x. uploading d t (held \<union> {unat offset ..< unat offset + length chunk})) s"
    and commits: "stored d s \<Longrightarrow> i \<noteq> 0 \<Longrightarrow> exchange_law env (lost (sent s)) (cj_commit_response cj)
      (JsonRequest (request_envelope ArtifactCommit i (up_correlation_id inputs) (cj_commit cj (commit_request inputs d))))
      (stored d) (\<lambda>x s'. acp_verified x \<and> committed d s') s"
    and size: "ready s \<Longrightarrow> unat (up_artifact_size inputs) = length (up_artifact inputs)"
    and uploading_ready: "uploading d t held s \<Longrightarrow> ready s"
    and stored_ready: "stored d s \<Longrightarrow> ready s"
    and all_uploaded: "uploading d t held s \<Longrightarrow> {0 ..< length (up_artifact inputs)} \<subseteq> held \<Longrightarrow> stored d s"
begin

definition three_lost :: "nat \<Rightarrow> bool" where
  "three_lost n \<longleftrightarrow> (\<exists>m\<ge>n. lost m \<and> lost (m + 1) \<and> lost (m + 2))"

text \<open>A failed step: the state is as before up to losses, the error may be retried, and three exchanges in a row were lost.\<close>

definition gave_up :: "('s \<Rightarrow> bool) \<Rightarrow> 's \<Rightarrow> 's \<Rightarrow> ClientError \<Rightarrow> bool" where
  "gave_up keep s s' e \<longleftrightarrow> keep s' \<and> should_retry_upload_error e \<and> sent s + 3 \<le> sent s' \<and> three_lost (sent s)"

lemma three_lost_mono: "three_lost n \<Longrightarrow> k \<le> n \<Longrightarrow> three_lost k"
  by (auto simp: three_lost_def intro: order_trans)

lemma request_loop:
  assumes law: "\<And>s. keep s \<Longrightarrow> exchange_law env (lost (sent s)) from_value request keep good s"
    and "keep s" "attempt \<in> {1..3}" "\<And>r. first' = Some r \<Longrightarrow> \<not> contains_text marker r"
  shows "case request_events_loop Standard (cv_exchange env request) attempt first' s of
      (s', Inl e) \<Rightarrow> keep s' \<and> should_retry_upload_error e \<and> sent s' = sent s + (4 - attempt) \<and> (\<forall>i < 4 - attempt. lost (sent s + i))
    | (s', Inr responses) \<Rightarrow> sent s \<le> sent s' \<and> (\<exists>response rest x. responses = response # rest \<and> env_error response = None \<and>
        from_value (env_payload response) = Inr x \<and> good x s')"
  using assms(2-4)
proof (induction "3 - attempt" arbitrary: attempt first' s rule: less_induct)
  case less
  obtain s1 r1 where ex: "cv_exchange env request s = (s1, r1)" by force
  note net = counts [OF ex]
  show ?case
  proof (cases r1)
    case (Inr responses)
    then have "request_events_loop Standard (cv_exchange env request) attempt first' s = (s1, Inr responses)"
      using ex by (subst request_events_loop.simps) simp
    then show ?thesis using law [OF less.prems(1)] ex Inr net by (simp add: exchange_law_def)
  next
    case (Inl e)
    define first1 where "first1 = (case first' of None \<Rightarrow> Some (summarize_retry_error e) | Some r \<Rightarrow> Some r)"
    have e: "keep s1" "\<not> contains_unauthorized_marker e" "lost (sent s)" "sent s1 = Suc (sent s)"
      using law [OF less.prems(1)] ex Inl net by (auto simp: exchange_law_def)
    have first1: "\<not> contains_text marker r" if "first1 = Some r" for r
      using that less.prems(3) summary_unmarked [OF e(2)] by (auto simp: first1_def split: option.splits)
    show ?thesis
    proof (cases "attempt = 3")
      case True
      define summary where "summary = format_request_stream_failure_summary attempt first1 (summarize_retry_error e)"
      have "request_events_loop Standard (cv_exchange env request) attempt first' s = (s1, Inl (OtherError (summary # e)))"
        using ex Inl True by (subst request_events_loop.simps)
          (simp add: Let_def deploy_stream_retry_backoff_def DEPLOY_STREAM_MAX_ATTEMPTS_def DEPLOY_STREAM_RETRY_BACKOFF_MS_def
            first1_def summary_def)
      moreover have "\<not> contains_text marker summary"
        unfolding summary_def by (rule failure_summary_unmarked [OF summary_unmarked [OF e(2)] first1])
      ultimately show ?thesis using e True by (simp add: contains_unauthorized_marker_def)
    next
      case False
      then have attempt: "attempt \<in> {1, 2}" using less.prems(2) by auto
      then have step: "request_events_loop Standard (cv_exchange env request) attempt first' s =
          request_events_loop Standard (cv_exchange env request) (attempt + 1) first1 s1"
        using ex Inl by (subst request_events_loop.simps)
          (auto simp: Let_def deploy_stream_retry_backoff_def DEPLOY_STREAM_MAX_ATTEMPTS_def DEPLOY_STREAM_RETRY_BACKOFF_MS_def
            first1_def)
      have "3 - (attempt + 1) < 3 - attempt" "attempt + 1 \<in> {1..3}" using attempt by auto
      note IH = less.hyps [OF this(1) e(1) this(2), of first1, OF first1]
      have "\<forall>i < Suc (3 - attempt). lost (sent s + i)" if "\<forall>i < 3 - attempt. lost (sent s1 + i)"
        using that e(3,4) by (auto simp: less_Suc_eq_0_disj)
      moreover have "Suc (3 - attempt) = 4 - attempt" "4 - (attempt + 1) = 3 - attempt" using attempt by auto
      ultimately have "(\<forall>i < 4 - (attempt + 1). lost (sent s1 + i)) \<Longrightarrow> (\<forall>i < 4 - attempt. lost (sent s + i))" by metis
      moreover obtain s2 r2 where "request_events_loop Standard (cv_exchange env request) (attempt + 1) first1 s1 = (s2, r2)" by force
      ultimately show ?thesis
        using IH e(4) attempt unfolding step by (cases r2) auto
    qed
  qed
qed

lemma request_retried:
  assumes "\<And>s. keep s \<Longrightarrow> exchange_law env (lost (sent s)) from_value request keep good s"
    and "keep s" "request_payload env from_value request s = (s', r)"
  shows "sent s \<le> sent s' \<and> (case r of Inr x \<Rightarrow> good x s' | Inl e \<Rightarrow> gave_up keep s s' e)"
proof -
  obtain s1 r1 where run: "request_events_loop Standard (cv_exchange env request) 1 None s = (s1, r1)" by force
  note loop = request_loop [OF assms(1,2), of 1 None, simplified run]
  show ?thesis
  proof (cases r1)
    case (Inl e)
    then have lost: "lost (sent s + i)" if "i < 3" for i using loop that by simp
    have "lost (sent s)" "lost (sent s + 1)" "lost (sent s + 2)" using lost [of 0] lost [of 1] lost [of 2] by simp_all
    then have "three_lost (sent s)" by (auto simp: three_lost_def)
    then show ?thesis
      using assms(3) run Inl loop by (auto simp: request_payload_def request_events_with_retry_policy_def gave_up_def)
  next
    case (Inr responses)
    then show ?thesis
      using assms(3) run loop
      by (auto simp: request_payload_def request_events_with_retry_policy_def response_payload_def)
  qed
qed

lemma gave_up_later: "gave_up keep s1 s2 e \<Longrightarrow> (\<And>s. keep s \<Longrightarrow> keep' s) \<Longrightarrow> sent s \<le> sent s1 \<Longrightarrow> gave_up keep' s s2 e"
  using three_lost_mono [of "sent s1" "sent s"] by (auto simp: gave_up_def)

lemma chunk_pushed:
  assumes "uploading d t held s" "chunk = take n (drop (unat offset) (up_artifact inputs))" "0 < n" "n \<le> limit"
    and "unat offset + n \<le> length (up_artifact inputs)"
    and "push_single_artifact_chunk env cj (up_correlation_id inputs) d t offset chunk s = (s', r)"
  shows "sent s \<le> sent s' \<and> (case r of
      Inr _ \<Rightarrow> uploading d t (held \<union> {unat offset ..< unat offset + n}) s'
    | Inl e \<Rightarrow> gave_up (uploading d t held) s s' e)"
proof -
  let ?request = "PushRequest \<lparr>env_message_type = ArtifactPush, env_request_id = cv_uuid env s,
      env_correlation_id = up_correlation_id inputs,
      env_payload = \<lparr>apr_header = \<lparr>aph_deploy_id = d, aph_offset = offset, aph_length = of_nat (length chunk),
        aph_chunk_sha256 = cv_sha env chunk, aph_upload_token = t\<rparr>, apr_chunk = chunk\<rparr>, env_error = None\<rparr>"
  obtain s1 r1 where run: "request_payload env (cj_push_ack cj) ?request s = (s1, r1)" by force
  have n: "length chunk = n" using assms(2,5) by simp
  have law: "exchange_law env (lost (sent s0)) (cj_push_ack cj) ?request (uploading d t held)
      (\<lambda>x. uploading d t (held \<union> {unat offset ..< unat offset + length chunk})) s0" if "uploading d t held s0" for s0
    by (rule pushes [OF that identifies [OF uploading_ready [OF assms(1)]]]) (simp_all only: n assms(3-5) assms(2) [symmetric])
  have "sent s \<le> sent s1 \<and> (case r1 of Inr x \<Rightarrow> uploading d t (held \<union> {unat offset ..< unat offset + length chunk}) s1
      | Inl e \<Rightarrow> gave_up (uploading d t held) s s1 e)"
    by (rule request_retried [OF law assms(1) run])
  moreover have "s' = s1 \<and> r = and_then r1 (\<lambda>_. Inr ())"
    using assms(6) run by (simp add: push_single_artifact_chunk_def)
  ultimately show ?thesis by (cases r1) (simp_all add: n)
qed

lemma chunks_pushed:
  assumes "uploading d t held s" "list_all (chunk_within limit) plan"
    and "set (concat (map chunk_bytes plan)) \<subseteq> {0 ..< length (up_artifact inputs)}"
    and "push_chunks env cj (up_correlation_id inputs) d t (up_artifact inputs) plan s = (s', r)"
  shows "sent s \<le> sent s' \<and> (case r of
      Inr _ \<Rightarrow> uploading d t (held \<union> set (concat (map chunk_bytes plan))) s'
    | Inl e \<Rightarrow> gave_up ready s s' e)"
  using assms
proof (induction plan arbitrary: held s)
  case Nil
  then show ?case by auto
next
  case (Cons c plan)
  obtain offset n where c: "c = (offset, n)" by force
  have n: "0 < n" "n \<le> limit" using Cons.prems(2) c by (auto simp: chunk_within_def)
  then have "unat offset + n - 1 \<in> set (concat (map chunk_bytes (c # plan)))" by (auto simp: c chunk_bytes_def)
  then have "unat offset + n - 1 \<in> {0 ..< length (up_artifact inputs)}" using Cons.prems(3) by blast
  then have bounds: "unat offset + n \<le> length (up_artifact inputs)" using n by simp
  obtain s1 r1 where run: "push_single_artifact_chunk env cj (up_correlation_id inputs) d t offset
      (take n (drop (unat offset) (up_artifact inputs))) s = (s1, r1)" by force
  note one = chunk_pushed [OF Cons.prems(1) refl n bounds run]
  show ?case
  proof (cases r1)
    case (Inl e)
    then have "gave_up ready s s1 e" using one gave_up_later [of "uploading d t held" s s1 e ready s] uploading_ready by simp
    then show ?thesis using Cons.prems(4) c run bounds one Inl by auto
  next
    case (Inr u)
    then have "uploading d t (held \<union> set (chunk_bytes c)) s1" using one by (simp add: c chunk_bytes_def)
    moreover have "push_chunks env cj (up_correlation_id inputs) d t (up_artifact inputs) plan s1 = (s', r)"
      using Cons.prems(4) c run bounds Inr by simp
    ultimately have "sent s1 \<le> sent s' \<and> (case r of
        Inr _ \<Rightarrow> uploading d t (held \<union> set (chunk_bytes c) \<union> set (concat (map chunk_bytes plan))) s'
      | Inl e \<Rightarrow> gave_up ready s1 s' e)"
      using Cons.IH Cons.prems(2,3) by simp
    then show ?thesis
      using one gave_up_later [of ready s1 s' _ ready s] by (cases r) (simp_all add: Un_assoc Inr)
  qed
qed

text \<open>One step of an upload either reaches its goal or gives up.\<close>

abbreviation goes_well :: "('a \<Rightarrow> 's \<Rightarrow> bool) \<Rightarrow> 's \<Rightarrow> 's \<Rightarrow> ClientError + 'a \<Rightarrow> bool" where
  "goes_well good s s' r \<equiv> sent s \<le> sent s' \<and> (case r of Inr x \<Rightarrow> good x s' | Inl e \<Rightarrow> gave_up ready s s' e)"

lemma goes_well_later: "goes_well good s1 s' r \<Longrightarrow> sent s \<le> sent s1 \<Longrightarrow> goes_well good s s' r"
  using gave_up_later [of ready s1 s' _ ready s] by (cases r) auto

lemma negotiated:
  assumes "ready s" "negotiate env cj inputs s = (s', r)"
  shows "goes_well (\<lambda>limits s'. ready s' \<and> 0 < ul_chunk_size limits \<and> ul_chunk_size limits < 2 ^ 64 \<and> ul_chunk_size limits \<le> limit) s s' r"
proof -
  let ?request = "JsonRequest (request_envelope HelloNegotiate (cv_uuid env s) (up_correlation_id inputs)
      (cj_hello cj \<lparr>hnr_client_version = PROTOCOL_VERSION, hnr_required_features = required_features\<rparr>))"
  obtain s1 r1 where run: "request_payload env (cj_hello_response cj) ?request s = (s1, r1)" by force
  have "s' = s1 \<and> r = and_then r1 (\<lambda>response. and_then (ensure_hello_protocol_compatibility (cv_version_supported env) response)
      (\<lambda>_. parse_upload_limits response))"
    using assms(2) run by (simp add: negotiate_def)
  moreover note request_retried [OF hello [OF _ identifies [OF assms(1)]] assms(1) run]
  ultimately show ?thesis by (cases r1) auto
qed

lemma prepared:
  assumes "ready s" "request_prepare env cj inputs s = (s', r)"
  shows "goes_well (\<lambda>x s'. if dpp_artifact_status x = Complete then stored (dpp_deploy_id x) s'
        else \<exists>ranges held. upload_ranges_for_prepare (dpp_artifact_status x) (dpp_missing_ranges x) (up_artifact_size inputs) = Inr ranges \<and>
          ranges \<noteq> [] \<and> list_all (range_ok (up_artifact_size inputs)) ranges \<and>
          {0 ..< length (up_artifact inputs)} \<subseteq> held \<union> covered ranges \<and>
          uploading (dpp_deploy_id x) (dpp_upload_token x) held s') s s' r"
  using request_retried [OF prepares [OF _ identifies [OF assms(1)]] assms(1)] assms(2) unfolding request_prepare_def by blast

lemma commit_done:
  assumes "stored d s" "request_commit env cj inputs d s = (s', r)"
  shows "goes_well (\<lambda>_. committed d) s s' r"
proof -
  let ?request = "JsonRequest (request_envelope ArtifactCommit (cv_uuid env s) (up_correlation_id inputs)
      (cj_commit cj (commit_request inputs d)))"
  obtain s1 r1 where run: "request_payload env (cj_commit_response cj) ?request s = (s1, r1)" by force
  have "s' = s1 \<and> r = and_then r1 (\<lambda>response. if acp_verified response then Inr () else Inl CommitNotVerifiedError)"
    using assms(2) run by (simp add: request_commit_def)
  moreover note request_retried [OF commits [OF _ identifies [OF stored_ready [OF assms(1)]]] assms(1) run]
  moreover have "gave_up (stored d) s s1 e \<Longrightarrow> gave_up ready s s1 e" for e
    using gave_up_later [of "stored d" s s1 e ready s] stored_ready by simp
  ultimately show ?thesis by (cases r1) auto
qed

lemma covered_bytes: "covered ranges = set (concat (map (\<lambda>r. [rstart r ..< rend r]) ranges))"
  by (auto simp: covered_def)

lemma ranges_uploaded:
  assumes "uploading d t held s" and "ranges \<noteq> []" "list_all (range_ok (up_artifact_size inputs)) ranges"
    and "{0 ..< length (up_artifact inputs)} \<subseteq> held \<union> covered ranges"
    and limits: "0 < ul_chunk_size limits" "ul_chunk_size limits < 2 ^ 64" "ul_chunk_size limits \<le> limit"
  shows "\<exists>s' r. push_artifact_ranges env cj (up_correlation_id inputs) d t (up_artifact inputs) (up_artifact_size inputs)
      ranges limits s = Some (s', r) \<and> goes_well (\<lambda>_. stored d) s s' r"
proof -
  have size: "unat (up_artifact_size inputs) = length (up_artifact inputs)" by (rule size [OF uploading_ready [OF assms(1)]])
  have chunk: "unat (of_nat (ul_chunk_size limits) :: u64) = ul_chunk_size limits" using limits by (simp add: unat_of_nat)
  then have "0 < (of_nat (ul_chunk_size limits) :: u64)" using limits by (simp add: word_less_nat_alt)
  note planned = plan_ranges_ends [OF this, of "up_artifact_size inputs" ranges "[]", unfolded chunk]
  obtain plan where plan: "plan_ranges (up_artifact_size inputs) (of_nat (ul_chunk_size limits)) ranges [] = Some (Inr plan)"
      "list_all (chunk_within (ul_chunk_size limits)) plan"
      "concat (map chunk_bytes plan) = concat (map (\<lambda>r. [rstart r ..< rend r]) ranges)"
  proof -
    obtain r where "plan_ranges (up_artifact_size inputs) (of_nat (ul_chunk_size limits)) ranges [] = Some r" using planned by blast
    then show thesis using planned that assms(3) by (cases r) auto
  qed
  obtain s' r where run: "push_chunks env cj (up_correlation_id inputs) d t (up_artifact inputs) plan s = (s', r)" by force
  have "list_all (chunk_within limit) plan" using plan(2) limits(3) by (auto simp: chunk_within_def list_all_iff)
  moreover have "covered ranges \<subseteq> {0 ..< length (up_artifact inputs)}"
    using assms(3) size by (auto simp: covered_def range_ok_def list_all_iff)
  ultimately have "sent s \<le> sent s' \<and> (case r of Inr _ \<Rightarrow> uploading d t (held \<union> covered ranges) s' | Inl e \<Rightarrow> gave_up ready s s' e)"
    using chunks_pushed [OF assms(1) _ _ run] unfolding plan(3) covered_bytes by simp
  then have "goes_well (\<lambda>_. stored d) s s' r" using all_uploaded [OF _ assms(4)] by (cases r) auto
  then show ?thesis using plan(1) run limits by (simp add: push_artifact_ranges_def build_upload_chunk_plan_def)
qed

lemma uploaded:
  assumes "ready s" and limits: "0 < ul_chunk_size limits" "ul_chunk_size limits < 2 ^ 64" "ul_chunk_size limits \<le> limit"
    and "request_prepare env cj inputs s = (s1, Inr x)"
  shows "\<exists>s' r. upload_and_commit env cj inputs limits x s1 = Some (s', r) \<and>
    goes_well (\<lambda>result. committed (ur_deploy_id result)) s1 s' r"
proof -
  define finish where "finish s = (case request_commit env cj inputs (dpp_deploy_id x) s of
      (s', r) \<Rightarrow> (s', and_then r (\<lambda>_.
        Inr \<lparr>ur_deploy_id = dpp_deploy_id x, ur_deploy_stream_timeout = ul_deploy_stream_timeout limits\<rparr>)))" for s
  have finish: "goes_well (\<lambda>result. committed (ur_deploy_id result)) s2 (fst (finish s2)) (snd (finish s2))"
    if stored: "stored (dpp_deploy_id x) s2" for s2
  proof -
    obtain s' r where run: "request_commit env cj inputs (dpp_deploy_id x) s2 = (s', r)" by force
    show ?thesis using commit_done [OF stored run] run by (cases r) (simp_all add: finish_def)
  qed
  show ?thesis
  proof (cases "dpp_artifact_status x = Complete")
    case True
    then have "stored (dpp_deploy_id x) s1" using prepared [OF assms(1,5)] by simp
    moreover have "upload_and_commit env cj inputs limits x s1 = Some (finish s1)"
      using True by (simp add: Let_def upload_and_commit_def upload_ranges_for_prepare_def finish_def)
    ultimately show ?thesis using finish by (metis prod.collapse)
  next
    case False
    then obtain ranges held where ranges: "upload_ranges_for_prepare (dpp_artifact_status x) (dpp_missing_ranges x) (up_artifact_size inputs) = Inr ranges"
        "ranges \<noteq> []" "list_all (range_ok (up_artifact_size inputs)) ranges"
        "{0 ..< length (up_artifact inputs)} \<subseteq> held \<union> covered ranges" "uploading (dpp_deploy_id x) (dpp_upload_token x) held s1"
      using prepared [OF assms(1,5)] by auto
    obtain s2 r2 where push: "push_artifact_ranges env cj (up_correlation_id inputs) (dpp_deploy_id x) (dpp_upload_token x)
        (up_artifact inputs) (up_artifact_size inputs) ranges limits s1 = Some (s2, r2)"
        "goes_well (\<lambda>_. stored (dpp_deploy_id x)) s1 s2 r2"
      using ranges_uploaded [OF ranges(5,2,3,4) limits] by blast
    show ?thesis
    proof (cases r2)
      case (Inl e)
      then show ?thesis using push ranges by (simp add: Let_def upload_and_commit_def)
    next
      case (Inr u)
      then have "upload_and_commit env cj inputs limits x s1 = Some (finish s2)"
        using push ranges by (simp add: Let_def upload_and_commit_def finish_def)
      moreover have "goes_well (\<lambda>result. committed (ur_deploy_id result)) s1 (fst (finish s2)) (snd (finish s2))"
        using goes_well_later [where good = "\<lambda>result. committed (ur_deploy_id result)" and ?s1.0 = s2 and s = s1
            and s' = "fst (finish s2)" and r = "snd (finish s2)"] finish [of s2] push(2) Inr by auto
      ultimately show ?thesis by (metis prod.collapse)
    qed
  qed
qed

lemma upload_once:
  assumes "ready s"
  shows "\<exists>s' r. run_upload_phase_once env cj inputs s = Some (s', r) \<and>
    goes_well (\<lambda>result. committed (ur_deploy_id result)) s s' r"
proof -
  obtain s1 r1 where n: "negotiate env cj inputs s = (s1, r1)" by force
  note negotiated [OF assms n]
  show ?thesis
  proof (cases r1)
    case (Inl e)
    then show ?thesis using n \<open>goes_well _ s s1 r1\<close> by (simp add: run_upload_phase_once_def connects [OF assms])
  next
    case (Inr limits)
    then have limits: "ready s1" "0 < ul_chunk_size limits" "ul_chunk_size limits < 2 ^ 64" "ul_chunk_size limits \<le> limit" "sent s \<le> sent s1"
      using \<open>goes_well _ s s1 r1\<close> by auto
    obtain s2 r2 where p: "request_prepare env cj inputs s1 = (s2, r2)" by force
    note prepared = prepared [OF limits(1) p]
    show ?thesis
    proof (cases r2)
      case (Inl e)
      then have "gave_up ready s s2 e" "sent s \<le> sent s2"
        using prepared gave_up_later [of ready s1 s2 e ready s] limits(5) by simp_all
      then show ?thesis using n p Inr Inl by (simp add: run_upload_phase_once_def connects [OF assms])
    next
      case (Inr x)
      obtain s' r where "upload_and_commit env cj inputs limits x s2 = Some (s', r)"
          "goes_well (\<lambda>result. committed (ur_deploy_id result)) s2 s' r"
        using uploaded [OF limits(1-4) p [unfolded Inr]] by blast
      then show ?thesis
        using n p Inr \<open>r1 = Inr limits\<close> prepared limits(5) goes_well_later [where good = "\<lambda>result. committed (ur_deploy_id result)" and ?s1.0 = s2 and s = s and s' = s' and r = r]
        by (auto simp: run_upload_phase_once_def connects [OF assms])
    qed
  qed
qed

lemma upload_attempts:
  assumes "ready s" "attempt \<in> {1..4}" "\<not> three_lost (sent s + 3 * (4 - attempt))"
  shows "\<exists>s' result. run_upload_phase_attempts env cj inputs attempt s = Some (s', Inr result) \<and> committed (ur_deploy_id result) s'"
  using assms
proof (induction "4 - attempt" arbitrary: attempt s rule: less_induct)
  case less
  obtain s1 r1 where once: "run_upload_phase_once env cj inputs s = Some (s1, r1)"
      "goes_well (\<lambda>result. committed (ur_deploy_id result)) s s1 r1"
    using upload_once [OF less.prems(1)] by blast
  have run: "run_upload_phase_attempts env cj inputs attempt s =
      (case r1 of Inr r \<Rightarrow> Some (s1, Inr r)
       | Inl err \<Rightarrow> if attempt \<ge> 4 \<or> \<not> should_retry_upload_error err
           then Some (s1, Inl (with_context (''upload phase failed on attempt '' @ decimal attempt @ ''/'' @ decimal 4) err))
           else run_upload_phase_attempts env cj inputs (attempt + 1) s1)"
    using less.prems(2) once(1) by (subst run_upload_phase_attempts.simps) (auto simp: UPLOAD_MAX_ATTEMPTS_def split: sum.split)
  show ?case
  proof (cases r1)
    case (Inr r)
    then show ?thesis using run once(2) by simp
  next
    case (Inl err)
    then have fail: "ready s1" "should_retry_upload_error err" "sent s + 3 \<le> sent s1" "three_lost (sent s)"
      using once(2) by (auto simp: gave_up_def)
    then have "attempt \<noteq> 4" using less.prems(3) by auto
    then have attempt: "4 - (attempt + 1) < 4 - attempt" "attempt + 1 \<in> {1..4}" "\<not> attempt \<ge> 4"
        "3 * (4 - attempt) = 3 + 3 * (4 - (attempt + 1))"
      using less.prems(2) by auto
    have "\<not> three_lost (sent s1 + 3 * (4 - (attempt + 1)))"
      using less.prems(3) three_lost_mono fail(3) attempt(4) by (metis add.assoc add_le_mono1)
    from less.hyps [OF attempt(1) fail(1) attempt(2) this] show ?thesis using run Inl fail(2) attempt(3) by simp
  qed
qed

lemma upload_survives:
  assumes "ready s" "\<not> three_lost (sent s + 9)"
  shows "\<exists>s' result. run_upload_phase_with_resume env cj inputs s = Some (s', Inr result) \<and> committed (ur_deploy_id result) s'"
  using upload_attempts [of s 1] assms by (simp add: run_upload_phase_with_resume_def)

end

section \<open>The canonical form is injective\<close>

lemma split_at_separator:
  "c \<notin> set x \<Longrightarrow> c \<notin> set x' \<Longrightarrow> x @ c # y = x' @ c # y' \<longleftrightarrow> x = x' \<and> y = y'"
proof (induction x arbitrary: x')
  case Nil
  then show ?case by (cases x') auto
next
  case (Cons a x)
  then show ?case by (cases x') auto
qed

lemma no_nul_in_decimal: "CHR 0x00 \<notin> set (decimal n)"
  using decimal_digits [of "CHR 0x00" n] by auto

lemma canonical_field_inj:
  "update_canonical_field k v @ r = update_canonical_field k v' @ r' \<longleftrightarrow> v = v' \<and> r = r'"
proof
  assume "update_canonical_field k v @ r = update_canonical_field k v' @ r'"
  then have "decimal (length v) @ CHR 0x00 # v @ CHR 0x00 # r = decimal (length v') @ CHR 0x00 # v' @ CHR 0x00 # r'"
    by (simp add: update_canonical_field_def)
  then have "decimal (length v) = decimal (length v')" "v @ CHR 0x00 # r = v' @ CHR 0x00 # r'"
    by (simp_all add: split_at_separator no_nul_in_decimal)
  then have "length v = length v'" "v @ CHR 0x00 # r = v' @ CHR 0x00 # r'" by (metis parse_decimal_decimal)+
  then show "v = v' \<and> r = r'" by simp
qed simp

definition canonical_keys :: "(string, string) btree \<Rightarrow> bool" where
  "canonical_keys m \<longleftrightarrow> list_all (\<lambda>(k, v). k \<noteq> [] \<and> CHR 0x00 \<notin> set k) m"

lemma canonical_entries_inj:
  assumes "canonical_keys m" "canonical_keys m'"
    and "concat (map (\<lambda>(k, v). update_canonical_field k v) m) @ CHR 0x00 # r =
      concat (map (\<lambda>(k, v). update_canonical_field k v) m') @ CHR 0x00 # r'"
  shows "m = m' \<and> r = r'"
  using assms
proof (induction m arbitrary: m')
  case Nil
  then show ?case by (cases m') (auto simp: canonical_keys_def update_canonical_field_def append_eq_Cons_conv Cons_eq_append_conv)
next
  case (Cons e m)
  obtain k v where e: "e = (k, v)" by force
  have k: "k \<noteq> []" "CHR 0x00 \<notin> set k" using Cons.prems(1) e by (auto simp: canonical_keys_def)
  show ?case
  proof (cases m')
    case Nil
    then show ?thesis using Cons.prems(3) k e by (cases k) (auto simp: update_canonical_field_def)
  next
    case (Cons e' n')
    obtain k' v' where e': "e' = (k', v')" by force
    have k': "CHR 0x00 \<notin> set k'" using Cons.prems(2) Cons e' by (auto simp: canonical_keys_def)
    have eq: "update_canonical_field k v @ concat (map (\<lambda>(k, v). update_canonical_field k v) m) @ CHR 0x00 # r =
        update_canonical_field k' v' @ concat (map (\<lambda>(k, v). update_canonical_field k v) n') @ CHR 0x00 # r'"
      using Cons.prems(3) Cons e e' by simp
    then have "k = k'" using k(2) k' by (simp add: update_canonical_field_def split_at_separator)
    then have "v = v'" "concat (map (\<lambda>(k, v). update_canonical_field k v) m) @ CHR 0x00 # r =
        concat (map (\<lambda>(k, v). update_canonical_field k v) n') @ CHR 0x00 # r'"
      using eq by (simp_all add: canonical_field_inj)
    then show ?thesis using Cons.IH [of n'] Cons.prems(1,2) Cons e e' \<open>k = k'\<close> by (simp add: canonical_keys_def)
  qed
qed

section \<open>Properties\<close>

text \<open>
  C11: the plan of chunks always ends and covers the missing ranges exactly. It is refused only for
  chunks of no bytes or for ranges that are empty or outside the artifact; otherwise its chunks are
  not empty, respect the chunk size, and their bytes in order are the bytes of the ranges in order.
\<close>

theorem upload_plan_exact:
  assumes "chunk_size < 2 ^ 64"
  shows "\<exists>r. build_upload_chunk_plan ranges artifact_size chunk_size = Some r \<and>
    (case r of
       Inl e \<Rightarrow> chunk_size = 0 \<or> \<not> list_all (range_ok artifact_size) ranges
     | Inr plan \<Rightarrow> list_all (range_ok artifact_size) ranges \<and> list_all (chunk_within chunk_size) plan \<and>
         concat (map chunk_bytes plan) = concat (map (\<lambda>r. [rstart r ..< rend r]) ranges))"
proof (cases "chunk_size = 0")
  case True
  then show ?thesis by (simp add: build_upload_chunk_plan_def)
next
  case False
  have chunk: "unat (of_nat chunk_size :: u64) = chunk_size" using assms by (simp add: unat_of_nat)
  then have "0 < (of_nat chunk_size :: u64)" using False by (simp add: word_less_nat_alt)
  from plan_ranges_ends [OF this, of artifact_size ranges "[]"] show ?thesis
    using False by (simp add: build_upload_chunk_plan_def chunk cong: sum.case_cong)
qed

text \<open>
  C12: two uploads have the same canonical form only if they agree in the name, the type, the digests,
  the size, the target and the policy, so their idempotency keys differ unless SHA-256 collides. The
  keys of the maps must be texts without a NUL, as the only key the client sends is.
\<close>

theorem canonical_upload_injective:
  assumes "canonical_keys target" "canonical_keys target'" "canonical_keys policy" "canonical_keys policy'"
    and "canonical_upload name app_type target policy digest size' manifest =
      canonical_upload name' app_type' target' policy' digest' size'' manifest'"
  shows "name = name' \<and> app_type = app_type' \<and> target = target' \<and> policy = policy' \<and> digest = digest' \<and>
    size' = size'' \<and> manifest = manifest'"
proof -
  have "name = name' \<and> app_type = app_type' \<and> digest = digest' \<and> decimal (unat size') = decimal (unat size'') \<and>
      manifest = manifest' \<and> update_canonical_map ''target'' target @ update_canonical_map ''policy'' policy =
      update_canonical_map ''target'' target' @ update_canonical_map ''policy'' policy'"
    using assms(5) by (simp add: canonical_upload_def canonical_field_inj)
  moreover from this have "target = target'" "update_canonical_map ''policy'' policy = update_canonical_map ''policy'' policy'"
    using canonical_entries_inj [OF assms(1,2), of "update_canonical_map ''policy'' policy" "update_canonical_map ''policy'' policy'"]
    by (simp_all add: update_canonical_map_def)
  moreover from this(2) have "policy = policy'"
    using canonical_entries_inj [OF assms(3,4), of "[]" "[]"] by (simp add: update_canonical_map_def)
  moreover have "size' = size''" using calculation(1) by (simp add: word_unat_eq_iff)
  ultimately show ?thesis by simp
qed

theorem upload_plan_exact_witness:
  "\<exists>r. build_upload_chunk_plan [\<lparr>br_offset = 2, br_length = 5\<rparr>] 10 2 = Some r \<and> (\<exists>plan. r = Inr plan \<and>
     concat (map chunk_bytes plan) = [2, 3, 4, 5, 6])"
proof -
  have "(2 :: nat) < 2 ^ 64" by simp
  from upload_plan_exact [OF this, of "[\<lparr>br_offset = 2, br_length = 5\<rparr>]" 10]
  obtain r where "build_upload_chunk_plan [\<lparr>br_offset = 2, br_length = 5\<rparr>] 10 2 = Some r" and r: "case r of
       Inl e \<Rightarrow> (2 :: nat) = 0 \<or> \<not> list_all (range_ok 10) [\<lparr>br_offset = 2, br_length = 5\<rparr>]
     | Inr plan \<Rightarrow> list_all (range_ok 10) [\<lparr>br_offset = 2, br_length = 5\<rparr>] \<and> list_all (chunk_within 2) plan \<and>
         concat (map chunk_bytes plan) = concat (map (\<lambda>r. [rstart r ..< rend r]) [\<lparr>br_offset = 2, br_length = 5\<rparr>])"
    by blast
  then show ?thesis by (cases r) (simp_all add: range_ok_def rstart_def rend_def upt_rec)
qed

theorem canonical_upload_injective_witness:
  "canonical_upload ''a'' ''bc'' [(''remote'', ''r'')] [] ''d'' 1 ''m'' \<noteq> canonical_upload ''ab'' ''c'' [(''remote'', ''r'')] [] ''d'' 1 ''m''"
  using canonical_upload_injective [of "[(''remote'', ''r'')]" "[(''remote'', ''r'')]" "[]" "[]" "''a''" "''bc''" "''d''" 1 "''m''" "''ab''" "''c''" "''d''" 1 "''m''"]
  by (auto simp: canonical_keys_def)

end
