(* ===== verification/Artifact_Progress.thy ===== *)
theory Artifact_Progress
  imports Artifact_Store
begin

text \<open>
  One upload followed through the operations of the artifact store: while the clock stays within the
  lifetime of a session and the store has room for one more artifact, \<open>prepare\<close>, \<open>push\<close> and
  \<open>commit\<close> succeed, whatever else the store holds, and the file of the session has the bytes of the
  artifact wherever a chunk was recorded.
\<close>

section \<open>The upload and its session\<close>

text \<open>What is uploaded, where, and between which readings of the clock.\<close>

record Upload =
  pu_store :: ArtifactStore
  pu_sha :: "bytes \<Rightarrow> string"
  pu_request :: DeployPrepareRequest
  pu_artifact :: bytes
  pu_since :: u64
  pu_until :: u64

definition upload_ok :: "Upload \<Rightarrow> bool" where
  "upload_ok P \<longleftrightarrow>
     length (pu_artifact P) = unat (dpr_artifact_size (pu_request P)) \<and> 0 < dpr_artifact_size (pu_request P) \<and>
     dpr_artifact_size (pu_request P) \<le> as_max_artifact_size_bytes (pu_store P) \<and>
     dpr_artifact_digest (pu_request P) = pu_sha P (pu_artifact P) \<and>
     unat (pu_until P) - unat (pu_since P) < unat (as_upload_session_ttl_secs (pu_store P)) \<and>
     unat (pu_until P) - unat (pu_since P) < unat (as_committed_session_ttl_secs (pu_store P)) \<and>
     0 < as_max_inflight_chunks (pu_store P)"

definition in_window :: "Upload \<Rightarrow> u64 \<Rightarrow> bool" where
  "in_window P now \<longleftrightarrow> pu_since P \<le> now \<and> now \<le> pu_until P"

definition foreign_committed :: "Upload \<Rightarrow> StoreState \<Rightarrow> (string \<times> UploadSession) list" where
  "foreign_committed P st =
     filter (\<lambda>(d, s). us_committed s \<and> us_idempotency_key s \<noteq> dpr_idempotency_key (pu_request P)) (ss_sessions st)"

text \<open>A store with its files under their sessions' names and room for the upload.\<close>

definition store_fit :: "Upload \<Rightarrow> StoreState \<Rightarrow> bool" where
  "store_fit P st \<longleftrightarrow> store_wf st \<and>
     (\<forall>d s. live st d = Some s \<longrightarrow> us_file_path s = session_file_path (pu_store P) d) \<and>
     length (foreign_committed P st) < as_max_committed_sessions (pu_store P)"

definition session_fit :: "Upload \<Rightarrow> string \<Rightarrow> string \<Rightarrow> bool \<Rightarrow> UploadSession \<Rightarrow> bool" where
  "session_fit P d t c s \<longleftrightarrow>
     us_deploy_id s = d \<and> us_file_path s = session_file_path (pu_store P) d \<and>
     us_idempotency_key s = dpr_idempotency_key (pu_request P) \<and> us_fingerprint s = fingerprint (pu_sha P) (pu_request P) \<and>
     us_artifact_digest s = dpr_artifact_digest (pu_request P) \<and> us_artifact_size s = dpr_artifact_size (pu_request P) \<and>
     us_manifest_digest s = dpr_manifest_digest (pu_request P) \<and> us_upload_token s = t \<and> us_committed s = c \<and>
     us_inflight_writes s = 0 \<and> \<not> us_commit_in_progress s \<and> pu_since P \<le> us_updated_at s \<and>
     good_progress (dpr_artifact_size (pu_request P)) (us_received_ranges s) \<and>
     (c \<longrightarrow> covered (us_received_ranges s) = {0 ..< length (pu_artifact P)}) \<and>
     \<not> trim_is_empty d \<and> \<not> trim_is_empty t"

definition file_fit :: "Upload \<Rightarrow> UploadSession \<Rightarrow> bytes \<Rightarrow> bool" where
  "file_fit P s content \<longleftrightarrow> length content = length (pu_artifact P) \<and>
     (\<forall>i \<in> covered (us_received_ranges s). content ! i = pu_artifact P ! i)"

text \<open>The session \<open>d\<close> with token \<open>t\<close> holds at least the bytes \<open>held\<close>; \<open>c\<close> says whether it is committed.\<close>

definition session_holds :: "Upload \<Rightarrow> string \<Rightarrow> string \<Rightarrow> nat set \<Rightarrow> bool \<Rightarrow> World \<Rightarrow> bool" where
  "session_holds P d t held c w \<longleftrightarrow> store_fit P (w_state w) \<and>
     (\<exists>s content. live (w_state w) d = Some s \<and> session_fit P d t c s \<and>
        w_files w (session_file_path (pu_store P) d) = Some content \<and> file_fit P s content \<and>
        held \<subseteq> covered (us_received_ranges s))"

lemma young:
  assumes "upload_ok P" "in_window P now" "pu_since P \<le> t"
  shows "\<not> as_upload_session_ttl_secs (pu_store P) \<le> saturating_sub now t"
    and "\<not> as_committed_session_ttl_secs (pu_store P) \<le> saturating_sub now t"
proof -
  have "unat now - unat t \<le> unat (pu_until P) - unat (pu_since P)"
    using assms(2,3) unfolding in_window_def word_le_nat_alt by linarith
  then show "\<not> as_upload_session_ttl_secs (pu_store P) \<le> saturating_sub now t"
    and "\<not> as_committed_session_ttl_secs (pu_store P) \<le> saturating_sub now t"
    using assms(1) by (simp_all add: upload_ok_def word_le_nat_alt unat_saturating_sub)
qed

lemma session_file_path_inj: "session_file_path store d = session_file_path store d' \<longleftrightarrow> d = d'"
  by (simp add: session_file_path_def)

section \<open>Cleanup spares the upload\<close>

lemma length_filter_disjoint:
  assumes "\<And>x. x \<in> set xs \<Longrightarrow> P x \<Longrightarrow> R x \<and> \<not> Q x" "\<And>x. x \<in> set xs \<Longrightarrow> Q x \<Longrightarrow> R x"
  shows "length (filter P xs) + length (filter Q xs) \<le> length (filter R xs)"
  using assms by (induction xs) auto

lemma one_session_with_key:
  assumes "store_wf st"
  shows "length (filter (\<lambda>(d, s). us_committed s \<and> us_idempotency_key s = k) (ss_sessions st)) \<le> 1"
proof -
  have wf: "bt_wf (ss_sessions st)" using assms by (simp add: store_wf_def)
  let ?xs = "filter (\<lambda>(d, s). us_committed s \<and> us_idempotency_key s = k) (ss_sessions st)"
  have index: "bt_get (ss_idempotency st) k = Some (fst x)" if "x \<in> set ?xs" for x
  proof -
    have "live st (fst x) = Some (snd x)" "us_idempotency_key (snd x) = k" using that bt_get_iff [OF wf] by auto
    then show ?thesis using assms by (auto simp: store_wf_def)
  qed
  have "distinct (map fst ?xs)" by (rule distinct_map_filter [OF bt_wf_distinct [OF wf]])
  then show ?thesis
  proof (cases ?xs)
    case (Cons x xs)
    then show ?thesis
    proof (cases xs)
      case (Cons y ys)
      then have "fst x = fst y" using index [of x] index [of y] \<open>?xs = x # xs\<close> by simp
      then show ?thesis using \<open>distinct (map fst ?xs)\<close> \<open>?xs = x # xs\<close> Cons by simp
    qed simp
  qed simp
qed

lemma committed_fits:
  assumes "store_fit P st"
  shows "length (filter (\<lambda>(d, s). us_committed s) (ss_sessions st)) \<le> as_max_committed_sessions (pu_store P)"
proof -
  let ?k = "dpr_idempotency_key (pu_request P)"
  have "length (filter (\<lambda>(d, s). us_committed s) xs) =
      length (filter (\<lambda>(d, s). us_committed s \<and> us_idempotency_key s = ?k) xs) +
      length (filter (\<lambda>(d, s). us_committed s \<and> us_idempotency_key s \<noteq> ?k) xs)" for xs :: "(string \<times> UploadSession) list"
    by (induction xs) auto
  then show ?thesis
    using assms one_session_with_key [of st ?k] by (simp add: store_fit_def foreign_committed_def)
qed

lemma removal_fits:
  assumes "store_fit P st" "collect_sessions_for_removal_locked st ids = (st', plan)"
  shows "store_fit P st'"
proof -
  have sessions: "ss_sessions st' = filter (\<lambda>(d, _). d \<notin> set ids) (ss_sessions st)"
    using removal_sessions [of st ids] assms(2) by simp
  have "foreign_committed P st' = filter (\<lambda>(d, _). d \<notin> set ids) (foreign_committed P st)"
    unfolding foreign_committed_def sessions filter_filter by (rule filter_cong) auto
  then have "length (foreign_committed P st') \<le> length (foreign_committed P st)" by (simp only: length_filter_le)
  moreover have "live st' d = Some s \<Longrightarrow> live st d = Some s" for d s
    using removal_shrinks [OF assms(2)] by (simp add: shrinks_def)
  ultimately show ?thesis using assms removal_wf [of st ids] by (auto simp: store_fit_def)
qed

lemma survivors_fit:
  assumes "store_fit P st"
  shows "overflow_ids (orphan_survivors st prot ids) (as_max_committed_sessions (pu_store P) - protected_committed_count st prot) = []"
proof -
  have "length (filter (\<lambda>(d, s). \<not> (\<not> us_committed s \<or> busy_session s) \<and> d \<notin> prot \<and> d \<notin> set ids) (ss_sessions st)) +
      length (filter (\<lambda>(d, s). us_committed s \<and> d \<in> prot) (ss_sessions st)) \<le>
      length (filter (\<lambda>(d, s). us_committed s) (ss_sessions st))"
    by (rule length_filter_disjoint) auto
  then have "length (orphan_survivors st prot ids) \<le> as_max_committed_sessions (pu_store P) - protected_committed_count st prot"
    using committed_fits [OF assms] unfolding orphan_survivors_def protected_committed_count_def length_map by linarith
  then show ?thesis by (simp add: overflow_ids_def)
qed

lemma cleanup_spares:
  assumes P: "upload_ok P" "in_window P now" "store_fit P st"
    and cl: "collect_session_cleanup_locked (pu_store P) pinned st now keep = (st', plan)"
    and s: "live st d = Some s" "pu_since P \<le> us_updated_at s"
  shows "live st' d = Some s" and "session_file_path (pu_store P) d \<notin> set plan"
proof -
  have wf: "store_wf st" using P(3) by (simp add: store_fit_def)
  have "live st' d \<noteq> None"
    using cl wf
  proof (rule cleanup_cases)
    fix st1 p1 st2 p2
    assume 1: "collect_expired_sessions st now (as_upload_session_ttl_secs (pu_store P)) = (st1, p1)"
      and 2: "collect_orphan_committed_sessions st1 now (as_committed_session_ttl_secs (pu_store P))
        (as_max_committed_sessions (pu_store P)) (protected_deploy_ids pinned keep) = (st2, p2)"
      and st': "st' = cleanup_orphan_idempotency st2" and wf1: "store_wf st1"
    have s1: "live st1 d = Some s"
      using expired_evicts [OF 1 _ s(1)] young(1) [OF P(1,2) s(2)] wf removal_shrinks [OF 1 [unfolded collect_expired_sessions_def]] s(1)
      by (cases "live st1 d") (simp_all add: store_wf_def shrinks_def)
    have fit1: "store_fit P st1" by (rule removal_fits [OF P(3) 1 [unfolded collect_expired_sessions_def]])
    have "d \<notin> set (orphan_remove_ids st1 now (as_committed_session_ttl_secs (pu_store P)) (protected_deploy_ids pinned keep))"
    proof
      assume "d \<in> set (orphan_remove_ids st1 now (as_committed_session_ttl_secs (pu_store P)) (protected_deploy_ids pinned keep))"
      then obtain s' where "(d, s') \<in> set (ss_sessions st1)" "as_committed_session_ttl_secs (pu_store P) \<le> saturating_sub now (us_updated_at s')"
        by (auto simp: orphan_remove_ids_def)
      moreover have "s' = s" using session_unique [OF _ s1 calculation(1)] wf1 by (simp add: store_wf_def)
      ultimately show False using young(2) [OF P(1,2) s(2)] by simp
    qed
    then have "live st2 d = Some s"
      using removed_was_listed [OF 2 [unfolded collect_orphan_committed_sessions_def Let_def survivors_fit [OF fit1]] s1] s1
        removal_shrinks [OF 2 [unfolded collect_orphan_committed_sessions_def Let_def]]
      by (cases "live st2 d") (simp_all add: shrinks_def)
    then show ?thesis using st' by simp
  qed
  moreover note sh = cleanup_spec(2) [OF cl wf]
  ultimately show live: "live st' d = Some s" using s(1) by (auto simp: shrinks_def)
  show "session_file_path (pu_store P) d \<notin> set plan"
  proof
    assume "session_file_path (pu_store P) d \<in> set plan"
    then obtain d' s' where d': "live st d' = Some s'" "live st' d' = None" "session_file_path (pu_store P) d = us_file_path s'"
      using sh by (auto simp: shrinks_def)
    then have "d' = d" using P(3) by (simp add: store_fit_def session_file_path_inj)
    then show False using d' live by simp
  qed
qed

lemma cleanup_fits:
  assumes "store_fit P st" "collect_session_cleanup_locked (pu_store P) pinned st now keep = (st', plan)"
  shows "store_fit P st'"
proof -
  have "store_wf st" using assms(1) by (simp add: store_fit_def)
  from assms(2) this show ?thesis
  proof (rule cleanup_cases)
    fix st1 p1 st2 p2
    assume 1: "collect_expired_sessions st now (as_upload_session_ttl_secs (pu_store P)) = (st1, p1)"
      and 2: "collect_orphan_committed_sessions st1 now (as_committed_session_ttl_secs (pu_store P))
        (as_max_committed_sessions (pu_store P)) (protected_deploy_ids pinned keep) = (st2, p2)"
      and st': "st' = cleanup_orphan_idempotency st2"
    have "store_fit P st2"
      by (rule removal_fits [OF removal_fits [OF assms(1) 1 [unfolded collect_expired_sessions_def]]
            2 [unfolded collect_orphan_committed_sessions_def Let_def]])
    then show ?thesis
      using cleanup_spec(1) [OF assms(2) \<open>store_wf st\<close>] by (simp add: st' store_fit_def foreign_committed_def)
  qed
qed

lemma cleanup_files: "p \<notin> set plan \<Longrightarrow> apply_cleanup_plan fails plan files p = files p"
  by (induction plan arbitrary: files) (auto simp: apply_cleanup_plan_def)

section \<open>Changes to the session\<close>

lemma store_fit_update:
  assumes "store_fit P st" "live st d = Some s" "us_idempotency_key s = dpr_idempotency_key (pu_request P)"
    and "same_upload s (f s)" "us_file_path (f s) = us_file_path s"
  shows "store_fit P (update_session d f st)"
proof -
  have wf: "bt_wf (ss_sessions st)" using assms(1) by (simp add: store_fit_def store_wf_def)
  have "length (filter (\<lambda>(d, s). us_committed s \<and> us_idempotency_key s \<noteq> dpr_idempotency_key (pu_request P)) (bt_update d f xs)) =
      length (filter (\<lambda>(d, s). us_committed s \<and> us_idempotency_key s \<noteq> dpr_idempotency_key (pu_request P)) xs)"
    if "set xs \<subseteq> set (ss_sessions st)" for xs
    using that
  proof (induction xs)
    case (Cons x xs)
    have "snd x = s" if "fst x = d" using Cons.prems that session_unique [OF wf assms(2), of "snd x"] by (cases x) auto
    then show ?case using Cons assms(3,4) by (cases x) (auto simp: bt_update_def same_upload_def)
  qed (simp add: bt_update_def)
  then have "length (foreign_committed P (update_session d f st)) = length (foreign_committed P st)"
    by (simp add: foreign_committed_def update_session_def)
  then show ?thesis
    using assms store_wf_update_session [of st d s f] by (auto simp: store_fit_def live_update_session split: if_splits)
qed

lemma overwrite_nth:
  assumes "off + length chunk \<le> length content"
  shows "length (overwrite off chunk content) = length content"
    and "i < length content \<Longrightarrow> overwrite off chunk content ! i =
      (if i \<in> {off ..< off + length chunk} then chunk ! (i - off) else content ! i)"
  using assms by (auto simp: overwrite_def nth_append min_def)

text \<open>A chunk of the artifact is taken and recorded.\<close>

lemma push_holds:
  assumes P: "upload_ok P" "in_window P now" and held: "session_holds P d t held False w"
    and chunk: "0 < length chunk" "length chunk \<le> as_max_chunk_size (pu_store P)"
      "unat off + length chunk \<le> length (pu_artifact P)" "chunk = take (length chunk) (drop (unat off) (pu_artifact P))"
    and request: "request = \<lparr>apr_header = \<lparr>aph_deploy_id = d, aph_offset = off, aph_length = of_nat (length chunk),
      aph_chunk_sha256 = pu_sha P chunk, aph_upload_token = t\<rparr>, apr_chunk = chunk\<rparr>"
  shows "\<exists>w' ack. push (pu_store P) (pu_sha P) fails IoOk now request w = (w', Inr ack) \<and>
    session_holds P d t (held \<union> {unat off ..< unat off + length chunk}) False w'"
proof -
  let ?path = "session_file_path (pu_store P) d"
  obtain s content where s: "live (w_state w) d = Some s" "session_fit P d t False s" "w_files w ?path = Some content"
      "file_fit P s content" "held \<subseteq> covered (us_received_ranges s)" and fit: "store_fit P (w_state w)"
    using held by (auto simp: session_holds_def)
  have size: "length (pu_artifact P) = unat (us_artifact_size s)" and since: "pu_since P \<le> us_updated_at s"
    using P(1) s(2) by (auto simp: upload_ok_def session_fit_def)
  have len: "unat (of_nat (length chunk) :: u64) = length chunk"
    using chunk(3) size unat_lt_u64 [of "us_artifact_size s"] by (simp add: unat_of_nat)
  define chunk_end where "chunk_end = of_nat (length chunk) + off"
  have chunk_end: "unat chunk_end = unat off + length chunk"
    using chunk(3) size unat_lt_u64 [of "us_artifact_size s"] len by (simp add: chunk_end_def unat_word_ariths)
  have check: "push_check (pu_store P) (pu_sha P) request = Inr chunk_end"
  proof -
    have "(of_nat (length chunk) :: u64) \<le> u64_of_usize (as_max_chunk_size (pu_store P))"
    proof (cases "as_max_chunk_size (pu_store P) < 2 ^ 64")
      case True
      then show ?thesis using chunk(2) len by (simp add: u64_of_usize_def word_le_nat_alt unat_of_nat)
    qed (simp add: u64_of_usize_def)
    then have "\<not> u64_of_usize (as_max_chunk_size (pu_store P)) < of_nat (length chunk)" by (simp add: not_less)
    then show ?thesis
      using chunk(3) size unat_lt_u64 [of "us_artifact_size s"] len
      by (simp add: push_check_def request checked_add_def chunk_end_def Let_def)
  qed
  obtain st1 plan where cl: "collect_session_cleanup_locked (pu_store P) (w_pinned w) (w_state w) now None = (st1, plan)" by force
  note keep = cleanup_spares [OF P fit cl s(1) since]
  note fit1 = cleanup_fits [OF fit cl]
  let ?taken = "\<lambda>s. s\<lparr>us_inflight_writes := us_inflight_writes s + 1, us_updated_at := now\<rparr>"
  define s2 where "s2 = s\<lparr>us_inflight_writes := 0, us_received_ranges := merge_range (us_received_ranges s) (range_from_start_end off chunk_end),
      us_updated_at := now\<rparr>"
  define st2 where "st2 = update_session d (\<lambda>_. s2) (update_session d ?taken st1)"
  have admit: "push_admit (pu_store P) (w_pinned w) now (apr_header request) chunk_end (w_state w) =
      (update_session d ?taken st1, plan, Inr ?path)"
    using cl keep(1) s(2) P(1) chunk(3) size chunk_end
    by (simp add: push_admit_def request session_fit_def upload_ok_def word_less_nat_alt)
  have record': "\<exists>ack. push_record now (apr_header request) chunk_end (Inr ()) (update_session d ?taken st1) = (st2, Inr ack)"
    using keep(1) s(2) by (simp add: push_record_def request live_update_session Let_def st2_def s2_def session_fit_def)
  let ?w' = "w\<lparr>w_state := st2, w_files := apply_cleanup_plan fails plan ((w_files w)(?path \<mapsto> overwrite (unat off) chunk content))\<rparr>"
  have run: "\<exists>ack. push (pu_store P) (pu_sha P) fails IoOk now request w = (?w', Inr ack)"
  proof -
    obtain ack where "push_record now (apr_header request) chunk_end (Inr ()) (update_session d ?taken st1) = (st2, Inr ack)"
      using record' by blast
    then show ?thesis using check admit s(3) by (simp add: push_def write_chunk_to_file_def request)
  qed
  have rng: "rstart (range_from_start_end off chunk_end) = unat off"
      "rend (range_from_start_end off chunk_end) = unat off + length chunk"
    using chunk_end by (simp_all add: rstart_def rend_def range_from_start_end_def unat_saturating_sub)
  have merged: "good_progress (us_artifact_size s) (us_received_ranges s2)"
      "covered (us_received_ranges s2) = {unat off ..< unat off + length chunk} \<union> covered (us_received_ranges s)"
    using merge_range_correct [of "us_artifact_size s" "us_received_ranges s" "range_from_start_end off chunk_end"] s(2) rng chunk size
    by (auto simp: s2_def session_fit_def positive_iff)
  have "store_fit P st2"
    unfolding st2_def
    by (rule store_fit_update [OF store_fit_update [OF fit1 keep(1)]])
      (use s(2) keep(1) in \<open>auto simp: live_update_session session_fit_def same_upload_def s2_def\<close>)
  moreover have "live st2 d = Some s2" using keep(1) by (simp add: st2_def live_update_session)
  moreover have "session_fit P d t False s2"
    using s(2) merged(1) P(2) by (simp add: session_fit_def s2_def in_window_def)
  moreover have "w_files ?w' ?path = Some (overwrite (unat off) chunk content)" using keep(2) by (simp add: cleanup_files)
  moreover have "file_fit P s2 (overwrite (unat off) chunk content)"
  proof -
    have content: "length content = length (pu_artifact P)" using s(4) by (simp add: file_fit_def)
    have "covered (us_received_ranges s2) \<subseteq> {0 ..< length content}"
      using merged(1) size content by (auto simp: good_progress_def within_def covered_def list_all_iff)
    moreover have "chunk ! j = pu_artifact P ! (unat off + j)" if "j < length chunk" for j
      by (subst chunk(4)) (use that chunk(3) in simp)
    then have "chunk ! (i - unat off) = pu_artifact P ! i" if "i \<in> {unat off ..< unat off + length chunk}" for i
      using that by (metis add_diff_inverse_nat add_less_cancel_left atLeastLessThan_iff linorder_not_less)
    ultimately show ?thesis
      using overwrite_nth [of "unat off" chunk content] chunk(3) content s(4) merged(2) by (auto simp: file_fit_def subset_iff)
  qed
  moreover have "held \<union> {unat off ..< unat off + length chunk} \<subseteq> covered (us_received_ranges s2)" using s(5) merged(2) by blast
  ultimately have "session_holds P d t (held \<union> {unat off ..< unat off + length chunk}) False ?w'"
    unfolding session_holds_def by (intro conjI exI [of _ s2] exI [of _ "overwrite (unat off) chunk content"]) simp_all
  then show ?thesis using run by blast
qed

text \<open>A complete session is committed, or found committed, with the contents of the artifact.\<close>

lemma commit_holds:
  assumes P: "upload_ok P" "in_window P now" and held: "session_holds P d t {0 ..< length (pu_artifact P)} c w"
    and request: "request = \<lparr>acr_deploy_id = d, acr_artifact_digest = dpr_artifact_digest (pu_request P),
      acr_artifact_size = dpr_artifact_size (pu_request P), acr_manifest_digest = dpr_manifest_digest (pu_request P)\<rparr>"
  shows "\<exists>w' response. commit (pu_store P) (pu_sha P) fails IoOk now request w = (w', Inr response) \<and> acp_verified response \<and>
    session_holds P d t {0 ..< length (pu_artifact P)} True w'"
proof -
  let ?path = "session_file_path (pu_store P) d"
  obtain s content where s: "live (w_state w) d = Some s" "session_fit P d t c s" "w_files w ?path = Some content"
      "file_fit P s content" "{0 ..< length (pu_artifact P)} \<subseteq> covered (us_received_ranges s)" and fit: "store_fit P (w_state w)"
    using held by (auto simp: session_holds_def)
  have size: "length (pu_artifact P) = unat (us_artifact_size s)" "0 < unat (us_artifact_size s)" and since: "pu_since P \<le> us_updated_at s"
    using P(1) s(2) by (auto simp: upload_ok_def session_fit_def word_less_nat_alt)
  have cov: "covered (us_received_ranges s) = {0 ..< unat (us_artifact_size s)}"
    using s(2,5) size by (auto simp: session_fit_def good_progress_def within_def covered_def list_all_iff)
  then have complete: "is_complete (us_received_ranges s) (us_artifact_size s)"
    using is_complete_iff [of "us_artifact_size s" "us_received_ranges s"] s(2) size by (simp add: session_fit_def)
  have content: "content = pu_artifact P"
    using s(4) cov size by (auto simp: file_fit_def intro: nth_equalityI)
  obtain st1 plan where cl: "collect_session_cleanup_locked (pu_store P) (w_pinned w) (w_state w) now None = (st1, plan)" by force
  note keep = cleanup_spares [OF P fit cl s(1) since]
  let ?begun = "\<lambda>s. s\<lparr>us_commit_in_progress := True, us_updated_at := now\<rparr>"
  define s2 where "s2 = s\<lparr>us_commit_in_progress := False, us_updated_at := now, us_committed := True\<rparr>"
  define st2 where "st2 = update_session d (\<lambda>_. s2) (update_session d ?begun st1)"
  have admit: "commit_admit (pu_store P) (w_pinned w) now request (w_state w) =
      (update_session d ?begun st1, plan, Inr (?path, dpr_artifact_digest (pu_request P)))"
    using cl keep(1) s(2) complete by (simp add: commit_admit_def request session_fit_def)
  have digest: "digest_file (pu_sha P) IoOk ?path (w_files w) = Inr (dpr_artifact_digest (pu_request P))"
    using s(3) content P(1) by (simp add: digest_file_def concat_read_buffers upload_ok_def)
  have fit2: "store_fit P st2"
    unfolding st2_def
    by (rule store_fit_update [OF store_fit_update [OF cleanup_fits [OF fit cl] keep(1)]])
      (use s(2) keep(1) in \<open>auto simp: live_update_session session_fit_def same_upload_def s2_def\<close>)
  have live2: "live st2 d = Some s2" using keep(1) by (simp add: st2_def live_update_session)
  obtain st3 plan2 where cl2: "collect_session_cleanup_locked (pu_store P) (w_pinned w) st2 now (Some d) = (st3, plan2)" by force
  have "pu_since P \<le> us_updated_at s2" using P(2) by (simp add: s2_def in_window_def)
  note keep2 = cleanup_spares [OF P fit2 cl2 live2 this]
  have finish: "commit_finish (pu_store P) (w_pinned w) now request (dpr_artifact_digest (pu_request P))
      (Inr (dpr_artifact_digest (pu_request P))) (update_session d ?begun st1) =
      (st3, plan2, Inr \<lparr>acp_artifact_id = us_artifact_digest s, acp_verified = True\<rparr>)"
    using keep(1) cl2 s(2) by (simp add: commit_finish_def request live_update_session Let_def st2_def s2_def session_fit_def)
  let ?w' = "w\<lparr>w_state := st3, w_files := apply_cleanup_plan fails (plan @ plan2) (w_files w)\<rparr>"
  have "commit (pu_store P) (pu_sha P) fails IoOk now request w = (?w', Inr \<lparr>acp_artifact_id = us_artifact_digest s, acp_verified = True\<rparr>)"
    using admit digest finish by (simp add: commit_def)
  moreover have "session_fit P d t True s2"
    using s(2) cov size P(2) by (simp add: session_fit_def s2_def in_window_def)
  moreover have "w_files ?w' ?path = Some content" using keep(2) keep2(2) s(3) by (simp add: cleanup_files)
  moreover have "file_fit P s2 content" using s(4) by (simp add: file_fit_def s2_def)
  moreover have "{0 ..< length (pu_artifact P)} \<subseteq> covered (us_received_ranges s2)" using s(5) by (simp add: s2_def)
  ultimately show ?thesis using cleanup_fits [OF fit2 cl2] keep2(1) by (simp add: session_holds_def)
qed

section \<open>Starting and resuming\<close>

definition can_start :: "Upload \<Rightarrow> World \<Rightarrow> bool" where
  "can_start P w \<longleftrightarrow> store_fit P (w_state w) \<and> bt_get (ss_idempotency (w_state w)) (dpr_idempotency_key (pu_request P)) = None"

lemma removal_index_none:
  "bt_get (ss_idempotency st) k = None \<Longrightarrow> bt_get (ss_idempotency (fst (collect_sessions_for_removal_locked st ids))) k = None"
proof (induction ids arbitrary: st)
  case (Cons d ids)
  have "bt_get (ss_idempotency (drop_session d s st)) k = None" for s
    using Cons.prems by (simp add: drop_session_def btree_simps)
  then show ?case using Cons by (auto simp: removal_Cons split: option.split)
qed simp

lemma cleanup_index_none:
  assumes "collect_session_cleanup_locked store pinned st now keep = (st', plan)" "store_wf st"
    and "bt_get (ss_idempotency st) k = None"
  shows "bt_get (ss_idempotency st') k = None"
  using assms(1,2)
proof (rule cleanup_cases)
  fix st1 p1 st2 p2
  assume 1: "collect_expired_sessions st now (as_upload_session_ttl_secs store) = (st1, p1)"
    and 2: "collect_orphan_committed_sessions st1 now (as_committed_session_ttl_secs store)
       (as_max_committed_sessions store) (protected_deploy_ids pinned keep) = (st2, p2)"
    and st': "st' = cleanup_orphan_idempotency st2"
  have "bt_get (ss_idempotency st1) k = None"
    using removal_index_none [OF assms(3), of "expired_ids st now (as_upload_session_ttl_secs store)"] 1
    by (simp add: collect_expired_sessions_def)
  then have "bt_get (ss_idempotency (fst (st2, p2))) k = None"
    unfolding 2 [unfolded collect_orphan_committed_sessions_def Let_def, symmetric] by (rule removal_index_none)
  then show ?thesis by (simp add: st' cleanup_orphan_idempotency_def Let_def bt.get_rem_all)
qed

text \<open>What a prepare response says of a session that fits.\<close>

definition prepared_response :: "Upload \<Rightarrow> DeployPrepareResponse \<Rightarrow> World \<Rightarrow> bool" where
  "prepared_response P r w \<longleftrightarrow>
     (case dpp_artifact_status r of
        Complete \<Rightarrow> \<exists>c. session_holds P (dpp_deploy_id r) (dpp_upload_token r) {0 ..< length (pu_artifact P)} c w
      | Missing \<Rightarrow> session_holds P (dpp_deploy_id r) (dpp_upload_token r) {} False w
      | Partial \<Rightarrow> dpp_missing_ranges r \<noteq> [] \<and>
          list_all (\<lambda>m. rstart m < rend m \<and> rend m \<le> length (pu_artifact P)) (dpp_missing_ranges r) \<and>
          session_holds P (dpp_deploy_id r) (dpp_upload_token r)
            ({0 ..< length (pu_artifact P)} - covered (dpp_missing_ranges r)) False w)"

lemma response_describes:
  assumes "upload_ok P" "store_fit P (w_state w)" "live (w_state w) d = Some s" "session_fit P d t c s"
    and "w_files w (session_file_path (pu_store P) d) = Some content" "file_fit P s content"
  shows "prepared_response P (build_prepare_response s ttl now) w"
proof -
  let ?r = "build_prepare_response s ttl now"
  have holds: "session_holds P d t held c w" if "held \<subseteq> covered (us_received_ranges s)" for held
    unfolding session_holds_def using assms that by (intro conjI exI [of _ s] exI [of _ content]) simp_all
  have fit: "good_progress (us_artifact_size s) (us_received_ranges s)" "us_committed s = c" "us_deploy_id s = d" "us_upload_token s = t"
      "0 < unat (us_artifact_size s)" "length (pu_artifact P) = unat (us_artifact_size s)"
    using assms(1,4) unfolding session_fit_def upload_ok_def word_less_nat_alt by simp_all
  have complete: "is_complete (us_received_ranges s) (us_artifact_size s) \<longleftrightarrow> covered (us_received_ranges s) = {0 ..< unat (us_artifact_size s)}"
    by (rule is_complete_iff [OF fit(1,5)])
  have inside: "covered (us_received_ranges s) \<subseteq> {0 ..< unat (us_artifact_size s)}"
    using fit(1) by (auto simp: good_progress_def within_def covered_def list_all_iff)
  have dpp: "dpp_deploy_id ?r = d" "dpp_upload_token ?r = t" using fit by (simp_all add: build_prepare_response_def Let_def)
  show ?thesis
  proof (cases "us_committed s \<or> is_complete (us_received_ranges s) (us_artifact_size s)")
    case True
    moreover have "us_committed s \<Longrightarrow> covered (us_received_ranges s) = {0 ..< length (pu_artifact P)}"
      using assms(4) by (simp add: session_fit_def)
    ultimately have "covered (us_received_ranges s) = {0 ..< length (pu_artifact P)}" using complete unfolding fit(6) by blast
    then have "session_holds P d t {0 ..< length (pu_artifact P)} c w" by (intro holds) simp
    moreover have "dpp_artifact_status ?r = Complete" using True by (simp add: build_prepare_response_def Let_def)
    ultimately show ?thesis unfolding prepared_response_def dpp by auto
  next
    case False
    let ?missing = "all_missing_ranges (us_received_ranges s) (us_artifact_size s)"
    note missing = all_missing_correct [OF fit(1)]
    have nonempty: "?missing \<noteq> []"
    proof
      assume "?missing = []"
      then have "{0 ..< unat (us_artifact_size s)} - covered (us_received_ranges s) = {}" using missing(1) by simp
      then show False using inside complete False by blast
    qed
    have "{0 ..< length (pu_artifact P)} - covered ?missing \<subseteq> covered (us_received_ranges s)"
      unfolding missing(1) fit(6) by blast
    then have rest: "session_holds P d t ({0 ..< length (pu_artifact P)} - covered ?missing) c w" by (rule holds)
    have none: "session_holds P d t {} c w" by (rule holds) simp
    have "dpp_missing_ranges ?r = ?missing" "dpp_artifact_status ?r = (if us_received_ranges s = [] then Missing else Partial)"
      using False by (simp_all add: build_prepare_response_def Let_def)
    then show ?thesis
      using False rest none nonempty missing(2) fit(2) unfolding prepared_response_def dpp fit(6)
      by (cases "us_received_ranges s = []") simp_all
  qed
qed

lemma cleanup_fresh_path:
  assumes "store_fit P st" "collect_session_cleanup_locked (pu_store P) pinned st now keep = (st', plan)" "live st d = None"
  shows "live st' d = None" and "session_file_path (pu_store P) d \<notin> set plan"
proof -
  have sh: "shrinks st st' plan" using cleanup_spec(2) [OF assms(2)] assms(1) by (simp add: store_fit_def)
  then show "live st' d = None" using assms(3) by (cases "live st' d") (auto simp: shrinks_def)
  show "session_file_path (pu_store P) d \<notin> set plan"
  proof
    assume "session_file_path (pu_store P) d \<in> set plan"
    then obtain d' s' where "live st d' = Some s'" "session_file_path (pu_store P) d = us_file_path s'"
      using sh by (auto simp: shrinks_def)
    then show False using assms(1,3) by (auto simp: store_fit_def session_file_path_inj)
  qed
qed

lemma filter_bt_insert:
  "bt_get m k = None \<Longrightarrow> \<not> Q (k, v) \<Longrightarrow> filter Q (bt_insert k v m) = filter Q m"
  by (induction k v m rule: bt_insert.induct) (auto split: if_splits)

lemma store_fit_insert:
  assumes "store_fit P st" "live st (us_deploy_id s) = None" "existing_session st (us_idempotency_key s) = None"
    and "us_idempotency_key s = dpr_idempotency_key (pu_request P)" "us_file_path s = session_file_path (pu_store P) (us_deploy_id s)"
  shows "store_fit P \<lparr>ss_sessions = bt_insert (us_deploy_id s) s (ss_sessions st),
    ss_idempotency = bt_insert (us_idempotency_key s) (us_deploy_id s) (ss_idempotency st)\<rparr>"
proof -
  have "foreign_committed P \<lparr>ss_sessions = bt_insert (us_deploy_id s) s (ss_sessions st),
      ss_idempotency = bt_insert (us_idempotency_key s) (us_deploy_id s) (ss_idempotency st)\<rparr> = foreign_committed P st"
    unfolding foreign_committed_def using assms(2,4) by (simp add: filter_bt_insert)
  then show ?thesis
    using assms store_wf_insert [of st s] by (auto simp: store_fit_def btree_simps)
qed

text \<open>The first \<open>prepare\<close> makes the session.\<close>

lemma prepare_new:
  assumes P: "upload_ok P" "in_window P now" "in_window P now2" and start: "can_start P w"
    and fresh: "live (w_state w) d = None" "\<not> trim_is_empty d" "\<not> trim_is_empty t"
  shows "\<exists>w' r. prepare (pu_store P) (pu_sha P) fails IoOk now now2 d t (pu_request P) w = (w', Inr r) \<and> prepared_response P r w'"
proof -
  let ?path = "session_file_path (pu_store P) d" and ?request = "pu_request P"
  have fit: "store_fit P (w_state w)" and wf: "store_wf (w_state w)"
    and none: "bt_get (ss_idempotency (w_state w)) (dpr_idempotency_key ?request) = None"
    using start by (simp_all add: can_start_def store_fit_def)
  obtain st1 plan1 where cl1: "collect_session_cleanup_locked (pu_store P) (w_pinned w) (w_state w) now None = (st1, plan1)" by force
  note fresh1 = cleanup_fresh_path [OF fit cl1 fresh(1)] and fit1 = cleanup_fits [OF fit cl1]
  have none1: "bt_get (ss_idempotency st1) (dpr_idempotency_key ?request) = None" by (rule cleanup_index_none [OF cl1 wf none])
  have wf1: "store_wf st1" using fit1 by (simp add: store_fit_def)
  obtain st2 plan2 where cl2: "collect_session_cleanup_locked (pu_store P) (w_pinned w) st1 now2 None = (st2, plan2)" by force
  note fresh2 = cleanup_fresh_path [OF fit1 cl2 fresh1(1)] and fit2 = cleanup_fits [OF fit1 cl2]
  have none2: "bt_get (ss_idempotency st2) (dpr_idempotency_key ?request) = None" by (rule cleanup_index_none [OF cl2 wf1 none1])
  define c where "c = \<lparr>us_deploy_id = d, us_service_name = dpr_name ?request, us_idempotency_key = dpr_idempotency_key ?request,
    us_fingerprint = fingerprint (pu_sha P) ?request, us_artifact_digest = dpr_artifact_digest ?request,
    us_artifact_size = dpr_artifact_size ?request, us_manifest_digest = dpr_manifest_digest ?request, us_upload_token = t,
    us_file_path = ?path, us_received_ranges = [], us_committed = False, us_inflight_writes = 0,
    us_commit_in_progress = False, us_updated_at = now\<rparr>"
  define st3 where "st3 = \<lparr>ss_sessions = bt_insert d (touch now2 c) (ss_sessions st2),
    ss_idempotency = bt_insert (dpr_idempotency_key ?request) d (ss_idempotency st2)\<rparr>"
  let ?r = "build_prepare_response (touch now2 c) (as_upload_session_ttl_secs (pu_store P)) now2"
  let ?blank = "replicate (unat (dpr_artifact_size ?request)) 0"
  let ?w' = "w\<lparr>w_state := st3, w_files := apply_cleanup_plan fails (plan1 @ plan2) ((w_files w)(?path \<mapsto> ?blank))\<rparr>"
  have "prepare_check (pu_store P) ?request = Inr ()" using P(1) by (simp add: prepare_check_ok upload_ok_def)
  moreover have "prepare_decide (pu_store P) (pu_sha P) (w_pinned w) now d t ?request (w_state w) = (st1, plan1, Inr (Create c))"
    using cl1 none1 by (simp add: prepare_decide_def existing_session_def c_def)
  moreover have "prepare_insert (pu_store P) (w_pinned w) now2 c st1 = (st3, plan2, Inr ?r)"
    using cl2 none2 by (simp add: prepare_insert_def existing_session_def c_def st3_def touch_def Let_def)
  ultimately have run: "prepare (pu_store P) (pu_sha P) fails IoOk now now2 d t ?request w = (?w', Inr ?r)"
    by (simp add: prepare_def create_preallocated_file_def c_def)
  have "store_fit P st3"
    using store_fit_insert [OF fit2, of "touch now2 c"] fresh2(1) none2 by (simp add: st3_def touch_def c_def existing_session_def)
  moreover have "live st3 d = Some (touch now2 c)" by (simp add: st3_def btree_simps)
  moreover have "session_fit P d t False (touch now2 c)"
    using fresh P(3) by (simp add: session_fit_def touch_def c_def in_window_def good_progress_def separated_def)
  moreover have "w_files ?w' ?path = Some ?blank" using fresh1(2) fresh2(2) by (simp add: cleanup_files)
  moreover have "file_fit P (touch now2 c) ?blank" using P(1) by (simp add: file_fit_def touch_def c_def upload_ok_def)
  ultimately have "prepared_response P ?r ?w'" by (intro response_describes [OF P(1)]) simp_all
  then show ?thesis using run by blast
qed

text \<open>A later \<open>prepare\<close> finds it again.\<close>

lemma prepare_again:
  assumes P: "upload_ok P" "in_window P now" and held: "session_holds P d t held c w"
  shows "\<exists>w' r. prepare (pu_store P) (pu_sha P) fails IoOk now now2 d' t' (pu_request P) w = (w', Inr r) \<and> prepared_response P r w'"
proof -
  let ?path = "session_file_path (pu_store P) d" and ?request = "pu_request P"
  obtain s content where s: "live (w_state w) d = Some s" "session_fit P d t c s" "w_files w ?path = Some content"
      "file_fit P s content" and fit: "store_fit P (w_state w)"
    using held by (auto simp: session_holds_def)
  have since: "pu_since P \<le> us_updated_at s" and key: "us_idempotency_key s = dpr_idempotency_key ?request"
    and wf: "store_wf (w_state w)"
    using s(2) fit by (simp_all add: session_fit_def store_fit_def)
  obtain st1 plan where cl: "collect_session_cleanup_locked (pu_store P) (w_pinned w) (w_state w) now None = (st1, plan)" by force
  note keep = cleanup_spares [OF P fit cl s(1) since] and fit1 = cleanup_fits [OF fit cl]
  have "bt_get (ss_idempotency (w_state w)) (us_idempotency_key s) = Some d" using wf s(1) by (simp add: store_wf_def)
  then have "existing_session (w_state w) (dpr_idempotency_key ?request) = Some (d, s)"
    using s(1) key by (simp add: existing_session_def)
  from cleanup_keeps_existing [OF cl wf this keep(1)] have existing: "existing_session st1 (dpr_idempotency_key ?request) = Some (d, s)" .
  let ?r = "build_prepare_response (touch now s) (as_upload_session_ttl_secs (pu_store P)) now"
  let ?w' = "w\<lparr>w_state := update_session d (touch now) st1, w_files := apply_cleanup_plan fails plan (w_files w)\<rparr>"
  have "prepare_check (pu_store P) ?request = Inr ()" using P(1) by (simp add: prepare_check_ok upload_ok_def)
  moreover have "prepare_decide (pu_store P) (pu_sha P) (w_pinned w) now d' t' ?request (w_state w) =
      (update_session d (touch now) st1, plan, Inr (Existing ?r))"
    using cl existing s(2) by (simp add: prepare_decide_def session_fit_def)
  ultimately have run: "prepare (pu_store P) (pu_sha P) fails IoOk now now2 d' t' ?request w = (?w', Inr ?r)"
    by (simp add: prepare_def)
  have "store_fit P (update_session d (touch now) st1)"
    by (rule store_fit_update [OF fit1 keep(1) key]) (simp_all add: touch_def same_upload_def)
  moreover have "live (update_session d (touch now) st1) d = Some (touch now s)" using keep(1) by (simp add: live_update_session)
  moreover have "session_fit P d t c (touch now s)" using s(2) P(2) by (simp add: session_fit_def touch_def in_window_def)
  moreover have "w_files ?w' ?path = Some content" using keep(2) s(3) by (simp add: cleanup_files)
  moreover have "file_fit P (touch now s) content" using s(4) by (simp add: file_fit_def touch_def)
  ultimately have "prepared_response P ?r ?w'" by (intro response_describes [OF P(1)]) simp_all
  then show ?thesis using run by blast
qed

end
