(* ===== verification/Deploy_Upload.thy ===== *)
theory Deploy_Upload
  imports Upload_Client Artifact_Progress
begin

text \<open>
  The client of \<open>Upload_Client\<close> joined with the daemon of \<open>Protocol_Router\<close>: a link that may lose any
  request and any answer, the daemon behind it, and the upload that gets through all the same. That an
  exchange that is not lost delivers the envelopes unchanged is the subject of \<open>Framed_Streams\<close>.
\<close>

section \<open>The link\<close>

text \<open>
  A request is lost before the daemon sees it, or its answer is lost after the daemon has acted on
  it, or both arrive; the texts are the messages of the error that the client gets.
\<close>

datatype Delivery = Delivered | RequestLost "string list" | ResponseLost "string list"

record 'v LinkSetup =
  ls_json :: "'v Json"
  ls_client :: "'v ClientJson"
  ls_settings :: Settings
  ls_auth :: SessionAuthContext
  ls_surroundings :: "nat \<Rightarrow> Surroundings"
  ls_network :: "nat \<Rightarrow> Delivery"
  ls_uuid :: "nat \<Rightarrow> uuid"
  ls_version_supported :: "string \<Rightarrow> string + bool"
  ls_sha :: "bytes \<Rightarrow> string"

text \<open>The daemon and the number of exchanges so far.\<close>

record Link =
  lk_daemon :: Daemon
  lk_sent :: nat

text \<open>A request as the daemon parses it from its frame.\<close>

fun parsed_request :: "'v \<Rightarrow> 'v ClientRequest \<Rightarrow> 'v ParsedSingleRequestEnvelope result" where
  "parsed_request null (JsonRequest e) =
     and_then (ensure_non_nil_envelope_ids (env_request_id e) (env_correlation_id e)) (\<lambda>_.
       Inr \<lparr>pse_request = e, pse_typed_push = None\<rparr>)"
| "parsed_request null (PushRequest e) =
     and_then (ensure_non_nil_envelope_ids (env_request_id e) (env_correlation_id e)) (\<lambda>_.
       Inr \<lparr>pse_request = \<lparr>env_message_type = env_message_type e, env_request_id = env_request_id e,
              env_correlation_id = env_correlation_id e, env_payload = null, env_error = env_error e\<rparr>,
            pse_typed_push = Some (env_payload e)\<rparr>)"

definition serve :: "'v LinkSetup \<Rightarrow> nat \<Rightarrow> 'v ClientRequest \<Rightarrow> Daemon \<Rightarrow> Daemon \<times> (string list + 'v ProtocolEnvelope list)" where
  "serve ls n request d =
     (case answer_read (ls_json ls) (ls_settings ls) (ls_surroundings ls n) None (ls_auth ls)
             (and_then (parsed_request (js_null (ls_json ls)) request) (\<lambda>parsed. Inr (Some parsed))) d of
        (d', _, out, Inr _) \<Rightarrow> (d', Inr out)
      | (d', _, out, Inl err) \<Rightarrow> (d', Inl [err_message err]))"

definition exchange :: "'v LinkSetup \<Rightarrow> 'v ClientRequest \<Rightarrow> Link \<Rightarrow> Link \<times> (string list + 'v ProtocolEnvelope list)" where
  "exchange ls request link =
     (case ls_network ls (lk_sent link) of
        RequestLost e \<Rightarrow> (link\<lparr>lk_sent := Suc (lk_sent link)\<rparr>, Inl e)
      | ResponseLost e \<Rightarrow>
          (\<lparr>lk_daemon = fst (serve ls (lk_sent link) request (lk_daemon link)), lk_sent = Suc (lk_sent link)\<rparr>, Inl e)
      | Delivered \<Rightarrow>
          (case serve ls (lk_sent link) request (lk_daemon link) of
             (d, r) \<Rightarrow> (\<lparr>lk_daemon = d, lk_sent = Suc (lk_sent link)\<rparr>, r)))"

text \<open>A connection to the control socket is made anew for each request, so that opening the session does nothing.\<close>

definition link_env :: "'v LinkSetup \<Rightarrow> (Link, 'v) ClientEnv" where
  "link_env ls =
     \<lparr>cv_connect = (\<lambda>link. (link, Inr ())), cv_exchange = exchange ls, cv_uuid = (\<lambda>link. ls_uuid ls (lk_sent link)),
      cv_version_supported = ls_version_supported ls, cv_sha = ls_sha ls\<rparr>"

section \<open>What is assumed of the surroundings\<close>

text \<open>Messages survive their JSON form in both directions.\<close>

definition json_faithful :: "'v Json \<Rightarrow> 'v ClientJson \<Rightarrow> bool" where
  "json_faithful json cj \<longleftrightarrow>
     (\<forall>x. js_hello json (cj_hello cj x) = Inr x) \<and> (\<forall>x. js_prepare json (cj_prepare cj x) = Inr x) \<and>
     (\<forall>x. js_commit json (cj_commit cj x) = Inr x) \<and>
     (\<forall>x. cj_hello_response cj (js_encode json (R_Hello x)) = Inr x) \<and>
     (\<forall>x. cj_prepare_response cj (js_encode json (R_Prepare x)) = Inr x) \<and>
     (\<forall>x. cj_push_ack cj (js_encode json (R_Push x)) = Inr x) \<and>
     (\<forall>x. cj_commit_response cj (js_encode json (R_Commit x)) = Inr x)"

text \<open>The upload of \<open>inputs\<close> over \<open>ls\<close> between two readings of the clock, as the store sees it.\<close>

definition link_upload :: "'v LinkSetup \<Rightarrow> UploadPhaseInputs \<Rightarrow> u64 \<Rightarrow> u64 \<Rightarrow> Upload" where
  "link_upload ls inputs since until' =
     \<lparr>pu_store = st_store (ls_settings ls), pu_sha = ls_sha ls, pu_request = prepare_request inputs,
      pu_artifact = up_artifact inputs, pu_since = since, pu_until = until'\<rparr>"

text \<open>
  A link on which the upload can work: an administrator's session, identifiers that are not nil, one
  SHA-256 on both sides, files that can be written, a clock within the window, versions that agree,
  limits as the configuration is validated to have them and the store is made with them, and losses
  that are not reported as a refusal of authority.
\<close>

definition link_ok :: "'v LinkSetup \<Rightarrow> UploadPhaseInputs \<Rightarrow> u64 \<Rightarrow> u64 \<Rightarrow> bool" where
  "link_ok ls inputs since until' \<longleftrightarrow>
     json_faithful (ls_json ls) (ls_client ls) \<and> sa_role (ls_auth ls) = Admin \<and>
     (\<forall>n. ls_uuid ls n \<noteq> 0) \<and> up_correlation_id inputs \<noteq> 0 \<and>
     ls_version_supported ls PROTOCOL_VERSION = Inr True \<and> (\<forall>b. \<not> trim_is_empty (ls_sha ls b)) \<and>
     (\<forall>n e. ls_network ls n \<in> {RequestLost e, ResponseLost e} \<longrightarrow> \<not> contains_unauthorized_marker e) \<and>
     (\<forall>n. su_sha (ls_surroundings ls n) = ls_sha ls \<and> su_file (ls_surroundings ls n) = IoOk \<and>
        su_version_in_range (ls_surroundings ls n) PROTOCOL_VERSION = Some True \<and>
        in_window (link_upload ls inputs since until') (su_now (ls_surroundings ls n)) \<and>
        in_window (link_upload ls inputs since until') (su_now_after_io (ls_surroundings ls n)) \<and>
        \<not> trim_is_empty (su_deploy_id (ls_surroundings ls n)) \<and> \<not> trim_is_empty (su_upload_token (ls_surroundings ls n))) \<and>
     (let runtime = cfg_runtime (st_config (ls_settings ls)) in
        0 < rt_chunk_size runtime \<and> rt_chunk_size runtime < 2 ^ 64 \<and> as_max_chunk_size (st_store (ls_settings ls)) = rt_chunk_size runtime \<and>
        0 < rt_max_inflight_chunks runtime \<and> rt_max_inflight_chunks runtime < 2 ^ 64 \<and> 0 < rt_deploy_stream_timeout_secs runtime) \<and>
     validate_DeployPrepareRequest (prepare_request inputs) = Inr () \<and> upload_ok (link_upload ls inputs since until')"

section \<open>The states of an upload\<close>

definition link_uploading :: "'v LinkSetup \<Rightarrow> UploadPhaseInputs \<Rightarrow> u64 \<Rightarrow> u64 \<Rightarrow> string \<Rightarrow> string \<Rightarrow> nat set \<Rightarrow> Link \<Rightarrow> bool" where
  "link_uploading ls inputs since until' d t held link \<longleftrightarrow> link_ok ls inputs since until' \<and>
     session_holds (link_upload ls inputs since until') d t held False (dm_artifacts (lk_daemon link))"

definition link_stored :: "'v LinkSetup \<Rightarrow> UploadPhaseInputs \<Rightarrow> u64 \<Rightarrow> u64 \<Rightarrow> string \<Rightarrow> Link \<Rightarrow> bool" where
  "link_stored ls inputs since until' d link \<longleftrightarrow> link_ok ls inputs since until' \<and>
     (\<exists>t c. session_holds (link_upload ls inputs since until') d t {0 ..< length (up_artifact inputs)} c (dm_artifacts (lk_daemon link)))"

definition link_committed :: "'v LinkSetup \<Rightarrow> UploadPhaseInputs \<Rightarrow> u64 \<Rightarrow> u64 \<Rightarrow> string \<Rightarrow> Link \<Rightarrow> bool" where
  "link_committed ls inputs since until' d link \<longleftrightarrow>
     (\<exists>t. session_holds (link_upload ls inputs since until') d t {0 ..< length (up_artifact inputs)} True (dm_artifacts (lk_daemon link)))"

text \<open>Nothing was uploaded yet under this key and the identifiers to come are fresh, or a session is there to resume.\<close>

definition link_ready :: "'v LinkSetup \<Rightarrow> UploadPhaseInputs \<Rightarrow> u64 \<Rightarrow> u64 \<Rightarrow> Link \<Rightarrow> bool" where
  "link_ready ls inputs since until' link \<longleftrightarrow> link_ok ls inputs since until' \<and>
     (can_start (link_upload ls inputs since until') (dm_artifacts (lk_daemon link)) \<and>
        (\<forall>n. live (w_state (dm_artifacts (lk_daemon link))) (su_deploy_id (ls_surroundings ls n)) = None) \<or>
      (\<exists>d t held c. session_holds (link_upload ls inputs since until') d t held c (dm_artifacts (lk_daemon link))))"

section \<open>The daemon keeps the contract\<close>

lemma exchange_lawI:
  assumes "serve ls (lk_sent link) request (lk_daemon link) = (d, Inr [response])"
    and "env_error response = None" "from_value (env_payload response) = Inr x"
    and "keep (link\<lparr>lk_sent := Suc (lk_sent link)\<rparr>)" "keep \<lparr>lk_daemon = d, lk_sent = Suc (lk_sent link)\<rparr>"
    and "good x \<lparr>lk_daemon = d, lk_sent = Suc (lk_sent link)\<rparr>"
    and "\<And>e. ls_network ls (lk_sent link) \<in> {RequestLost e, ResponseLost e} \<Longrightarrow> \<not> contains_unauthorized_marker e"
  shows "exchange_law (link_env ls) (ls_network ls (lk_sent link) \<noteq> Delivered) from_value request keep good link"
  using assms by (cases "ls_network ls (lk_sent link)") (auto simp: exchange_law_def link_env_def exchange_def)

lemma serve_single:
  assumes "sa_role (ls_auth ls) = Admin" "i \<noteq> 0" "cid \<noteq> 0" "mt \<notin> {ArtifactPush, CommandStart, LogsRequest}"
    and "handle_single (ls_json ls) (ls_settings ls) (ls_surroundings ls n) (ls_auth ls) (request_envelope mt i cid v) d = (d', Inr response)"
  shows "serve ls n (JsonRequest (request_envelope mt i cid v)) d = (d', Inr [response])"
proof -
  let ?parsed = "\<lparr>pse_request = request_envelope mt i cid v, pse_typed_push = None\<rparr>"
  have "ensure_message_type_allowed mt (ls_auth ls) = Inr ()" using assms(1) by (simp add: ensure_message_type_allowed_def)
  then obtain features' where "handle_parsed_request (ls_json ls) (ls_settings ls) (ls_surroundings ls n) None (ls_auth ls) ?parsed d =
      (d', features', [response], Inr ())"
    using dispatch_single [of ?parsed "ls_auth ls" "ls_json ls" "ls_settings ls" "ls_surroundings ls n" None d] assms(4,5)
    by (auto simp: request_envelope_def)
  then show ?thesis
    using assms(2,3) by (simp add: serve_def answer_read_def request_envelope_def ensure_non_nil_envelope_ids_def)
qed

lemma link_okD:
  assumes "link_ok ls inputs since until'"
  shows "json_faithful (ls_json ls) (ls_client ls)" "sa_role (ls_auth ls) = Admin" "ls_uuid ls n \<noteq> 0" "up_correlation_id inputs \<noteq> 0"
    and "su_sha (ls_surroundings ls n) = ls_sha ls" "su_file (ls_surroundings ls n) = IoOk"
    and "in_window (link_upload ls inputs since until') (su_now (ls_surroundings ls n))"
    and "in_window (link_upload ls inputs since until') (su_now_after_io (ls_surroundings ls n))"
    and "\<not> trim_is_empty (su_deploy_id (ls_surroundings ls n))" "\<not> trim_is_empty (su_upload_token (ls_surroundings ls n))"
    and "as_max_chunk_size (st_store (ls_settings ls)) = rt_chunk_size (cfg_runtime (st_config (ls_settings ls)))"
    and "upload_ok (link_upload ls inputs since until')" "validate_DeployPrepareRequest (prepare_request inputs) = Inr ()"
    and "\<not> trim_is_empty (ls_sha ls b)"
  using assms unfolding link_ok_def Let_def by simp_all

lemma link_losses:
  "link_ok ls inputs since until' \<Longrightarrow> ls_network ls n \<in> {RequestLost e, ResponseLost e} \<Longrightarrow> \<not> contains_unauthorized_marker e"
  unfolding link_ok_def by blast

lemma hello_limits_read:
  assumes "0 < rt_chunk_size r" "rt_chunk_size r < 2 ^ 64" "0 < rt_max_inflight_chunks r" "rt_max_inflight_chunks r < 2 ^ 64"
    and "0 < rt_deploy_stream_timeout_secs r" "hnp_limits x = hello_limits r"
  shows "parse_upload_limits x = Inr \<lparr>ul_chunk_size = rt_chunk_size r, ul_max_inflight_chunks = rt_max_inflight_chunks r,
    ul_deploy_stream_timeout = rt_deploy_stream_timeout_secs r\<rparr>"
proof -
  have "bt_get (hello_limits r) ''chunk_size'' = Some (decimal (rt_chunk_size r))"
      "bt_get (hello_limits r) ''max_inflight_chunks'' = Some (decimal (rt_max_inflight_chunks r))"
      "bt_get (hello_limits r) ''deploy_stream_timeout_secs'' = Some (decimal (unat (rt_deploy_stream_timeout_secs r)))"
    by (simp_all add: hello_limits_def btree_simps del: bt_insert.simps)
  moreover have "unat (rt_deploy_stream_timeout_secs r) < 2 ^ 64" using unat_lt_u64 by simp
  moreover have "unat (rt_deploy_stream_timeout_secs r) \<noteq> 0" using assms(5) by (simp add: word_less_nat_alt)
  ultimately show ?thesis
    using assms by (simp add: parse_upload_limits_def parse_positive_limit_def parse_unsigned_decimal)
qed

lemma hello_served:
  assumes ok: "link_ok ls inputs since until'" and "i \<noteq> 0"
  shows "\<exists>x response. serve ls n (JsonRequest (request_envelope HelloNegotiate i (up_correlation_id inputs)
      (cj_hello (ls_client ls) \<lparr>hnr_client_version = PROTOCOL_VERSION, hnr_required_features = required_features\<rparr>))) d =
      (d, Inr [response]) \<and> env_error response = None \<and> cj_hello_response (ls_client ls) (env_payload response) = Inr x \<and>
    ensure_hello_protocol_compatibility (ls_version_supported ls) x = Inr () \<and>
    (\<exists>limits. parse_upload_limits x = Inr limits \<and> 0 < ul_chunk_size limits \<and> ul_chunk_size limits < 2 ^ 64 \<and>
       ul_chunk_size limits \<le> as_max_chunk_size (st_store (ls_settings ls)))"
proof -
  let ?json = "ls_json ls" and ?st = "ls_settings ls" and ?su = "ls_surroundings ls n"
  let ?hello = "\<lparr>hnr_client_version = PROTOCOL_VERSION, hnr_required_features = required_features\<rparr>"
  let ?request = "request_envelope HelloNegotiate i (up_correlation_id inputs) (cj_hello (ls_client ls) ?hello)"
  let ?runtime = "cfg_runtime (st_config ?st)"
  have range: "su_version_in_range ?su PROTOCOL_VERSION = Some True" "ls_version_supported ls PROTOCOL_VERSION = Inr True"
    and limits: "0 < rt_chunk_size ?runtime" "rt_chunk_size ?runtime < 2 ^ 64" "0 < rt_max_inflight_chunks ?runtime"
      "rt_max_inflight_chunks ?runtime < 2 ^ 64" "0 < rt_deploy_stream_timeout_secs ?runtime"
    using ok by (simp_all add: link_ok_def Let_def)
  define x where "x = \<lparr>hnp_accepted = True, hnp_server_version = cfg_server_version (st_config ?st),
    hnp_server_protocol_version = PROTOCOL_VERSION, hnp_supported_protocol_version_range = SUPPORTED_PROTOCOL_VERSION_RANGE,
    hnp_compatibility_announcement = None, hnp_features = hello_features_for_auth_context (ls_auth ls), hnp_limits = hello_limits ?runtime\<rparr>"
  have "validate_HelloNegotiateRequest ?hello = Inr ()"
    by (simp add: validate_HelloNegotiateRequest_def validate_simps PROTOCOL_VERSION_def)
  then have "take_valid (js_hello ?json) validate_HelloNegotiateRequest ''hello.negotiate'' ?request = Inr ?hello"
    using link_okD(1) [OF ok] by (simp add: take_valid_def payload_take_def request_envelope_def json_faithful_def)
  then have "handle_single ?json ?st ?su (ls_auth ls) ?request d = (d, Inr (response_envelope ?json HelloNegotiate i (up_correlation_id inputs) (R_Hello x)))"
    using range(1) by (simp add: handle_single_def request_envelope_def handle_hello_def respond_with_def
        protocol_compatibility_announcement_def x_def)
  then have "serve ls n (JsonRequest ?request) d = (d, Inr [response_envelope ?json HelloNegotiate i (up_correlation_id inputs) (R_Hello x)])"
    by (intro serve_single [OF link_okD(2) [OF ok] assms(2) link_okD(4) [OF ok]]) simp_all
  moreover have "cj_hello_response (ls_client ls) (js_encode ?json (R_Hello x)) = Inr x"
    using link_okD(1) [OF ok] by (simp add: json_faithful_def)
  moreover have "ensure_hello_protocol_compatibility (ls_version_supported ls) x = Inr ()"
    using range(2) by (simp add: ensure_hello_protocol_compatibility_def ensure_server_protocol_version_supported_def x_def)
  moreover have "hnp_limits x = hello_limits ?runtime" by (simp add: x_def)
  note hello_limits_read [OF limits this]
  ultimately show ?thesis
    using limits link_okD(11) [OF ok]
    by (intro exI [of _ x] exI [of _ "response_envelope ?json HelloNegotiate i (up_correlation_id inputs) (R_Hello x)"]) (simp add: response_envelope_def)
qed

lemma prepare_served:
  assumes ready: "link_ready ls inputs since until' \<lparr>lk_daemon = d, lk_sent = n\<rparr>" and "i \<noteq> 0"
  shows "\<exists>w x response. serve ls n (JsonRequest (request_envelope DeployPrepare i (up_correlation_id inputs)
      (cj_prepare (ls_client ls) (prepare_request inputs)))) d = (d\<lparr>dm_artifacts := w\<rparr>, Inr [response]) \<and>
    env_error response = None \<and> cj_prepare_response (ls_client ls) (env_payload response) = Inr x \<and>
    prepared_response (link_upload ls inputs since until') x w"
proof -
  let ?json = "ls_json ls" and ?st = "ls_settings ls" and ?su = "ls_surroundings ls n" and ?P = "link_upload ls inputs since until'"
  let ?request = "request_envelope DeployPrepare i (up_correlation_id inputs) (cj_prepare (ls_client ls) (prepare_request inputs))"
  have ok: "link_ok ls inputs since until'" using ready by (simp add: link_ready_def)
  note window = link_okD(7,8) [OF ok, of n] and P = link_okD(12) [OF ok]
  have "\<exists>w x. prepare (pu_store ?P) (pu_sha ?P) (su_remove_fails ?su) IoOk (su_now ?su) (su_now_after_io ?su) (su_deploy_id ?su)
      (su_upload_token ?su) (pu_request ?P) (dm_artifacts d) = (w, Inr x) \<and> prepared_response ?P x w"
    using ready prepare_new [OF P window] prepare_again [OF P window(1)] link_okD(9,10) [OF ok]
    unfolding link_ready_def by (metis Link.select_convs(1))
  then obtain w x where run: "prepare (st_store ?st) (su_sha ?su) (su_remove_fails ?su) (su_file ?su) (su_now ?su) (su_now_after_io ?su)
      (su_deploy_id ?su) (su_upload_token ?su) (prepare_request inputs) (dm_artifacts d) = (w, Inr x)" "prepared_response ?P x w"
    by (auto simp: link_upload_def link_okD(5,6) [OF ok])
  have "take_valid (js_prepare ?json) validate_DeployPrepareRequest ''deploy.prepare'' ?request = Inr (prepare_request inputs)"
    using link_okD(1,13) [OF ok] by (simp add: take_valid_def payload_take_def request_envelope_def json_faithful_def)
  then have "handle_single ?json ?st ?su (ls_auth ls) ?request d =
      (d\<lparr>dm_artifacts := w\<rparr>, Inr (response_envelope ?json DeployPrepare i (up_correlation_id inputs) (R_Prepare x)))"
    using run(1) by (simp add: handle_single_def request_envelope_def handle_prepare_def respond_with_def)
  then have "serve ls n (JsonRequest ?request) d =
      (d\<lparr>dm_artifacts := w\<rparr>, Inr [response_envelope ?json DeployPrepare i (up_correlation_id inputs) (R_Prepare x)])"
    by (intro serve_single [OF link_okD(2) [OF ok] assms(2) link_okD(4) [OF ok]]) simp_all
  moreover have "cj_prepare_response (ls_client ls) (js_encode ?json (R_Prepare x)) = Inr x"
    using link_okD(1) [OF ok] by (simp add: json_faithful_def)
  ultimately show ?thesis
    using run(2) by (intro exI [of _ w] exI [of _ x] exI [of _ "response_envelope ?json DeployPrepare i (up_correlation_id inputs) (R_Prepare x)"])
      (simp add: response_envelope_def)
qed

lemma push_served:
  assumes up: "link_uploading ls inputs since until' d t held \<lparr>lk_daemon = dm, lk_sent = n\<rparr>" and "i \<noteq> 0"
    and chunk: "0 < length chunk" "length chunk \<le> as_max_chunk_size (st_store (ls_settings ls))"
      "unat off + length chunk \<le> length (up_artifact inputs)" "chunk = take (length chunk) (drop (unat off) (up_artifact inputs))"
  shows "\<exists>w x response. serve ls n (PushRequest \<lparr>env_message_type = ArtifactPush, env_request_id = i,
      env_correlation_id = up_correlation_id inputs,
      env_payload = \<lparr>apr_header = \<lparr>aph_deploy_id = d, aph_offset = off, aph_length = of_nat (length chunk),
        aph_chunk_sha256 = ls_sha ls chunk, aph_upload_token = t\<rparr>, apr_chunk = chunk\<rparr>, env_error = None\<rparr>) dm =
      (dm\<lparr>dm_artifacts := w\<rparr>, Inr [response]) \<and>
    env_error response = None \<and> cj_push_ack (ls_client ls) (env_payload response) = Inr x \<and>
    session_holds (link_upload ls inputs since until') d t (held \<union> {unat off ..< unat off + length chunk}) False w"
proof -
  let ?json = "ls_json ls" and ?st = "ls_settings ls" and ?su = "ls_surroundings ls n" and ?P = "link_upload ls inputs since until'"
  define payload where "payload = \<lparr>apr_header = \<lparr>aph_deploy_id = d, aph_offset = off, aph_length = of_nat (length chunk),
      aph_chunk_sha256 = ls_sha ls chunk, aph_upload_token = t\<rparr>, apr_chunk = chunk\<rparr>"
  define request where "request = \<lparr>env_message_type = ArtifactPush, env_request_id = i, env_correlation_id = up_correlation_id inputs,
      env_payload = js_null ?json, env_error = None\<rparr>"
  have type: "env_message_type request = ArtifactPush" by (simp add: request_def)
  have request_ids: "env_request_id request = i" "env_correlation_id request = up_correlation_id inputs" by (simp_all add: request_def)
  have ok: "link_ok ls inputs since until'" and held: "session_holds ?P d t held False (dm_artifacts dm)"
    using up by (simp_all add: link_uploading_def)
  have artifact: "pu_artifact ?P = up_artifact inputs" "pu_store ?P = st_store ?st" "pu_sha ?P = ls_sha ls" by (simp_all add: link_upload_def)
  obtain w x where run: "push (st_store ?st) (ls_sha ls) (su_remove_fails ?su) IoOk (su_now ?su) payload (dm_artifacts dm) = (w, Inr x)"
      "session_holds ?P d t (held \<union> {unat off ..< unat off + length chunk}) False w"
    using push_holds [OF link_okD(12) [OF ok] link_okD(7) [OF ok, of n] held, unfolded artifact, OF chunk payload_def] by blast
  have "length (up_artifact inputs) < 2 ^ 64"
    using link_okD(12) [OF ok] unat_lt_u64 [of "dpr_artifact_size (pu_request ?P)"] by (simp add: upload_ok_def artifact)
  then have "0 < unat (of_nat (length chunk) :: u64)" using chunk(1,3) by (simp add: unat_of_nat)
  moreover have "\<not> trim_is_empty d" "\<not> trim_is_empty t" using held by (auto simp: session_holds_def session_fit_def)
  ultimately have "validate_push_payload payload = Inr ()"
    using chunk(1) link_okD(14) [OF ok] validate_push_ok [of payload "()"]
    by (simp add: validate_push_payload_def payload_def valid_push_def)
  then have "handle_push_typed ?json ?st ?su i (up_correlation_id inputs) payload dm =
      (dm\<lparr>dm_artifacts := w\<rparr>, Inr (response_envelope ?json ArtifactPush i (up_correlation_id inputs) (R_Push x)))"
    using run(1) link_okD(5,6) [OF ok, of n] by (simp add: handle_push_typed_def respond_with_def)
  then have "serve ls n (PushRequest \<lparr>env_message_type = ArtifactPush, env_request_id = i,
      env_correlation_id = up_correlation_id inputs, env_payload = payload, env_error = None\<rparr>) dm =
      (dm\<lparr>dm_artifacts := w\<rparr>, Inr [response_envelope ?json ArtifactPush i (up_correlation_id inputs) (R_Push x)])"
    using link_okD(2,4) [OF ok] assms(2)
    by (simp add: serve_def answer_read_def ensure_non_nil_envelope_ids_def handle_parsed_request_def Let_def ensure_message_type_allowed_def
        type request_ids flip: request_def)
  moreover have "cj_push_ack (ls_client ls) (js_encode ?json (R_Push x)) = Inr x"
    using link_okD(1) [OF ok] by (simp add: json_faithful_def)
  ultimately show ?thesis
    using run(2) by (intro exI [of _ w] exI [of _ x] exI [of _ "response_envelope ?json ArtifactPush i (up_correlation_id inputs) (R_Push x)"])
      (simp add: response_envelope_def payload_def)
qed

lemma commit_served:
  assumes stored: "link_stored ls inputs since until' d \<lparr>lk_daemon = dm, lk_sent = n\<rparr>" and "i \<noteq> 0"
  shows "\<exists>w x response. serve ls n (JsonRequest (request_envelope ArtifactCommit i (up_correlation_id inputs)
      (cj_commit (ls_client ls) (commit_request inputs d)))) dm = (dm\<lparr>dm_artifacts := w\<rparr>, Inr [response]) \<and>
    env_error response = None \<and> cj_commit_response (ls_client ls) (env_payload response) = Inr x \<and> acp_verified x \<and>
    (\<exists>t. session_holds (link_upload ls inputs since until') d t {0 ..< length (up_artifact inputs)} True w)"
proof -
  let ?json = "ls_json ls" and ?st = "ls_settings ls" and ?su = "ls_surroundings ls n" and ?P = "link_upload ls inputs since until'"
  let ?request = "request_envelope ArtifactCommit i (up_correlation_id inputs) (cj_commit (ls_client ls) (commit_request inputs d))"
  have artifact: "pu_artifact ?P = up_artifact inputs" "pu_store ?P = st_store ?st" "pu_sha ?P = ls_sha ls"
      "pu_request ?P = prepare_request inputs"
    by (simp_all add: link_upload_def)
  obtain t c where held: "session_holds ?P d t {0 ..< length (pu_artifact ?P)} c (dm_artifacts dm)" and ok: "link_ok ls inputs since until'"
    using stored by (auto simp: link_stored_def artifact)
  have "commit_request inputs d = \<lparr>acr_deploy_id = d, acr_artifact_digest = dpr_artifact_digest (pu_request ?P),
      acr_artifact_size = dpr_artifact_size (pu_request ?P), acr_manifest_digest = dpr_manifest_digest (pu_request ?P)\<rparr>"
    by (simp add: commit_request_def artifact prepare_request_def)
  from commit_holds [OF link_okD(12) [OF ok] link_okD(7) [OF ok, of n] held this]
  obtain w x where run: "commit (st_store ?st) (ls_sha ls) (su_remove_fails ?su) IoOk (su_now ?su) (commit_request inputs d)
      (dm_artifacts dm) = (w, Inr x)" "acp_verified x" "session_holds ?P d t {0 ..< length (up_artifact inputs)} True w"
    unfolding artifact by blast
  have "\<not> trim_is_empty d" using held by (auto simp: session_holds_def session_fit_def)
  then have "validate_ArtifactCommitRequest (commit_request inputs d) = Inr ()"
    using link_okD(13) [OF ok] by (simp add: validate_simps valid_prepare_def valid_commit_def commit_request_def prepare_request_def)
  then have "take_valid (js_commit ?json) validate_ArtifactCommitRequest ''artifact.commit'' ?request = Inr (commit_request inputs d)"
    using link_okD(1) [OF ok] by (simp add: take_valid_def payload_take_def request_envelope_def json_faithful_def)
  then have "handle_single ?json ?st ?su (ls_auth ls) ?request dm =
      (dm\<lparr>dm_artifacts := w\<rparr>, Inr (response_envelope ?json ArtifactCommit i (up_correlation_id inputs) (R_Commit x)))"
    using run(1) link_okD(5,6) [OF ok, of n]
    by (simp add: handle_single_def request_envelope_def handle_commit_def respond_with_def)
  then have "serve ls n (JsonRequest ?request) dm =
      (dm\<lparr>dm_artifacts := w\<rparr>, Inr [response_envelope ?json ArtifactCommit i (up_correlation_id inputs) (R_Commit x)])"
    by (intro serve_single [OF link_okD(2) [OF ok] assms(2) link_okD(4) [OF ok]]) simp_all
  moreover have "cj_commit_response (ls_client ls) (js_encode ?json (R_Commit x)) = Inr x"
    using link_okD(1) [OF ok] by (simp add: json_faithful_def)
  ultimately show ?thesis
    using run(2,3) by (intro exI [of _ w] exI [of _ x] exI [of _ "response_envelope ?json ArtifactCommit i (up_correlation_id inputs) (R_Commit x)"])
      (auto simp: response_envelope_def)
qed

lemma prepared_ready:
  assumes "link_ok ls inputs since until'" "prepared_response (link_upload ls inputs since until') x (dm_artifacts (lk_daemon link))"
  shows "link_ready ls inputs since until' link"
proof -
  have "\<exists>d t held c. session_holds (link_upload ls inputs since until') d t held c (dm_artifacts (lk_daemon link))"
    using assms(2) unfolding prepared_response_def by (cases "dpp_artifact_status x") auto
  then show ?thesis using assms(1) unfolding link_ready_def by blast
qed

lemma prepared_ranges:
  assumes ok: "link_ok ls inputs since until'" and prepared: "prepared_response (link_upload ls inputs since until') x (dm_artifacts (lk_daemon link))"
  shows "if dpp_artifact_status x = Complete then link_stored ls inputs since until' (dpp_deploy_id x) link
    else \<exists>ranges held. upload_ranges_for_prepare (dpp_artifact_status x) (dpp_missing_ranges x) (up_artifact_size inputs) = Inr ranges \<and>
      ranges \<noteq> [] \<and> list_all (range_ok (up_artifact_size inputs)) ranges \<and>
      {0 ..< length (up_artifact inputs)} \<subseteq> held \<union> covered ranges \<and>
      link_uploading ls inputs since until' (dpp_deploy_id x) (dpp_upload_token x) held link"
proof -
  have artifact: "pu_artifact (link_upload ls inputs since until') = up_artifact inputs" by (simp add: link_upload_def)
  have size: "length (up_artifact inputs) = unat (up_artifact_size inputs)" "0 < unat (up_artifact_size inputs)"
    using link_okD(12) [OF ok] by (simp_all add: upload_ok_def link_upload_def prepare_request_def word_less_nat_alt)
  show ?thesis
  proof (cases "dpp_artifact_status x")
    case Complete
    then show ?thesis using prepared ok by (auto simp: prepared_response_def link_stored_def artifact)
  next
    case Missing
    let ?all = "[\<lparr>br_offset = 0, br_length = up_artifact_size inputs\<rparr>]"
    have "list_all (range_ok (up_artifact_size inputs)) ?all" "{0 ..< length (up_artifact inputs)} \<subseteq> {} \<union> covered ?all"
      using size by (simp_all add: range_ok_def rstart_def rend_def)
    moreover have "link_uploading ls inputs since until' (dpp_deploy_id x) (dpp_upload_token x) {} link"
      using prepared ok Missing by (simp add: prepared_response_def link_uploading_def)
    moreover have "upload_ranges_for_prepare (dpp_artifact_status x) (dpp_missing_ranges x) (up_artifact_size inputs) = Inr ?all"
      using Missing by (simp add: upload_ranges_for_prepare_def)
    ultimately show ?thesis using Missing by (simp only: ArtifactStatus.distinct if_False) blast
  next
    case Partial
    let ?held = "{0 ..< length (up_artifact inputs)} - covered (dpp_missing_ranges x)"
    have "dpp_missing_ranges x \<noteq> []" "list_all (range_ok (up_artifact_size inputs)) (dpp_missing_ranges x)"
        "link_uploading ls inputs since until' (dpp_deploy_id x) (dpp_upload_token x) ?held link"
      using prepared ok Partial size(1) by (simp_all add: prepared_response_def link_uploading_def artifact range_ok_def list_all_iff)
    moreover have "{0 ..< length (up_artifact inputs)} \<subseteq> ?held \<union> covered (dpp_missing_ranges x)" by blast
    moreover have "upload_ranges_for_prepare (dpp_artifact_status x) (dpp_missing_ranges x) (up_artifact_size inputs) = Inr (dpp_missing_ranges x)"
      using Partial calculation(1) by (simp add: upload_ranges_for_prepare_def)
    ultimately show ?thesis using Partial by (simp only: ArtifactStatus.distinct if_False) blast
  qed
qed

lemma session_holds_mono: "session_holds P d t held c w \<Longrightarrow> held' \<subseteq> held \<Longrightarrow> session_holds P d t held' c w"
  unfolding session_holds_def by blast

lemma link_hello:
  assumes "link_ready ls inputs since until' link" "i \<noteq> 0"
  shows "exchange_law (link_env ls) (ls_network ls (lk_sent link) \<noteq> Delivered) (cj_hello_response (ls_client ls))
    (JsonRequest (request_envelope HelloNegotiate i (up_correlation_id inputs)
      (cj_hello (ls_client ls) \<lparr>hnr_client_version = PROTOCOL_VERSION, hnr_required_features = required_features\<rparr>)))
    (link_ready ls inputs since until') (\<lambda>x link'. link_ready ls inputs since until' link' \<and>
      ensure_hello_protocol_compatibility (cv_version_supported (link_env ls)) x = Inr () \<and>
      (\<exists>limits. parse_upload_limits x = Inr limits \<and> 0 < ul_chunk_size limits \<and> ul_chunk_size limits < 2 ^ 64 \<and>
        ul_chunk_size limits \<le> as_max_chunk_size (st_store (ls_settings ls)))) link"
proof -
  have ok: "link_ok ls inputs since until'" using assms(1) by (simp add: link_ready_def)
  obtain x response where served: "serve ls (lk_sent link) (JsonRequest (request_envelope HelloNegotiate i (up_correlation_id inputs)
      (cj_hello (ls_client ls) \<lparr>hnr_client_version = PROTOCOL_VERSION, hnr_required_features = required_features\<rparr>))) (lk_daemon link) =
      (lk_daemon link, Inr [response])" "env_error response = None" "cj_hello_response (ls_client ls) (env_payload response) = Inr x"
    and good: "ensure_hello_protocol_compatibility (cv_version_supported (link_env ls)) x = Inr ()"
      "\<exists>limits. parse_upload_limits x = Inr limits \<and> 0 < ul_chunk_size limits \<and> ul_chunk_size limits < 2 ^ 64 \<and>
        ul_chunk_size limits \<le> as_max_chunk_size (st_store (ls_settings ls))"
    using hello_served [OF ok assms(2), of "lk_sent link" "lk_daemon link"] by (auto simp: link_env_def)
  have ready: "link_ready ls inputs since until' \<lparr>lk_daemon = lk_daemon link, lk_sent = Suc (lk_sent link)\<rparr>"
      "link_ready ls inputs since until' (link\<lparr>lk_sent := Suc (lk_sent link)\<rparr>)"
    using assms(1) by (simp_all add: link_ready_def)
  show ?thesis
    by (rule exchange_lawI [where d = "lk_daemon link"])
      (rule served(1), rule served(2), rule served(3), rule ready(2), rule ready(1), intro conjI ready(1) good, erule link_losses [OF ok])
qed

lemma link_prepares:
  assumes "link_ready ls inputs since until' link" "i \<noteq> 0"
  shows "exchange_law (link_env ls) (ls_network ls (lk_sent link) \<noteq> Delivered) (cj_prepare_response (ls_client ls))
    (JsonRequest (request_envelope DeployPrepare i (up_correlation_id inputs) (cj_prepare (ls_client ls) (prepare_request inputs))))
    (link_ready ls inputs since until') (\<lambda>x link'. if dpp_artifact_status x = Complete
      then link_stored ls inputs since until' (dpp_deploy_id x) link'
      else \<exists>ranges held. upload_ranges_for_prepare (dpp_artifact_status x) (dpp_missing_ranges x) (up_artifact_size inputs) = Inr ranges \<and>
        ranges \<noteq> [] \<and> list_all (range_ok (up_artifact_size inputs)) ranges \<and>
        {0 ..< length (up_artifact inputs)} \<subseteq> held \<union> covered ranges \<and>
        link_uploading ls inputs since until' (dpp_deploy_id x) (dpp_upload_token x) held link') link"
proof -
  have ok: "link_ok ls inputs since until'" using assms(1) by (simp add: link_ready_def)
  have "link_ready ls inputs since until' \<lparr>lk_daemon = lk_daemon link, lk_sent = lk_sent link\<rparr>" using assms(1) by (simp add: link_ready_def)
  from prepare_served [OF this assms(2)]
  obtain w x response where served: "serve ls (lk_sent link) (JsonRequest (request_envelope DeployPrepare i (up_correlation_id inputs)
      (cj_prepare (ls_client ls) (prepare_request inputs)))) (lk_daemon link) = ((lk_daemon link)\<lparr>dm_artifacts := w\<rparr>, Inr [response])"
      "env_error response = None" "cj_prepare_response (ls_client ls) (env_payload response) = Inr x"
    and prepared: "prepared_response (link_upload ls inputs since until') x w" by blast
  let ?link = "\<lparr>lk_daemon = (lk_daemon link)\<lparr>dm_artifacts := w\<rparr>, lk_sent = Suc (lk_sent link)\<rparr>"
  have prepared': "prepared_response (link_upload ls inputs since until') x (dm_artifacts (lk_daemon ?link))" using prepared by simp
  have ready: "link_ready ls inputs since until' (link\<lparr>lk_sent := Suc (lk_sent link)\<rparr>)" using assms(1) by (simp add: link_ready_def)
  show ?thesis
    by (rule exchange_lawI [where d = "(lk_daemon link)\<lparr>dm_artifacts := w\<rparr>"])
      (rule served(1), rule served(2), rule served(3), rule ready, rule prepared_ready [OF ok prepared'],
        rule prepared_ranges [OF ok prepared'], erule link_losses [OF ok])
qed

lemma link_pushes:
  assumes "link_uploading ls inputs since until' d t held link" "i \<noteq> 0" "0 < length chunk"
    and "length chunk \<le> as_max_chunk_size (st_store (ls_settings ls))" "unat off + length chunk \<le> length (up_artifact inputs)"
    and "chunk = take (length chunk) (drop (unat off) (up_artifact inputs))"
  shows "exchange_law (link_env ls) (ls_network ls (lk_sent link) \<noteq> Delivered) (cj_push_ack (ls_client ls))
    (PushRequest \<lparr>env_message_type = ArtifactPush, env_request_id = i, env_correlation_id = up_correlation_id inputs,
       env_payload = \<lparr>apr_header = \<lparr>aph_deploy_id = d, aph_offset = off, aph_length = of_nat (length chunk),
         aph_chunk_sha256 = cv_sha (link_env ls) chunk, aph_upload_token = t\<rparr>, apr_chunk = chunk\<rparr>, env_error = None\<rparr>)
    (link_uploading ls inputs since until' d t held)
    (\<lambda>x. link_uploading ls inputs since until' d t (held \<union> {unat off ..< unat off + length chunk})) link"
proof -
  have ok: "link_ok ls inputs since until'" using assms(1) by (simp add: link_uploading_def)
  have sha: "cv_sha (link_env ls) = ls_sha ls" by (simp add: link_env_def)
  have "link_uploading ls inputs since until' d t held \<lparr>lk_daemon = lk_daemon link, lk_sent = lk_sent link\<rparr>"
    using assms(1) by (simp add: link_uploading_def)
  from push_served [OF this assms(2-)]
  obtain w x response where served: "serve ls (lk_sent link) (PushRequest \<lparr>env_message_type = ArtifactPush, env_request_id = i,
      env_correlation_id = up_correlation_id inputs,
      env_payload = \<lparr>apr_header = \<lparr>aph_deploy_id = d, aph_offset = off, aph_length = of_nat (length chunk),
        aph_chunk_sha256 = cv_sha (link_env ls) chunk, aph_upload_token = t\<rparr>, apr_chunk = chunk\<rparr>, env_error = None\<rparr>) (lk_daemon link) =
      ((lk_daemon link)\<lparr>dm_artifacts := w\<rparr>, Inr [response])"
      "env_error response = None" "cj_push_ack (ls_client ls) (env_payload response) = Inr x"
    and held: "session_holds (link_upload ls inputs since until') d t (held \<union> {unat off ..< unat off + length chunk}) False w"
    unfolding sha by blast
  have next': "link_uploading ls inputs since until' d t (held \<union> {unat off ..< unat off + length chunk})
      \<lparr>lk_daemon = (lk_daemon link)\<lparr>dm_artifacts := w\<rparr>, lk_sent = Suc (lk_sent link)\<rparr>"
    using held ok by (simp add: link_uploading_def)
  have keep: "link_uploading ls inputs since until' d t held \<lparr>lk_daemon = (lk_daemon link)\<lparr>dm_artifacts := w\<rparr>, lk_sent = Suc (lk_sent link)\<rparr>"
      "link_uploading ls inputs since until' d t held (link\<lparr>lk_sent := Suc (lk_sent link)\<rparr>)"
    using assms(1) session_holds_mono [OF held, of held] by (simp_all add: link_uploading_def)
  show ?thesis
    by (rule exchange_lawI [where d = "(lk_daemon link)\<lparr>dm_artifacts := w\<rparr>"])
      (rule served(1), rule served(2), rule served(3), rule keep(2), rule keep(1), rule next', erule link_losses [OF ok])
qed

lemma link_commits:
  assumes "link_stored ls inputs since until' d link" "i \<noteq> 0"
  shows "exchange_law (link_env ls) (ls_network ls (lk_sent link) \<noteq> Delivered) (cj_commit_response (ls_client ls))
    (JsonRequest (request_envelope ArtifactCommit i (up_correlation_id inputs) (cj_commit (ls_client ls) (commit_request inputs d))))
    (link_stored ls inputs since until' d) (\<lambda>x link'. acp_verified x \<and> link_committed ls inputs since until' d link') link"
proof -
  have ok: "link_ok ls inputs since until'" using assms(1) by (simp add: link_stored_def)
  have "link_stored ls inputs since until' d \<lparr>lk_daemon = lk_daemon link, lk_sent = lk_sent link\<rparr>" using assms(1) by (simp add: link_stored_def)
  from commit_served [OF this assms(2)]
  obtain w x response where served: "serve ls (lk_sent link) (JsonRequest (request_envelope ArtifactCommit i (up_correlation_id inputs)
      (cj_commit (ls_client ls) (commit_request inputs d)))) (lk_daemon link) = ((lk_daemon link)\<lparr>dm_artifacts := w\<rparr>, Inr [response])"
      "env_error response = None" "cj_commit_response (ls_client ls) (env_payload response) = Inr x"
    and good: "acp_verified x"
      "\<exists>t. session_holds (link_upload ls inputs since until') d t {0 ..< length (up_artifact inputs)} True w" by blast
  let ?link = "\<lparr>lk_daemon = (lk_daemon link)\<lparr>dm_artifacts := w\<rparr>, lk_sent = Suc (lk_sent link)\<rparr>"
  have keep: "link_stored ls inputs since until' d (link\<lparr>lk_sent := Suc (lk_sent link)\<rparr>)"
    using assms(1) by (simp add: link_stored_def)
  have next': "link_stored ls inputs since until' d ?link" "link_committed ls inputs since until' d ?link"
    using ok good(2) by (auto simp: link_stored_def link_committed_def)
  show ?thesis
    by (rule exchange_lawI [where d = "(lk_daemon link)\<lparr>dm_artifacts := w\<rparr>"])
      (rule served(1), rule served(2), rule served(3), rule keep, rule next'(1), simp add: good(1) next'(2), erule link_losses [OF ok])
qed

interpretation link: upload_service "link_env ls" "ls_client ls" inputs lk_sent "\<lambda>n. ls_network ls n \<noteq> Delivered"
    "as_max_chunk_size (st_store (ls_settings ls))" "link_ready ls inputs since until'" "link_uploading ls inputs since until'"
    "link_stored ls inputs since until'" "link_committed ls inputs since until'"
  for ls inputs since until'
proof (unfold_locales, goal_cases)
  case (1 s)
  then show ?case by (simp add: link_env_def)
next
  case (2 request s s' r)
  then show ?case by (auto simp: link_env_def exchange_def split: Delivery.splits prod.splits)
next
  case (3 s)
  then have "link_ok ls inputs since until'" by (simp add: link_ready_def)
  then show ?case by (simp add: link_env_def link_okD(3))
next
  case (8 s)
  then have "link_ok ls inputs since until'" by (simp add: link_ready_def)
  then have "upload_ok (link_upload ls inputs since until')" by (rule link_okD(12))
  then show ?case by (simp add: upload_ok_def link_upload_def prepare_request_def)
next
  case (9 d t held s)
  then show ?case unfolding link_uploading_def link_ready_def by blast
next
  case (10 d s)
  then show ?case unfolding link_stored_def link_ready_def by blast
next
  case (11 d t held s)
  then show ?case unfolding link_uploading_def link_stored_def using session_holds_mono by blast
qed (rule link_hello link_prepares link_pushes link_commits; assumption)+

section \<open>The upload gets through\<close>

lemma committed_artifact:
  assumes ok: "link_ok ls inputs since until'" and "link_committed ls inputs since until' d link"
  shows "\<exists>s. live (w_state (dm_artifacts (lk_daemon link))) d = Some s \<and> us_committed s \<and>
    w_files (dm_artifacts (lk_daemon link)) (us_file_path s) = Some (up_artifact inputs)"
proof -
  let ?P = "link_upload ls inputs since until'" and ?w = "dm_artifacts (lk_daemon link)"
  obtain t s content where s: "live (w_state ?w) d = Some s" "session_fit ?P d t True s"
      "w_files ?w (session_file_path (pu_store ?P) d) = Some content" and content: "file_fit ?P s content"
    using assms(2) by (auto simp: link_committed_def session_holds_def)
  have "covered (us_received_ranges s) = {0 ..< length (pu_artifact ?P)}" "us_committed s" "us_file_path s = session_file_path (pu_store ?P) d"
    using s(2) by (auto simp: session_fit_def)
  moreover from this(1) have "content = pu_artifact ?P" using content by (intro nth_equalityI) (auto simp: file_fit_def)
  ultimately show ?thesis using s(1,3) by (simp add: link_upload_def)
qed

text \<open>
  C2: the upload of the command line client gets through an unreliable link: if the daemon is ready for
  it, and from the tenth exchange on no three exchanges in a row are lost, whether the requests or the
  answers, then the client's upload phase ends with success, and the daemon's store has the session it
  names, committed, and its file is byte for byte the artifact of the client, however often the client
  had to send a request again that the daemon had already acted on.
\<close>

theorem upload_survives_losses:
  assumes "link_ready ls inputs since until' link"
    and "\<And>m. lk_sent link + 9 \<le> m \<Longrightarrow> Delivered \<in> {ls_network ls m, ls_network ls (m + 1), ls_network ls (m + 2)}"
  shows "\<exists>link' result s.
    run_upload_phase_with_resume (link_env ls) (ls_client ls) inputs link = Some (link', Inr result) \<and>
    live (w_state (dm_artifacts (lk_daemon link'))) (ur_deploy_id result) = Some s \<and> us_committed s \<and>
    w_files (dm_artifacts (lk_daemon link')) (us_file_path s) = Some (up_artifact inputs)"
proof -
  have ok: "link_ok ls inputs since until'" using assms(1) by (simp add: link_ready_def)
  have "\<not> (\<exists>m\<ge>lk_sent link + 9. ls_network ls m \<noteq> Delivered \<and> ls_network ls (m + 1) \<noteq> Delivered \<and> ls_network ls (m + 2) \<noteq> Delivered)"
    using assms(2) by (metis insertE singletonD)
  from link.upload_survives [OF assms(1), unfolded link.three_lost_def, OF this] committed_artifact [OF ok] show ?thesis by blast
qed

section \<open>Witness\<close>

text \<open>JSON values as the messages they stand for, and a link on which two of three exchanges are lost.\<close>

datatype ExampleValue =
    V_Null
  | V_Hello HelloNegotiateRequest
  | V_Prepare DeployPrepareRequest
  | V_Commit ArtifactCommitRequest
  | V_Command CommandStartRequest
  | V_Response ResponsePayload

definition sum_json :: "ExampleValue Json" where
  "sum_json =
     \<lparr>js_null = V_Null, js_encode = V_Response, js_hello = (\<lambda>v. case v of V_Hello x \<Rightarrow> Inr x | _ \<Rightarrow> Inl ''type''),
      js_prepare = (\<lambda>v. case v of V_Prepare x \<Rightarrow> Inr x | _ \<Rightarrow> Inl ''type''), js_push = (\<lambda>_. Inl ''type''),
      js_commit = (\<lambda>v. case v of V_Commit x \<Rightarrow> Inr x | _ \<Rightarrow> Inl ''type''),
      js_command = (\<lambda>v. case v of V_Command x \<Rightarrow> Inr x | _ \<Rightarrow> Inl ''type''), js_state = (\<lambda>_. Inl ''type''),
      js_services = (\<lambda>_. Inl ''type''), js_cancel = (\<lambda>_. Inl ''type''), js_logs = (\<lambda>_. Inl ''type''), js_rpc = (\<lambda>_. Inl ''type''),
      js_cert_inspect = (\<lambda>_. Inl ''type''), js_cert_upload = (\<lambda>_. Inl ''type'')\<rparr>"

definition sum_client :: "ExampleValue ClientJson" where
  "sum_client =
     \<lparr>cj_hello = V_Hello, cj_prepare = V_Prepare, cj_commit = V_Commit, cj_command = V_Command,
      cj_hello_response = (\<lambda>v. case v of V_Response (R_Hello x) \<Rightarrow> Inr x | _ \<Rightarrow> Inl ''type''),
      cj_prepare_response = (\<lambda>v. case v of V_Response (R_Prepare x) \<Rightarrow> Inr x | _ \<Rightarrow> Inl ''type''),
      cj_push_ack = (\<lambda>v. case v of V_Response (R_Push x) \<Rightarrow> Inr x | _ \<Rightarrow> Inl ''type''),
      cj_commit_response = (\<lambda>v. case v of V_Response (R_Commit x) \<Rightarrow> Inr x | _ \<Rightarrow> Inl ''type''),
      cj_start_accepted = (\<lambda>_. Inl ''type''), cj_event = (\<lambda>_. Inl ''type'')\<rparr>"

definition tagged_sha :: "bytes \<Rightarrow> string" where
  "tagged_sha content = CHR ''0'' # example_sha content"

definition lossy_link :: "ExampleValue LinkSetup" where
  "lossy_link =
     \<lparr>ls_json = sum_json, ls_client = sum_client,
      ls_settings = example_settings\<lparr>st_store := new_store [''root''] 900 3600 4 (1024 * 1024) 2 4096\<rparr>,
      ls_auth = local_admin ''a'', ls_surroundings = (\<lambda>_. example_surroundings\<lparr>su_sha := tagged_sha\<rparr>),
      ls_network = (\<lambda>n. [RequestLost [''reset''], ResponseLost [''reset''], Delivered] ! (n mod 3)),
      ls_uuid = (\<lambda>n. if even n then 1 else 2), ls_version_supported = (\<lambda>_. Inr True), ls_sha = tagged_sha\<rparr>"

definition lossy_inputs :: UploadPhaseInputs where
  "lossy_inputs =
     \<lparr>up_name = ''svc'', up_app_type = ''cli'', up_target = [], up_policy = [], up_artifact = [65, 66],
      up_artifact_digest = ''0AB'', up_artifact_size = 2, up_manifest_digest = ''m'', up_idempotency_key = ''k'',
      up_correlation_id = 9\<rparr>"

lemma lossy_cases: "n mod 3 = 0 \<or> n mod 3 = 1 \<or> n mod 3 = (2 :: nat)"
  by presburger

lemma lossy_link_ready: "link_ready lossy_link lossy_inputs 1 1 \<lparr>lk_daemon = example_daemon, lk_sent = 0\<rparr>"
proof -
  note example = lossy_link_def lossy_inputs_def example_settings_def example_surroundings_def example_config_def default_RuntimeConfig_def
  have "json_faithful sum_json sum_client" by (simp add: json_faithful_def sum_json_def sum_client_def)
  moreover have "ls_network lossy_link n \<in> {RequestLost e, ResponseLost e} \<Longrightarrow> \<not> contains_unauthorized_marker e" for n e
    using lossy_cases [of n] by (auto simp: lossy_link_def contains_unauthorized_marker_def)
  moreover have "ls_uuid lossy_link n \<noteq> 0" for n
    by (simp add: lossy_link_def)
  moreover have "\<not> trim_is_empty (tagged_sha b)" for b
    unfolding tagged_sha_def by (rule not_blank_digit) simp_all
  moreover have "validate_DeployPrepareRequest (prepare_request lossy_inputs) = Inr ()"
    by (simp add: validate_simps valid_prepare_def prepare_request_def lossy_inputs_def)
  moreover have "upload_ok (link_upload lossy_link lossy_inputs 1 1)"
    by (simp add: upload_ok_def link_upload_def example prepare_request_def new_store_def tagged_sha_def example_sha_def char_of_def bit_Suc_0_iff)
  ultimately have "link_ok lossy_link lossy_inputs 1 1"
    unfolding link_ok_def by (simp add: example local_admin_def in_window_def link_upload_def new_store_def)
  moreover have "can_start (link_upload lossy_link lossy_inputs 1 1) empty_world"
    by (simp add: can_start_def store_fit_def foreign_committed_def link_upload_def example new_store_def empty_world_def store_wf_def bt_wf_def)
  ultimately show ?thesis
    by (simp add: link_ready_def example_daemon_def empty_world_def)
qed

theorem upload_survives_losses_witness:
  "\<exists>link' result s.
    run_upload_phase_with_resume (link_env lossy_link) (ls_client lossy_link) lossy_inputs
      \<lparr>lk_daemon = example_daemon, lk_sent = 0\<rparr> = Some (link', Inr result) \<and>
    live (w_state (dm_artifacts (lk_daemon link'))) (ur_deploy_id result) = Some s \<and> us_committed s \<and>
    w_files (dm_artifacts (lk_daemon link')) (us_file_path s) = Some [65, 66]"
proof -
  have "Delivered \<in> {ls_network lossy_link m, ls_network lossy_link (m + 1), ls_network lossy_link (m + 2)}" for m
    using lossy_cases [of m] by (auto simp: lossy_link_def mod_Suc)
  from upload_survives_losses [OF lossy_link_ready this] show ?thesis by (simp add: lossy_inputs_def)
qed

end
