(* ===== verification/Retained_Logs.thy ===== *)
theory Retained_Logs
  imports Imago_Errors Log_Buffer Rust_Text
begin

text \<open>
  The logs that are kept of stopped services
  (\<^verbatim>\<open>imagod-control/src/service_supervisor/retained_file_store.rs\<close>): one file per service, replaced as a
  whole, and an index of them that is bounded by evicting the oldest and rebuilt when the daemon starts.

  The CBOR library, SHA-256, the clock and the names of temporary files are parameters, and so is the
  outcome of every system call. The directory is the list of its entries in the order in which reading
  it yields them.
\<close>

section \<open>Files and messages\<close>

datatype Node = RegularFile bytes "u64 option" | Subdirectory

type_synonym directory = "(string \<times> Node) list"

definition dir_set :: "string \<Rightarrow> Node \<Rightarrow> directory \<Rightarrow> directory" where
  "dir_set name node dir =
     (if bt_contains dir name then bt_update name (\<lambda>_. node) dir else dir @ [(name, node)])"

definition dir_del :: "string \<Rightarrow> directory \<Rightarrow> directory" where
  "dir_del name dir = bt_remove name dir"

record StoredEvent =
  se_stream :: ServiceLogStream
  se_timestamp_unix_ms :: u64
  se_bytes :: bytes

record StoredRetainedLog =
  sl_version :: u32
  sl_service_name :: string
  sl_events :: "StoredEvent list"

definition STORED_RETAINED_LOG_VERSION :: u32 where
  "STORED_RETAINED_LOG_VERSION = 1"

datatype RetainedCall =
    CreateDir
  | ReadDir
  | NextEntry nat
  | ReadFile string
  | StatFile string
  | WriteTmp
  | RenameTmp
  | RemoveFile string

text \<open>
  What one operation meets: the calls that fail, with their texts; what a failed write leaves behind; the
  time of the clock and of the written file; a fresh UUID.
\<close>

record RetainedEnv =
  re_fails :: "RetainedCall \<Rightarrow> string option"
  re_partial :: "bytes option"
  re_now_unix_ms :: u64
  re_modified :: "u64 option"
  re_uuid :: string
  re_sha :: "bytes \<Rightarrow> string"
  re_to_cbor :: "StoredRetainedLog \<Rightarrow> string + bytes"
  re_from_cbor :: "bytes \<Rightarrow> string + StoredRetainedLog"

definition STAGE_LOGS :: string where
  "STAGE_LOGS = ''service.logs''"

definition retained_store_error :: "string \<Rightarrow> ImagodError" where
  "retained_store_error message = new_error Internal STAGE_LOGS message"

section \<open>Names of files\<close>

text \<open>
  A character outside of ASCII is its first byte here, the bytes that continue it are dropped.
\<close>

definition stable_service_file_stem :: "(bytes \<Rightarrow> string) \<Rightarrow> string \<Rightarrow> string" where
  "stable_service_file_stem sha service_name =
     (let chars = filter (\<lambda>c. \<not> (128 \<le> (of_char c :: nat) \<and> (of_char c :: nat) < 192)) service_name;
          mapped = map (\<lambda>c. if is_ascii_alphanumeric c \<or> c = CHR ''-'' \<or> c = CHR ''_'' then c else CHR ''_'') chars;
          service_component = (if mapped = [] then ''service'' else mapped)
      in take 48 service_component @ ''.'' @ take 16 (sha (as_bytes service_name)))"

definition file_path_for :: "(bytes \<Rightarrow> string) \<Rightarrow> string \<Rightarrow> string" where
  "file_path_for sha service_name = stable_service_file_stem sha service_name @ ''.cbor''"

definition tmp_path_for :: "RetainedEnv \<Rightarrow> string \<Rightarrow> string" where
  "tmp_path_for env service_name =
     ''.'' @ stable_service_file_stem (re_sha env) service_name @ ''.tmp-'' @ re_uuid env @ ''.cbor''"

fun is_retained_store_file :: "string \<Rightarrow> Node \<Rightarrow> bool" where
  "is_retained_store_file name (RegularFile _ _) = (extension name = Some ''cbor'')"
| "is_retained_store_file name Subdirectory = False"

definition stored_service_name :: "StoredRetainedLog \<Rightarrow> string \<Rightarrow> string option" where
  "stored_service_name stored name =
     (if \<not> trim_is_empty (sl_service_name stored) then Some (sl_service_name stored)
      else case rsplit_once CHR ''.'' (file_stem name) of
        None \<Rightarrow> None
      | Some (legacy_name, _) \<Rightarrow> if trim_is_empty legacy_name then None else Some legacy_name)"

section \<open>The store\<close>

record RetainedFileEntry =
  rf_service_name :: string
  rf_file_path :: string
  rf_file_size_bytes :: nat
  rf_updated_at_unix_ms :: u64

record RetainedFileLogStore =
  rl_retained_dir :: string
  rl_capacity_bytes :: nat
  rl_total_bytes :: nat
  rl_entries :: "(string, RetainedFileEntry) btree"

definition shown :: "string \<Rightarrow> string \<Rightarrow> string" where
  "shown retained_dir name = retained_dir @ ''/'' @ name"

definition retained_service_names :: "RetainedFileLogStore \<Rightarrow> string list" where
  "retained_service_names store = map fst (rl_entries store)"

text \<open>\<open>min_by\<close> on the time and then the name; it keeps the first of equal elements.\<close>

definition older :: "RetainedFileEntry \<Rightarrow> RetainedFileEntry \<Rightarrow> bool" where
  "older a b \<longleftrightarrow> rf_updated_at_unix_ms a < rf_updated_at_unix_ms b \<or>
     rf_updated_at_unix_ms a = rf_updated_at_unix_ms b \<and> rf_service_name a \<le> rf_service_name b"

fun oldest :: "(string \<times> RetainedFileEntry) list \<Rightarrow> (string \<times> RetainedFileEntry) option" where
  "oldest [] = None"
| "oldest (x # xs) = (case oldest xs of None \<Rightarrow> Some x | Some y \<Rightarrow> if older (snd x) (snd y) then Some x else Some y)"

definition drop_entry :: "string \<Rightarrow> RetainedFileLogStore \<Rightarrow> RetainedFileLogStore" where
  "drop_entry service_name store =
     (case bt_get (rl_entries store) service_name of
        None \<Rightarrow> store
      | Some previous \<Rightarrow>
          store\<lparr>rl_total_bytes := rl_total_bytes store - rf_file_size_bytes previous,
            rl_entries := bt_remove service_name (rl_entries store)\<rparr>)"

lemma oldest_mem: "oldest xs = Some x \<Longrightarrow> x \<in> set xs"
  by (induction xs) (auto split: option.splits if_splits)

lemma oldest_None: "oldest xs = None \<longleftrightarrow> xs = []"
  by (cases xs) (auto split: option.split)

lemma drop_entry_shrinks:
  "bt_get (rl_entries store) name = Some e \<Longrightarrow> length (rl_entries (drop_entry name store)) < length (rl_entries store)"
  by (auto simp: drop_entry_def bt_remove_def intro!: length_filter_less dest: map_of_SomeD)

text \<open>The results of the operations: the store and the directory, and whether it went well.\<close>

type_synonym retained = "RetainedFileLogStore \<times> directory"

function evict_if_needed :: "RetainedEnv \<Rightarrow> retained \<Rightarrow> retained \<times> unit result" where
  "evict_if_needed env (store, dir) =
     (if rl_total_bytes store > rl_capacity_bytes store then
        case oldest (rl_entries store) of
          None \<Rightarrow> ((store, dir), Inr ())
        | Some (oldest_service_name, _) \<Rightarrow>
            (case bt_get (rl_entries store) oldest_service_name of
               None \<Rightarrow> ((store, dir), Inr ())
             | Some removed \<Rightarrow>
                 (case re_fails env (RemoveFile (rf_file_path removed)) of
                    Some err \<Rightarrow> ((drop_entry oldest_service_name store, dir), Inl (retained_store_error
                      (''failed to remove retained logs file '' @ shown (rl_retained_dir store) (rf_file_path removed) @ '': '' @ err)))
                  | None \<Rightarrow> evict_if_needed env (drop_entry oldest_service_name store, dir_del (rf_file_path removed) dir)))
      else ((store, dir), Inr ()))"
  by pat_completeness auto
termination
  by (relation "measure (\<lambda>(env, store, dir). length (rl_entries store))") (simp_all add: drop_entry_shrinks)

declare evict_if_needed.simps [simp del]

definition stored_log :: "string \<Rightarrow> ServiceLogEvent list \<Rightarrow> StoredRetainedLog" where
  "stored_log service_name events =
     \<lparr>sl_version = STORED_RETAINED_LOG_VERSION, sl_service_name = service_name,
      sl_events = map (\<lambda>event. \<lparr>se_stream = ev_stream event, se_timestamp_unix_ms = ev_timestamp_unix_ms event,
        se_bytes = ev_bytes event\<rparr>) events\<rparr>"

definition put_entry :: "RetainedFileEntry \<Rightarrow> RetainedFileLogStore \<Rightarrow> RetainedFileLogStore" where
  "put_entry entry store =
     (let store = drop_entry (rf_service_name entry) store in
      store\<lparr>rl_total_bytes := usize_saturating_add (rl_total_bytes store) (rf_file_size_bytes entry),
        rl_entries := bt_insert (rf_service_name entry) entry (rl_entries store)\<rparr>)"

definition upsert :: "RetainedEnv \<Rightarrow> string \<Rightarrow> ServiceLogEvent list \<Rightarrow> retained \<Rightarrow> retained \<times> unit result" where
  "upsert env service_name snapshot_events r =
     (case r of (store, dir) \<Rightarrow>
      case re_to_cbor env (stored_log service_name snapshot_events) of
        Inl err \<Rightarrow> (r, Inl (retained_store_error
          (''failed to encode retained logs for service '' @ quoted service_name @ '': '' @ err)))
      | Inr payload \<Rightarrow>
          let file_path = file_path_for (re_sha env) service_name; tmp_path = tmp_path_for env service_name in
          case re_fails env CreateDir of
            Some err \<Rightarrow> (r, Inl (retained_store_error (''failed to create retained logs dir '' @ rl_retained_dir store @ '': '' @ err)))
          | None \<Rightarrow>
          case re_fails env WriteTmp of
            Some err \<Rightarrow> ((store, case re_partial env of None \<Rightarrow> dir | Some part \<Rightarrow> dir_set tmp_path (RegularFile part (re_modified env)) dir),
              Inl (retained_store_error (''failed to write retained logs temp file '' @ shown (rl_retained_dir store) tmp_path @ '': '' @ err)))
          | None \<Rightarrow>
          case re_fails env RenameTmp of
            Some err \<Rightarrow> ((store, if re_fails env (RemoveFile tmp_path) = None then dir_del tmp_path dir
                else dir_set tmp_path (RegularFile payload (re_modified env)) dir),
              Inl (retained_store_error (''failed to replace retained logs file '' @ shown (rl_retained_dir store) file_path @ '': '' @ err)))
          | None \<Rightarrow>
              evict_if_needed env
                (put_entry \<lparr>rf_service_name = service_name, rf_file_path = file_path, rf_file_size_bytes = length payload,
                   rf_updated_at_unix_ms = re_now_unix_ms env\<rparr> store,
                 dir_set file_path (RegularFile payload (re_modified env)) (dir_del tmp_path dir)))"

definition stored_to_event :: "StoredEvent \<Rightarrow> ServiceLogEvent" where
  "stored_to_event event =
     \<lparr>ev_stream = se_stream event, ev_bytes = se_bytes event, ev_timestamp_unix_ms = se_timestamp_unix_ms event\<rparr>"

definition retained_snapshot_events :: "RetainedEnv \<Rightarrow> string \<Rightarrow> retained \<Rightarrow> ServiceLogEvent list option result" where
  "retained_snapshot_events env service_name r =
     (case r of (store, dir) \<Rightarrow>
      case bt_get (rl_entries store) service_name of
        None \<Rightarrow> Inr None
      | Some entry \<Rightarrow>
          (case re_fails env (ReadFile (rf_file_path entry)) of
             Some err \<Rightarrow> Inl (retained_store_error (''failed to read retained logs file '' @ shown (rl_retained_dir store) (rf_file_path entry) @ '': '' @ err))
           | None \<Rightarrow>
               (case map_of dir (rf_file_path entry) of
                  None \<Rightarrow> Inr None
                | Some Subdirectory \<Rightarrow> Inl (retained_store_error (''failed to read retained logs file '' @ shown (rl_retained_dir store) (rf_file_path entry) @
                    '': Is a directory (os error 21)''))
                | Some (RegularFile payload _) \<Rightarrow>
                    (case re_from_cbor env payload of
                       Inl err \<Rightarrow> Inl (retained_store_error
                         (''failed to decode retained logs for service '' @ quoted service_name @ '': '' @ err))
                     | Inr stored \<Rightarrow>
                         if sl_version stored \<noteq> STORED_RETAINED_LOG_VERSION
                         then Inl (retained_store_error (''unsupported retained logs version '' @
                           decimal (unat (sl_version stored)) @ '' for service '' @ quoted service_name))
                         else Inr (Some (map stored_to_event (sl_events stored)))))))"

section \<open>Start of the daemon\<close>

fun remove_tmp_entries :: "RetainedEnv \<Rightarrow> string \<Rightarrow> nat \<Rightarrow> directory \<Rightarrow> directory \<Rightarrow> directory \<times> unit result" where
  "remove_tmp_entries env retained_dir i [] dir = (dir, Inr ())"
| "remove_tmp_entries env retained_dir i ((name, node) # listing) dir =
     (case re_fails env (NextEntry i) of
        Some err \<Rightarrow> (dir, Inl (retained_store_error (''failed to read entry in retained logs dir '' @ retained_dir @ '': '' @ err)))
      | None \<Rightarrow>
          if \<not> contains_text ''.tmp-'' name then remove_tmp_entries env retained_dir (Suc i) listing dir
          else case re_fails env (RemoveFile name) of
            Some err \<Rightarrow> (dir, Inl (retained_store_error
              (''failed to remove temporary retained '' @ (if node = Subdirectory then ''logs dir '' else ''log file '') @ shown retained_dir name @ '': '' @ err)))
          | None \<Rightarrow> remove_tmp_entries env retained_dir (Suc i) listing (dir_del name dir))"

definition initialize_retained_dir :: "RetainedEnv \<Rightarrow> string \<Rightarrow> directory \<Rightarrow> directory \<times> unit result" where
  "initialize_retained_dir env retained_dir dir =
     (case re_fails env CreateDir of
        Some err \<Rightarrow> (dir, Inl (retained_store_error (''failed to create retained logs dir '' @ retained_dir @ '': '' @ err)))
      | None \<Rightarrow>
          (case re_fails env ReadDir of
             Some err \<Rightarrow> (dir, Inl (retained_store_error (''failed to read retained logs dir '' @ retained_dir @ '': '' @ err)))
           | None \<Rightarrow> remove_tmp_entries env retained_dir 0 dir dir))"

text \<open>A file that cannot be used is removed, whether or not that succeeds.\<close>

definition discard :: "RetainedEnv \<Rightarrow> string \<Rightarrow> directory \<Rightarrow> directory" where
  "discard env name dir = (if re_fails env (RemoveFile name) = None then dir_del name dir else dir)"

fun rebuild_loop :: "RetainedEnv \<Rightarrow> nat \<Rightarrow> directory \<Rightarrow> retained \<Rightarrow> retained \<times> unit result" where
  "rebuild_loop env i [] r = (r, Inr ())"
| "rebuild_loop env i ((name, node) # listing) (store, dir) =
     (case re_fails env (NextEntry i) of
        Some err \<Rightarrow> ((store, dir), Inl (retained_store_error (''failed to read entry in retained logs dir '' @ rl_retained_dir store @ '': '' @ err)))
      | None \<Rightarrow>
      case node of
        Subdirectory \<Rightarrow> rebuild_loop env (Suc i) listing (store, dir)
      | RegularFile payload modified \<Rightarrow>
          if \<not> is_retained_store_file name node then rebuild_loop env (Suc i) listing (store, dir)
          else case re_fails env (ReadFile name) of
            Some err \<Rightarrow> ((store, dir), Inl (retained_store_error (''failed to read retained logs file '' @ shown (rl_retained_dir store) name @ '': '' @ err)))
          | None \<Rightarrow>
          case re_from_cbor env payload of
            Inl _ \<Rightarrow> rebuild_loop env (Suc i) listing (store, discard env name dir)
          | Inr stored \<Rightarrow>
              if sl_version stored \<noteq> STORED_RETAINED_LOG_VERSION
              then rebuild_loop env (Suc i) listing (store, discard env name dir)
              else case stored_service_name stored name of
                None \<Rightarrow> rebuild_loop env (Suc i) listing (store, discard env name dir)
              | Some service_name \<Rightarrow>
                  (case re_fails env (StatFile name) of
                     Some err \<Rightarrow> ((store, dir), Inl (retained_store_error (''failed to stat retained logs file '' @ shown (rl_retained_dir store) name @ '': '' @ err)))
                   | None \<Rightarrow>
                       rebuild_loop env (Suc i) listing
                         (put_entry \<lparr>rf_service_name = service_name, rf_file_path = name, rf_file_size_bytes = length payload,
                            rf_updated_at_unix_ms = (case modified of Some t \<Rightarrow> t | None \<Rightarrow> re_now_unix_ms env)\<rparr> store, dir)))"

definition rebuild_index_from_disk :: "RetainedEnv \<Rightarrow> retained \<Rightarrow> retained \<times> unit result" where
  "rebuild_index_from_disk env r =
     (case r of (store, dir) \<Rightarrow>
      let store = store\<lparr>rl_total_bytes := 0, rl_entries := []\<rparr> in
      case re_fails env ReadDir of
        Some err \<Rightarrow> ((store, dir), Inl (retained_store_error (''failed to read retained logs dir '' @ rl_retained_dir store @ '': '' @ err)))
      | None \<Rightarrow> rebuild_loop env 0 dir (store, dir))"

definition retained_store_new :: "RetainedEnv \<Rightarrow> string \<Rightarrow> nat \<Rightarrow> directory \<Rightarrow> retained \<times> unit result" where
  "retained_store_new env retained_dir capacity_bytes dir =
     (let store = \<lparr>rl_retained_dir = retained_dir, rl_capacity_bytes = max capacity_bytes 1, rl_total_bytes = 0, rl_entries = []\<rparr> in
      case initialize_retained_dir env retained_dir dir of
        (dir, Inl e) \<Rightarrow> ((store, dir), Inl e)
      | (dir, Inr _) \<Rightarrow>
          (case rebuild_index_from_disk env (store, dir) of
             (r, Inl e) \<Rightarrow> (r, Inl e)
           | (r, Inr _) \<Rightarrow> evict_if_needed env r))"

section \<open>Names\<close>

text \<open>What the digest is known to be: hexadecimal digits.\<close>

definition hex_text :: "string \<Rightarrow> bool" where
  "hex_text s \<longleftrightarrow> set s \<subseteq> set ''0123456789abcdef''"

lemma file_path_extension: "extension (file_path_for sha name) = Some ''cbor''"
proof -
  have "rsplit_once CHR ''.'' (stable_service_file_stem sha name @ ''.'' @ ''cbor'') = Some (stable_service_file_stem sha name, ''cbor'')"
    by (rule rsplit_once_append) simp
  then show ?thesis by (simp add: extension_def file_path_for_def stable_service_file_stem_def Let_def)
qed

definition file_component :: "string \<Rightarrow> string" where
  "file_component name =
     (let mapped = map (\<lambda>c. if is_ascii_alphanumeric c \<or> c = CHR ''-'' \<or> c = CHR ''_'' then c else CHR ''_'')
        (filter (\<lambda>c. \<not> (128 \<le> (of_char c :: nat) \<and> (of_char c :: nat) < 192)) name)
      in take 48 (if mapped = [] then ''service'' else mapped))"

lemma file_path_parts: "file_path_for sha name = file_component name @ ''.'' @ take 16 (sha (as_bytes name)) @ ''.cbor''"
  by (simp add: file_path_for_def stable_service_file_stem_def file_component_def Let_def)

lemma file_component_plain: "CHR ''.'' \<notin> set (file_component name)"
  by (auto simp: file_component_def Let_def is_ascii_alphanumeric_def dest!: in_set_takeD split: if_splits)

lemma file_path_not_tmp:
  assumes "hex_text (sha (as_bytes name))"
  shows "\<not> contains_text ''.tmp-'' (file_path_for sha name)"
proof
  let ?tail = "dropWhile (\<lambda>c. c \<noteq> CHR ''.'')"
  assume "contains_text ''.tmp-'' (file_path_for sha name)"
  then obtain a b where "file_path_for sha name = a @ ''.tmp-'' @ b" unfolding contains_text_iff by blast
  then have "CHR ''-'' \<in> set (?tail (file_path_for sha name))" by (auto simp: dropWhile_append)
  moreover have "?tail (file_path_for sha name) = ''.'' @ take 16 (sha (as_bytes name)) @ ''.cbor''"
    unfolding file_path_parts using file_component_plain [of name] by (simp add: dropWhile_append3 dropWhile_append)
  ultimately show False using assms by (auto simp: hex_text_def dest!: in_set_takeD)
qed

lemma tmp_path_is_tmp: "contains_text ''.tmp-'' (tmp_path_for env name)"
  unfolding contains_text_iff tmp_path_for_def by (metis append.assoc)

section \<open>The index and the directory agree\<close>

definition file_of :: "(bytes \<Rightarrow> string + StoredRetainedLog) \<Rightarrow> directory \<Rightarrow> string \<Rightarrow> string \<Rightarrow> bytes \<Rightarrow> bool" where
  "file_of from_cbor dir path service_name content \<longleftrightarrow>
     (\<exists>modified. map_of dir path = Some (RegularFile content modified)) \<and>
     (\<exists>stored. from_cbor content = Inr stored \<and> sl_version stored = STORED_RETAINED_LOG_VERSION \<and>
        sl_service_name stored = service_name)"

definition log_entry_ok ::
    "(bytes \<Rightarrow> string) \<Rightarrow> (bytes \<Rightarrow> string + StoredRetainedLog) \<Rightarrow> directory \<Rightarrow> string \<Rightarrow> RetainedFileEntry \<Rightarrow> bool" where
  "log_entry_ok sha from_cbor dir name e \<longleftrightarrow> rf_service_name e = name \<and> rf_file_path e = file_path_for sha name \<and>
     \<not> trim_is_empty name \<and> (\<exists>content. rf_file_size_bytes e = length content \<and> file_of from_cbor dir (rf_file_path e) name content)"

fun indexed_ok :: "(bytes \<Rightarrow> string) \<Rightarrow> (bytes \<Rightarrow> string + StoredRetainedLog) \<Rightarrow> retained \<Rightarrow> bool" where
  "indexed_ok sha from_cbor (store, dir) \<longleftrightarrow> bt_wf (rl_entries store) \<and> distinct (map fst dir) \<and>
     inj_on (file_path_for sha) (dom (bt_get (rl_entries store))) \<and>
     rl_total_bytes store = sum_list (map (rf_file_size_bytes \<circ> snd) (rl_entries store)) \<and>
     (\<forall>name e. bt_get (rl_entries store) name = Some e \<longrightarrow> log_entry_ok sha from_cbor dir name e)"

definition retained_file :: "string \<Rightarrow> Node \<Rightarrow> bool" where
  "retained_file name node \<longleftrightarrow> is_retained_store_file name node \<and> \<not> contains_text ''.tmp-'' name"

fun no_strays :: "retained \<Rightarrow> bool" where
  "no_strays (store, dir) \<longleftrightarrow>
     (\<forall>name node. map_of dir name = Some node \<and> retained_file name node \<longrightarrow>
        (\<exists>n e. bt_get (rl_entries store) n = Some e \<and> rf_file_path e = name))"

lemma map_of_dir_set: "map_of (dir_set name node dir) = (map_of dir)(name \<mapsto> node)"
  by (cases "map_of dir name") (auto simp: dir_set_def bt_contains_def btree_simps fun_eq_iff map_add_def split: option.split)

lemma map_of_dir_del: "map_of (dir_del name dir) = (map_of dir)(name := None)"
  by (simp add: dir_del_def btree_simps)

lemma distinct_dir_set: "distinct (map fst dir) \<Longrightarrow> distinct (map fst (dir_set name node dir))"
  by (auto simp: dir_set_def bt_contains_def map_of_eq_None_iff)

lemma distinct_dir_del: "distinct (map fst dir) \<Longrightarrow> distinct (map fst (dir_del name dir))"
  by (simp add: dir_del_def bt_remove_def distinct_map_filter)

lemmas dir_simps = map_of_dir_set map_of_dir_del

lemma log_entry_ok_cong:
  "map_of dir' (rf_file_path e) = map_of dir (rf_file_path e) \<Longrightarrow> log_entry_ok sha from_cbor dir' name e = log_entry_ok sha from_cbor dir name e"
  by (simp add: log_entry_ok_def file_of_def)

lemma log_entry_ok_other:
  "rf_file_path e \<noteq> path \<Longrightarrow> log_entry_ok sha from_cbor (dir_del path dir) name e = log_entry_ok sha from_cbor dir name e"
  "rf_file_path e \<noteq> path \<Longrightarrow> log_entry_ok sha from_cbor (dir_set path node dir) name e = log_entry_ok sha from_cbor dir name e"
  by (simp_all add: log_entry_ok_def file_of_def dir_simps)

lemma sum_bt_remove:
  "distinct (map fst m) \<Longrightarrow> bt_get m k = Some v \<Longrightarrow>
    sum_list (map (f \<circ> snd) (bt_remove k m)) + f v = sum_list (map (f \<circ> snd) m)" for f :: "'a \<Rightarrow> nat"
proof (induction m)
  case (Cons x m)
  show ?case
  proof (cases "fst x = k")
    case True
    then have "bt_remove k m = m" unfolding bt_remove_def using Cons.prems(1)
      by (intro filter_True) (fastforce simp: image_iff)
    then show ?thesis using True Cons.prems(2) by (auto simp: bt_remove_def)
  qed (use Cons in \<open>auto simp: bt_remove_def split: prod.splits\<close>)
qed simp

lemma sum_bt_insert:
  "bt_get m k = None \<Longrightarrow> sum_list (map (f \<circ> snd) (bt_insert k v m)) = sum_list (map (f \<circ> snd) m) + f v" for f :: "'a \<Rightarrow> nat"
  by (induction m) (auto split: if_splits)

lemma drop_entry_ok:
  assumes "indexed_ok sha from_cbor (store, dir)"
  shows "indexed_ok sha from_cbor (drop_entry name store, dir)"
proof (cases "bt_get (rl_entries store) name")
  case None
  then show ?thesis using assms by (simp add: drop_entry_def)
next
  case (Some e)
  have wf: "bt_wf (rl_entries store)" using assms by simp
  have "inj_on (file_path_for sha) (dom (bt_get (rl_entries store)) - {name})"
    using assms by (auto intro: inj_on_subset)
  then show ?thesis
    using assms Some bt_wf_remove [OF wf] sum_bt_remove [OF bt_wf_distinct [OF wf] Some, of rf_file_size_bytes]
    by (auto simp: drop_entry_def btree_simps)
qed

lemma drop_entry_get: "bt_get (rl_entries (drop_entry name store)) = (bt_get (rl_entries store))(name := None)"
  by (auto simp: drop_entry_def btree_simps fun_eq_iff split: option.split)

lemma drop_file_ok:
  assumes ok: "indexed_ok sha from_cbor (store, dir)" and e: "bt_get (rl_entries store) name = Some e"
  shows "indexed_ok sha from_cbor (drop_entry name store, dir_del (rf_file_path e) dir)"
    and "no_strays (store, dir) \<Longrightarrow> no_strays (drop_entry name store, dir_del (rf_file_path e) dir)"
proof -
  have path: "rf_file_path e' = file_path_for sha n" if "bt_get (rl_entries store) n = Some e'" for n e'
    using ok that by (auto simp: log_entry_ok_def)
  have other: "rf_file_path e' \<noteq> rf_file_path e" if "bt_get (rl_entries store) n = Some e'" "n \<noteq> name" for n e'
    using ok that e path [OF that(1)] path [OF e] by (auto dest: inj_onD)
  have "log_entry_ok sha from_cbor (dir_del (rf_file_path e) dir) n e'" if "bt_get (rl_entries store) n = Some e'" "n \<noteq> name" for n e'
    using ok that other [OF that] by (simp add: log_entry_ok_other)
  then show "indexed_ok sha from_cbor (drop_entry name store, dir_del (rf_file_path e) dir)"
    using drop_entry_ok [OF ok, of name] by (auto simp: drop_entry_get distinct_dir_del split: if_splits)
  show "no_strays (store, dir) \<Longrightarrow> no_strays (drop_entry name store, dir_del (rf_file_path e) dir)"
    using e by (auto simp: drop_entry_get dir_simps) (metis option.inject)
qed

section \<open>Eviction\<close>

definition newest :: "RetainedFileLogStore \<Rightarrow> string \<Rightarrow> RetainedFileEntry \<Rightarrow> bool" where
  "newest store name e \<longleftrightarrow> bt_get (rl_entries store) name = Some e \<and>
     (\<forall>n e'. bt_get (rl_entries store) n = Some e' \<longrightarrow> n \<noteq> name \<longrightarrow> rf_updated_at_unix_ms e' < rf_updated_at_unix_ms e)"

lemma oldest_least: "oldest xs = Some x \<Longrightarrow> y \<in> set xs \<Longrightarrow> older (snd x) (snd y)"
proof (induction xs arbitrary: x)
  case (Cons z xs)
  have refl: "older e e" for e by (simp add: older_def)
  have trans: "older a b \<Longrightarrow> older b c \<Longrightarrow> older a c" for a b c unfolding older_def by force
  have total: "older a b \<or> older b a" for a b unfolding older_def by force
  show ?case
  proof (cases "oldest xs")
    case None
    then have "xs = []" by (simp add: oldest_None)
    then show ?thesis using Cons.prems refl by simp
  next
    case (Some u)
    then show ?thesis using Cons.prems Cons.IH [OF Some] refl trans total by (auto split: if_splits) blast+
  qed
qed simp

lemma oldest_not_newest:
  assumes "bt_wf (rl_entries store)" "oldest (rl_entries store) = Some (n, e')" "newest store name e"
    and "rl_capacity_bytes store < rl_total_bytes store" "rf_file_size_bytes e \<le> rl_capacity_bytes store"
    and "rl_total_bytes store = sum_list (map (rf_file_size_bytes \<circ> snd) (rl_entries store))"
  shows "n \<noteq> name"
proof
  assume n: "n = name"
  have least: "older e' (snd y)" if "y \<in> set (rl_entries store)" for y using oldest_least [OF assms(2) that] by simp
  have e': "bt_get (rl_entries store) name = Some e'"
    using oldest_mem [OF assms(2)] assms(1) n by (simp add: bt_get_iff)
  then have "e = e'" using assms(3) by (simp add: newest_def)
  then have "m = name" if "(m, f) \<in> set (rl_entries store)" for m f
    using least [OF that] assms(1,3) that by (fastforce simp: newest_def older_def bt_get_iff)
  then have "set (rl_entries store) \<subseteq> {(name, e)}"
    using e' \<open>e = e'\<close> assms(1) by (force simp flip: bt_get_iff)
  moreover have "distinct (rl_entries store)" using bt_wf_distinct [OF assms(1)] by (simp add: distinct_map)
  ultimately have "rl_entries store = [] \<or> rl_entries store = [(name, e)]"
    by (cases "rl_entries store") (auto simp: subset_singleton_iff)
  then show False using assms(4-6) by auto
qed

text \<open>What an eviction does, whatever its outcome.\<close>

definition evicted ::
    "(bytes \<Rightarrow> string) \<Rightarrow> (bytes \<Rightarrow> string + StoredRetainedLog) \<Rightarrow> retained \<Rightarrow> retained \<Rightarrow> unit result \<Rightarrow> bool" where
  "evicted sha from_cbor r r' res \<longleftrightarrow> indexed_ok sha from_cbor r' \<and>
     bt_get (rl_entries (fst r')) \<subseteq>\<^sub>m bt_get (rl_entries (fst r)) \<and>
     rl_retained_dir (fst r') = rl_retained_dir (fst r) \<and> rl_capacity_bytes (fst r') = rl_capacity_bytes (fst r) \<and>
     (res = Inr () \<longrightarrow> rl_total_bytes (fst r') \<le> rl_capacity_bytes (fst r') \<and> (no_strays r \<longrightarrow> no_strays r')) \<and>
     (\<forall>name e. newest (fst r) name e \<longrightarrow> rf_file_size_bytes e \<le> rl_capacity_bytes (fst r) \<longrightarrow> newest (fst r') name e) \<and>
     (\<forall>n e. bt_get (rl_entries (fst r')) n = Some e \<longrightarrow> map_of (snd r') (rf_file_path e) = map_of (snd r) (rf_file_path e))"

lemma newest_drop: "newest store name e \<Longrightarrow> n \<noteq> name \<Longrightarrow> newest (drop_entry n store) name e"
  by (auto simp: newest_def drop_entry_get)

lemma drop_entry_keeps:
  "rl_retained_dir (drop_entry n store) = rl_retained_dir store" "rl_capacity_bytes (drop_entry n store) = rl_capacity_bytes store"
  by (simp_all add: drop_entry_def split: option.split)

lemma indexed_path: "indexed_ok sha from_cbor (store, dir) \<Longrightarrow> bt_get (rl_entries store) n = Some e \<Longrightarrow> rf_file_path e = file_path_for sha n"
  by (auto simp: log_entry_ok_def)

lemma evict_drops:
  assumes ok: "indexed_ok sha from_cbor (store, dir)" and over: "rl_capacity_bytes store < rl_total_bytes store"
    and oldest: "oldest (rl_entries store) = Some (n, e0)"
  shows "bt_get (rl_entries store) n = Some e0" "bt_get (rl_entries (drop_entry n store)) \<subseteq>\<^sub>m bt_get (rl_entries store)"
    and "newest store name e \<Longrightarrow> rf_file_size_bytes e \<le> rl_capacity_bytes store \<Longrightarrow> newest (drop_entry n store) name e"
    and "bt_get (rl_entries (drop_entry n store)) m = Some e' \<Longrightarrow> rf_file_path e' \<noteq> rf_file_path e0"
proof -
  show get: "bt_get (rl_entries store) n = Some e0" using ok oldest_mem [OF oldest] by (simp add: bt_get_iff)
  show "bt_get (rl_entries (drop_entry n store)) \<subseteq>\<^sub>m bt_get (rl_entries store)" by (simp add: drop_entry_get map_le_def)
  show "newest (drop_entry n store) name e" if "newest store name e" "rf_file_size_bytes e \<le> rl_capacity_bytes store"
    using oldest_not_newest [OF _ oldest that(1) over that(2)] ok newest_drop [OF that(1)] by simp
  show "rf_file_path e' \<noteq> rf_file_path e0" if "bt_get (rl_entries (drop_entry n store)) m = Some e'"
  proof -
    have m: "bt_get (rl_entries store) m = Some e'" "m \<noteq> n" using that by (auto simp: drop_entry_get split: if_splits)
    then show ?thesis
      using indexed_path [OF ok m(1)] indexed_path [OF ok get] ok get by (auto dest: inj_onD)
  qed
qed

lemma evict_outcome:
  assumes "indexed_ok sha from_cbor r" "evict_if_needed env r = (r', res)"
  shows "evicted sha from_cbor r r' res"
  using assms
proof (induction env r arbitrary: r' rule: evict_if_needed.induct)
  case (1 env store dir)
  note eq = "1.prems"(2) [unfolded evict_if_needed.simps [of env store dir]]
  show ?case
  proof (cases "rl_capacity_bytes store < rl_total_bytes store")
    case False
    then have "r' = (store, dir)" "res = Inr ()" using eq by auto
    then show ?thesis using False "1.prems"(1) by (auto simp: evicted_def)
  next
    case True
    obtain n e0 where oldest: "oldest (rl_entries store) = Some (n, e0)"
      using True "1.prems"(1) by (cases "oldest (rl_entries store)") (auto simp: oldest_None)
    note drops = evict_drops [OF "1.prems"(1) True oldest]
    show ?thesis
    proof (cases "re_fails env (RemoveFile (rf_file_path e0))")
      case (Some err)
      then have "r' = (drop_entry n store, dir)" "res \<noteq> Inr ()" using eq True oldest drops(1) by auto
      then show ?thesis
        using drop_entry_ok [OF "1.prems"(1), of n] drops by (simp add: evicted_def drop_entry_keeps del: indexed_ok.simps)
    next
      case None
      let ?r1 = "(drop_entry n store, dir_del (rf_file_path e0) dir)"
      note step = drop_file_ok [OF "1.prems"(1) drops(1)]
      have "evict_if_needed env ?r1 = (r', res)" using eq True oldest drops(1) None by simp
      then have IH: "evicted sha from_cbor ?r1 r' res"
        using "1.IH" [OF True oldest refl drops(1) None step(1)] by simp
      then have "map_of (snd r') (rf_file_path e) = map_of dir (rf_file_path e)" if "bt_get (rl_entries (fst r')) m = Some e" for m e
        using that drops(4) [of m e] by (auto simp: evicted_def dir_simps map_le_def dom_def split: if_splits)
      then show ?thesis
        using IH drops step(2) by (auto simp: evicted_def drop_entry_keeps intro: map_le_trans simp del: indexed_ok.simps no_strays.simps)
    qed
  qed
qed

lemma evictedD:
  assumes "evicted sha from_cbor r r' res"
  shows "indexed_ok sha from_cbor r'" "bt_get (rl_entries (fst r')) \<subseteq>\<^sub>m bt_get (rl_entries (fst r))"
    and "rl_retained_dir (fst r') = rl_retained_dir (fst r)" "rl_capacity_bytes (fst r') = rl_capacity_bytes (fst r)"
    and "res = Inr () \<Longrightarrow> rl_total_bytes (fst r') \<le> rl_capacity_bytes (fst r')" "res = Inr () \<Longrightarrow> no_strays r \<Longrightarrow> no_strays r'"
    and "newest (fst r) name e \<Longrightarrow> rf_file_size_bytes e \<le> rl_capacity_bytes (fst r) \<Longrightarrow> newest (fst r') name e"
    and "bt_get (rl_entries (fst r')) n = Some e' \<Longrightarrow> map_of (snd r') (rf_file_path e') = map_of (snd r) (rf_file_path e')"
  using assms unfolding evicted_def by blast+

section \<open>Writing and reading back\<close>

text \<open>What is known of the libraries: digests are hexadecimal, and a message decodes to what was encoded.\<close>

definition retained_codec ::
    "(bytes \<Rightarrow> string) \<Rightarrow> (StoredRetainedLog \<Rightarrow> string + bytes) \<Rightarrow> (bytes \<Rightarrow> string + StoredRetainedLog) \<Rightarrow> bool" where
  "retained_codec sha to_cbor from_cbor \<longleftrightarrow>
     (\<forall>b. hex_text (sha b)) \<and> (\<forall>stored payload. to_cbor stored = Inr payload \<longrightarrow> from_cbor payload = Inr stored)"

lemma put_entry_get: "bt_get (rl_entries (put_entry e store)) = (bt_get (rl_entries store))(rf_service_name e \<mapsto> e)"
  by (auto simp: put_entry_def Let_def btree_simps drop_entry_get fun_eq_iff simp del: bt_insert.simps)

lemma put_entry_keeps:
  "rl_retained_dir (put_entry e store) = rl_retained_dir store" "rl_capacity_bytes (put_entry e store) = rl_capacity_bytes store"
  by (simp_all add: put_entry_def Let_def drop_entry_keeps)

lemma put_entry_ok:
  assumes ok: "indexed_ok sha from_cbor (store, dir)" and e: "log_entry_ok sha from_cbor dir' (rf_service_name e) e"
    and others: "\<And>n e'. bt_get (rl_entries store) n = Some e' \<Longrightarrow> n \<noteq> rf_service_name e \<Longrightarrow> log_entry_ok sha from_cbor dir' n e'"
    and "distinct (map fst dir')" "inj_on (file_path_for sha) (insert (rf_service_name e) (dom (bt_get (rl_entries store))))"
    and "rl_total_bytes store + rf_file_size_bytes e \<le> usize_max"
  shows "indexed_ok sha from_cbor (put_entry e store, dir')"
proof -
  let ?store = "drop_entry (rf_service_name e) store"
  have ok1: "indexed_ok sha from_cbor (?store, dir)" by (rule drop_entry_ok [OF ok])
  have none: "bt_get (rl_entries ?store) (rf_service_name e) = None" by (simp add: drop_entry_get)
  have "rl_total_bytes ?store \<le> rl_total_bytes store" by (simp add: drop_entry_def split: option.split)
  then have "usize_saturating_add (rl_total_bytes ?store) (rf_file_size_bytes e) = rl_total_bytes ?store + rf_file_size_bytes e"
    using assms(6) by (simp add: usize_saturating_add_def)
  then have "rl_total_bytes (put_entry e store) = sum_list (map (rf_file_size_bytes \<circ> snd) (rl_entries (put_entry e store)))"
    using ok1 sum_bt_insert [OF none, of rf_file_size_bytes e] by (simp add: put_entry_def Let_def del: bt_insert.simps)
  moreover have "bt_wf (rl_entries (put_entry e store))"
    using ok1 by (simp add: put_entry_def Let_def bt_wf_insert del: bt_insert.simps)
  moreover have "dom (bt_get (rl_entries (put_entry e store))) = insert (rf_service_name e) (dom (bt_get (rl_entries store)))"
    by (simp add: put_entry_get)
  ultimately show ?thesis
    using assms(4,5) e others by (auto simp: put_entry_get split: if_splits)
qed

lemma upsert_outcome:
  assumes codec: "retained_codec (re_sha env) (re_to_cbor env) (re_from_cbor env)"
    and ok: "indexed_ok (re_sha env) (re_from_cbor env) (store, dir)" and strays: "no_strays (store, dir)"
    and name: "\<not> trim_is_empty name" "inj_on (file_path_for (re_sha env)) (insert name (dom (bt_get (rl_entries store))))"
    and payload: "re_to_cbor env (stored_log name events) = Inr payload" "rl_total_bytes store + length payload \<le> usize_max"
    and run: "upsert env name events (store, dir) = (r', Inr ())"
  shows "\<exists>e dir1. evicted (re_sha env) (re_from_cbor env) (put_entry e store, dir1) r' (Inr ()) \<and> no_strays (put_entry e store, dir1) \<and>
    rf_service_name e = name \<and> rf_file_path e = file_path_for (re_sha env) name \<and> rf_file_size_bytes e = length payload \<and>
    rf_updated_at_unix_ms e = re_now_unix_ms env \<and>
    map_of dir1 = (map_of dir)(tmp_path_for env name := None, file_path_for (re_sha env) name \<mapsto> RegularFile payload (re_modified env))"
proof -
  let ?path = "file_path_for (re_sha env) name" and ?tmp = "tmp_path_for env name"
  define e where "e = \<lparr>rf_service_name = name, rf_file_path = ?path, rf_file_size_bytes = length payload,
    rf_updated_at_unix_ms = re_now_unix_ms env\<rparr>"
  define dir1 where "dir1 = dir_set ?path (RegularFile payload (re_modified env)) (dir_del ?tmp dir)"
  have evict: "evict_if_needed env (put_entry e store, dir1) = (r', Inr ())"
    using run payload(1) by (auto simp: upsert_def e_def dir1_def Let_def split: option.splits)
  have map: "map_of dir1 = (map_of dir)(?tmp := None, ?path \<mapsto> RegularFile payload (re_modified env))"
    by (simp add: dir1_def dir_simps)
  have not_tmp: "file_path_for (re_sha env) n \<noteq> ?tmp" for n
    using file_path_not_tmp [of "re_sha env" n] tmp_path_is_tmp [of env name] codec by (auto simp: retained_codec_def)
  have "re_from_cbor env payload = Inr (stored_log name events)" using codec payload(1) by (simp add: retained_codec_def)
  then have entry: "log_entry_ok (re_sha env) (re_from_cbor env) dir1 (rf_service_name e) e"
    using name(1) by (auto simp: log_entry_ok_def file_of_def e_def map stored_log_def)
  have others: "log_entry_ok (re_sha env) (re_from_cbor env) dir1 n e'" if "bt_get (rl_entries store) n = Some e'" "n \<noteq> rf_service_name e" for n e'
  proof -
    have "rf_file_path e' \<noteq> ?path" using indexed_path [OF ok that(1)] that name(2) by (auto simp: e_def inj_on_def dom_def)
    moreover have "rf_file_path e' \<noteq> ?tmp" using indexed_path [OF ok that(1)] not_tmp by simp
    ultimately show ?thesis using ok that(1) by (simp add: dir1_def log_entry_ok_other)
  qed
  have "indexed_ok (re_sha env) (re_from_cbor env) (put_entry e store, dir1)"
    by (rule put_entry_ok [OF ok entry others])
      (use ok name(2) payload(2) in \<open>simp_all add: e_def dir1_def distinct_dir_set distinct_dir_del\<close>)
  from evict_outcome [OF this evict] have "evicted (re_sha env) (re_from_cbor env) (put_entry e store, dir1) r' (Inr ())" .
  moreover have "no_strays (put_entry e store, dir1)"
    using strays indexed_path [OF ok] by (auto simp: put_entry_get map e_def split: if_splits) (metis option.inject)
  ultimately show ?thesis using map by (intro exI [of _ e] exI [of _ dir1]) (simp add: e_def)
qed

section \<open>Starting again\<close>

definition same_file :: "RetainedFileEntry \<Rightarrow> RetainedFileEntry \<Rightarrow> bool" where
  "same_file a b \<longleftrightarrow> rf_service_name a = rf_service_name b \<and> rf_file_path a = rf_file_path b \<and>
     rf_file_size_bytes a = rf_file_size_bytes b"

text \<open>Every entry of \<open>store\<close> is an entry of \<open>old\<close> up to its time.\<close>

definition part_of :: "RetainedFileLogStore \<Rightarrow> RetainedFileLogStore \<Rightarrow> bool" where
  "part_of store old \<longleftrightarrow> (\<forall>n e. bt_get (rl_entries store) n = Some e \<longrightarrow>
     (\<exists>e'. bt_get (rl_entries old) n = Some e' \<and> same_file e e'))"

lemma sum_bt_dom:
  "distinct (map fst m) \<Longrightarrow> sum_list (map (f \<circ> snd) m) = (\<Sum>k \<in> dom (bt_get m). f (the (bt_get m k)))" for f :: "'a \<Rightarrow> nat"
proof (induction m)
  case (Cons x m)
  obtain k v where x: "x = (k, v)" by force
  have "k \<notin> dom (bt_get m)" using Cons.prems x by (simp add: dom_map_of_conv_image_fst)
  moreover from this have "(\<Sum>k' \<in> dom (bt_get m). f (the (((bt_get m)(k \<mapsto> v)) k'))) = (\<Sum>k' \<in> dom (bt_get m). f (the (bt_get m k')))"
    by (intro sum.cong) auto
  moreover have "bt_get (x # m) = (bt_get m)(k \<mapsto> v)" by (auto simp: x)
  ultimately show ?case using Cons.IH Cons.prems by (simp add: x finite_dom_map_of fun_upd_same del: fun_upd_apply map_of.simps)
qed simp

lemma part_of_total:
  assumes "indexed_ok sha from_cbor (store, dir)" "indexed_ok sha from_cbor (old, dir')" "part_of store old"
  shows "rl_total_bytes store \<le> rl_total_bytes old"
    and "dom (bt_get (rl_entries store)) = dom (bt_get (rl_entries old)) \<Longrightarrow> rl_total_bytes store = rl_total_bytes old"
proof -
  let ?size = "\<lambda>store k. rf_file_size_bytes (the (bt_get (rl_entries store) k))"
  have sums: "rl_total_bytes store = (\<Sum>k \<in> dom (bt_get (rl_entries store)). ?size store k)"
      "rl_total_bytes old = (\<Sum>k \<in> dom (bt_get (rl_entries old)). ?size old k)"
    using assms(1,2) by (simp_all add: sum_bt_dom bt_wf_distinct)
  have size: "?size store k = ?size old k" if "k \<in> dom (bt_get (rl_entries store))" for k
    using assms(3) that by (fastforce simp: part_of_def same_file_def)
  have sub: "dom (bt_get (rl_entries store)) \<subseteq> dom (bt_get (rl_entries old))" using assms(3) by (fastforce simp: part_of_def)
  show "rl_total_bytes store \<le> rl_total_bytes old"
    unfolding sums using size sub by (simp add: sum_mono2 finite_dom_map_of)
  show "rl_total_bytes store = rl_total_bytes old" if "dom (bt_get (rl_entries store)) = dom (bt_get (rl_entries old))"
    unfolding sums using size that by simp
qed

text \<open>The state of the loop: \<open>store\<close> indexes those files of \<open>old\<close> that are not in the rest of the listing.\<close>

definition rebuilding ::
    "RetainedEnv \<Rightarrow> RetainedFileLogStore \<Rightarrow> directory \<Rightarrow> directory \<Rightarrow> RetainedFileLogStore \<Rightarrow> bool" where
  "rebuilding env old dir listing store \<longleftrightarrow> indexed_ok (re_sha env) (re_from_cbor env) (store, dir) \<and> part_of store old \<and>
     (\<forall>n e. bt_get (rl_entries old) n = Some e \<longrightarrow>
        (bt_get (rl_entries store) n = None \<longleftrightarrow> rf_file_path e \<in> fst ` set listing))"

lemma rebuilding_put:
  assumes old: "indexed_ok (re_sha env) (re_from_cbor env) (old, dir)" "rl_total_bytes old + rl_total_bytes old \<le> usize_max"
    and e0: "bt_get (rl_entries old) n = Some e0" and same: "same_file e e0"
    and reb: "rebuilding env old dir ((rf_file_path e0, node) # listing) store" and fresh: "rf_file_path e0 \<notin> fst ` set listing"
  shows "rebuilding env old dir listing (put_entry e store)"
proof -
  let ?sha = "re_sha env" and ?from = "re_from_cbor env"
  have ok: "indexed_ok ?sha ?from (store, dir)" and part: "part_of store old" using reb by (simp_all add: rebuilding_def)
  have ok0: "log_entry_ok ?sha ?from dir n e0" using old(1) e0 by simp
  have entry: "log_entry_ok ?sha ?from dir (rf_service_name e) e" and n: "rf_service_name e = n"
    using ok0 same by (auto simp: log_entry_ok_def same_file_def)
  have sub: "insert n (dom (bt_get (rl_entries store))) \<subseteq> dom (bt_get (rl_entries old))" using part e0 by (fastforce simp: part_of_def)
  have inj_old: "inj_on (file_path_for ?sha) (dom (bt_get (rl_entries old)))" using old(1) by simp
  have inj: "inj_on (file_path_for ?sha) (insert (rf_service_name e) (dom (bt_get (rl_entries store))))"
    unfolding n by (rule inj_on_subset [OF inj_old sub])
  have "rf_file_size_bytes e0 \<in> set (map (rf_file_size_bytes \<circ> snd) (rl_entries old))" using map_of_SomeD [OF e0] by force
  from member_le_sum_list [OF this] have "rf_file_size_bytes e0 \<le> rl_total_bytes old" using old(1) by simp
  then have total: "rl_total_bytes store + rf_file_size_bytes e \<le> usize_max"
    using part_of_total(1) [OF ok old(1) part] old(2) same by (simp add: same_file_def)
  have others: "log_entry_ok ?sha ?from dir m e'" if "bt_get (rl_entries store) m = Some e'" for m e' using ok that by simp
  have dist: "distinct (map fst dir)" using ok by simp
  have other: "rf_file_path e' \<noteq> rf_file_path e0" if "bt_get (rl_entries old) m = Some e'" "m \<noteq> n" for m e'
    using that e0 indexed_path [OF old(1)] old(1) by (auto dest: inj_onD)
  have "indexed_ok ?sha ?from (put_entry e store, dir)"
    by (rule put_entry_ok [OF ok entry _ dist inj total]) (rule others)
  then show ?thesis
    using part same e0 n reb fresh other by (auto simp: rebuilding_def put_entry_get part_of_def simp del: indexed_ok.simps)
qed

lemma rebuild_loop_ok:
  assumes faults: "re_fails env = (\<lambda>_. None)" and old: "indexed_ok (re_sha env) (re_from_cbor env) (old, dir)"
    and "rl_total_bytes old + rl_total_bytes old \<le> usize_max"
    and "\<forall>(name, node) \<in> set listing. map_of dir name = Some node \<and>
      (is_retained_store_file name node \<longrightarrow> (\<exists>n e. bt_get (rl_entries old) n = Some e \<and> rf_file_path e = name))"
    and "distinct (map fst listing)" "rebuilding env old dir listing store"
  shows "\<exists>store'. rebuild_loop env i listing (store, dir) = ((store', dir), Inr ()) \<and> rebuilding env old dir [] store' \<and>
    rl_capacity_bytes store' = rl_capacity_bytes store \<and> rl_retained_dir store' = rl_retained_dir store"
  using assms(4-6)
proof (induction listing arbitrary: i store)
  case Nil
  then show ?case by simp
next
  case (Cons x listing)
  obtain name node where x: "x = (name, node)" by force
  have rest: "\<forall>(name, node) \<in> set listing. map_of dir name = Some node \<and>
      (is_retained_store_file name node \<longrightarrow> (\<exists>n e. bt_get (rl_entries old) n = Some e \<and> rf_file_path e = name))"
      "distinct (map fst listing)" "name \<notin> fst ` set listing"
    using Cons.prems(1,2) x by auto
  show ?case
  proof (cases "is_retained_store_file name node")
    case False
    have "rf_file_path e \<noteq> name" if "bt_get (rl_entries old) n = Some e" for n e
    proof
      assume "rf_file_path e = name"
      moreover have "log_entry_ok (re_sha env) (re_from_cbor env) dir n e" using old that by simp
      ultimately show False
        using False Cons.prems(1) x file_path_extension by (auto simp: log_entry_ok_def file_of_def)
    qed
    then have "rebuilding env old dir listing store" using Cons.prems(3) x by (auto simp: rebuilding_def simp del: indexed_ok.simps)
    from Cons.IH [OF rest(1,2) this, of "Suc i"] show ?thesis using False x faults by (cases node) auto
  next
    case True
    then obtain n e0 where e0: "bt_get (rl_entries old) n = Some e0" "rf_file_path e0 = name" using Cons.prems(1) x by auto
    obtain content modified where node: "node = RegularFile content modified" using True by (cases node) auto
    have ok0: "log_entry_ok (re_sha env) (re_from_cbor env) dir n e0" using old e0(1) by simp
    obtain stored where stored: "re_from_cbor env content = Inr stored" "sl_version stored = STORED_RETAINED_LOG_VERSION"
        "sl_service_name stored = n" "\<not> trim_is_empty n" "rf_file_size_bytes e0 = length content" "rf_service_name e0 = n"
      using ok0 e0(2) Cons.prems(1) x node by (auto simp: log_entry_ok_def file_of_def)
    define e where "e = \<lparr>rf_service_name = n, rf_file_path = name, rf_file_size_bytes = length content,
      rf_updated_at_unix_ms = (case modified of Some t \<Rightarrow> t | None \<Rightarrow> re_now_unix_ms env)\<rparr>"
    have step: "rebuild_loop env i (x # listing) (store, dir) = rebuild_loop env (Suc i) listing (put_entry e store, dir)"
      using True x node stored faults by (simp add: stored_service_name_def e_def)
    have same: "same_file e e0" using e0 stored by (simp add: same_file_def e_def)
    have "rebuilding env old dir listing (put_entry e store)"
      by (rule rebuilding_put [OF old assms(3) e0(1) same]) (use Cons.prems(3) x e0(2) rest(3) in simp_all)
    from Cons.IH [OF rest(1,2) this, of "Suc i"] show ?thesis using step by (simp add: put_entry_keeps)
  qed
qed

lemma remove_tmp_ok:
  assumes "re_fails env = (\<lambda>_. None)"
  shows "remove_tmp_entries env retained_dir i listing dir =
    (fold dir_del (filter (contains_text ''.tmp-'') (map fst listing)) dir, Inr ())"
  using assms by (induction listing arbitrary: i dir) auto

lemma fold_dir_del: "map_of (fold dir_del names dir) name = (if name \<in> set names then None else map_of dir name)"
  by (induction names arbitrary: dir) (auto simp: dir_simps)

lemma distinct_fold_del: "distinct (map fst dir) \<Longrightarrow> distinct (map fst (fold dir_del names dir))"
  by (induction names arbitrary: dir) (auto simp: distinct_dir_del)

lemma restart_index:
  assumes codec: "retained_codec (re_sha env) to_cbor (re_from_cbor env)" and faults: "re_fails env = (\<lambda>_. None)"
    and ok: "indexed_ok (re_sha env) (re_from_cbor env) (store, dir)" and strays: "no_strays (store, dir)"
    and cap: "rl_total_bytes store \<le> capacity" "rl_total_bytes store + rl_total_bytes store \<le> usize_max"
  shows "\<exists>store' dir'. retained_store_new env retained_dir capacity dir = ((store', dir'), Inr ()) \<and> part_of store' store \<and>
    dom (bt_get (rl_entries store')) = dom (bt_get (rl_entries store)) \<and>
    indexed_ok (re_sha env) (re_from_cbor env) (store', dir') \<and> no_strays (store', dir') \<and>
    rl_total_bytes store' = rl_total_bytes store \<and> rl_capacity_bytes store' = max capacity 1 \<and>
    rl_retained_dir store' = retained_dir \<and> (\<forall>name. \<not> contains_text ''.tmp-'' name \<longrightarrow> map_of dir' name = map_of dir name)"
proof -
  define dir' where "dir' = fold dir_del (filter (contains_text ''.tmp-'') (map fst dir)) dir"
  have init: "initialize_retained_dir env retained_dir dir = (dir', Inr ())"
    using faults by (simp add: initialize_retained_dir_def remove_tmp_ok dir'_def)
  have dist: "distinct (map fst dir')" using ok by (simp add: dir'_def distinct_fold_del)
  have map: "map_of dir' name = (if contains_text ''.tmp-'' name then None else map_of dir name)" for name
    by (auto simp: dir'_def fold_dir_del map_of_eq_None_iff)
  have not_tmp: "\<not> contains_text ''.tmp-'' (rf_file_path e)" if "bt_get (rl_entries store) n = Some e" for n e
    using indexed_path [OF ok that] file_path_not_tmp [of "re_sha env" n] codec by (simp add: retained_codec_def)
  have ok': "indexed_ok (re_sha env) (re_from_cbor env) (store, dir')"
  proof -
    have "log_entry_ok (re_sha env) (re_from_cbor env) dir' n e" if "bt_get (rl_entries store) n = Some e" for n e
      using ok that not_tmp [OF that] map log_entry_ok_cong [of dir' e dir] by simp
    then show ?thesis using ok dist by simp
  qed
  let ?empty = "\<lparr>rl_retained_dir = retained_dir, rl_capacity_bytes = max capacity 1, rl_total_bytes = 0, rl_entries = []\<rparr>"
  have present: "rf_file_path e \<in> fst ` set dir'" if "bt_get (rl_entries store) n = Some e" for n e
  proof -
    have "log_entry_ok (re_sha env) (re_from_cbor env) dir' n e" using ok' that by simp
    then show ?thesis by (auto simp: log_entry_ok_def file_of_def dest!: map_of_SomeD intro: rev_image_eqI)
  qed
  have listing: "\<forall>(name, node) \<in> set dir'. map_of dir' name = Some node \<and>
      (is_retained_store_file name node \<longrightarrow> (\<exists>n e. bt_get (rl_entries store) n = Some e \<and> rf_file_path e = name))"
  proof clarify
    fix name node assume "(name, node) \<in> set dir'"
    then have get: "map_of dir' name = Some node" using dist by simp
    then have "map_of dir name = Some node" "\<not> contains_text ''.tmp-'' name" using map [of name] by (simp_all split: if_splits)
    then show "map_of dir' name = Some node \<and>
        (is_retained_store_file name node \<longrightarrow> (\<exists>n e. bt_get (rl_entries store) n = Some e \<and> rf_file_path e = name))"
      using get strays unfolding no_strays.simps retained_file_def by blast
  qed
  have "rebuilding env store dir' dir' ?empty"
    using present dist by (simp add: rebuilding_def part_of_def bt_wf_def)
  from rebuild_loop_ok [OF faults ok' cap(2) listing dist this, of 0] obtain store' where
    loop: "rebuild_loop env 0 dir' (?empty, dir') = ((store', dir'), Inr ())" and reb: "rebuilding env store dir' [] store'"
    and cap': "rl_capacity_bytes store' = max capacity 1" "rl_retained_dir store' = retained_dir" by auto
  have part: "part_of store' store" and okr: "indexed_ok (re_sha env) (re_from_cbor env) (store', dir')"
    and all: "\<And>n e. bt_get (rl_entries store) n = Some e \<Longrightarrow> bt_get (rl_entries store') n \<noteq> None"
    using reb unfolding rebuilding_def by simp_all
  have dom: "dom (bt_get (rl_entries store')) = dom (bt_get (rl_entries store))"
    using part all unfolding part_of_def dom_def by blast
  have total: "rl_total_bytes store' = rl_total_bytes store" by (rule part_of_total(2) [OF okr ok' part dom])
  have kept: "\<exists>e'. bt_get (rl_entries store') n = Some e' \<and> rf_file_path e' = rf_file_path e" if "bt_get (rl_entries store) n = Some e" for n e
    using all [OF that] part that unfolding part_of_def same_file_def by fastforce
  have "no_strays (store', dir')"
    unfolding no_strays.simps retained_file_def using listing kept map_of_SomeD [of dir'] by fast
  moreover have "retained_store_new env retained_dir capacity dir = ((store', dir'), Inr ())"
    using init loop faults cap(1) cap' total by (simp add: retained_store_new_def rebuild_index_from_disk_def evict_if_needed.simps)
  ultimately show ?thesis using part dom okr total cap' map by (intro exI [of _ store'] exI [of _ dir']) simp
qed

lemma snapshot_same:
  assumes "re_fails env = (\<lambda>_. None)" "part_of store' store" "dom (bt_get (rl_entries store')) = dom (bt_get (rl_entries store))"
    and "\<And>n e. bt_get (rl_entries store) n = Some e \<Longrightarrow> map_of dir' (rf_file_path e) = map_of dir (rf_file_path e)"
    and "rl_retained_dir store' = rl_retained_dir store"
  shows "retained_snapshot_events env name (store', dir') = retained_snapshot_events env name (store, dir)"
proof (cases "bt_get (rl_entries store) name")
  case None
  then have "bt_get (rl_entries store') name = None" using assms(3) by (metis domIff)
  then show ?thesis using None by (simp add: retained_snapshot_events_def)
next
  case (Some e)
  then obtain e' where e': "bt_get (rl_entries store') name = Some e'" using assms(3) by (metis domIff not_Some_eq)
  then have path: "rf_file_path e' = rf_file_path e" using assms(2) Some unfolding part_of_def same_file_def by fastforce
  show ?thesis unfolding retained_snapshot_events_def prod.case e' Some option.case path assms(1,5) assms(4) [OF Some] ..
qed

lemma snapshot_of_file:
  assumes "re_fails env = (\<lambda>_. None)" "bt_get (rl_entries store) name = Some e"
    and "map_of dir (rf_file_path e) = Some (RegularFile payload modified)" "re_from_cbor env payload = Inr (stored_log name events)"
  shows "retained_snapshot_events env name (store, dir) = Inr (Some events)"
proof -
  have "map (stored_to_event \<circ> (\<lambda>event. \<lparr>se_stream = ev_stream event, se_timestamp_unix_ms = ev_timestamp_unix_ms event,
      se_bytes = ev_bytes event\<rparr>)) events = events"
    by (rule map_idI) (simp add: stored_to_event_def)
  then show ?thesis using assms by (simp add: retained_snapshot_events_def stored_log_def)
qed

section \<open>Properties\<close>

text \<open>
  C27: the logs of a stopped service survive a restart of the daemon, within the capacity. When a snapshot
  was written successfully, it is the newest and fits the capacity, a daemon started later on the
  same directory gives back exactly its events; it gives back the logs of every other service that was
  still indexed, too, and the files it keeps are not larger than the capacity together.
\<close>

theorem retained_logs_survive_restart:
  assumes codec: "retained_codec (re_sha env) (re_to_cbor env) (re_from_cbor env)"
    and ok: "indexed_ok (re_sha env) (re_from_cbor env) (store, dir)" and strays: "no_strays (store, dir)"
    and name: "\<not> trim_is_empty name" "inj_on (file_path_for (re_sha env)) (insert name (dom (bt_get (rl_entries store))))"
    and payload: "re_to_cbor env (stored_log name events) = Inr payload" "length payload \<le> rl_capacity_bytes store"
    and bounds: "rl_total_bytes store + rl_capacity_bytes store \<le> usize_max" "rl_capacity_bytes store + rl_capacity_bytes store \<le> usize_max"
    and newer: "\<And>n e. bt_get (rl_entries store) n = Some e \<Longrightarrow> rf_updated_at_unix_ms e < re_now_unix_ms env"
    and run: "upsert env name events (store, dir) = ((store1, dir1), Inr ())"
    and later: "re_sha env' = re_sha env" "re_from_cbor env' = re_from_cbor env" "re_fails env' = (\<lambda>_. None)"
  shows "\<exists>store2 dir2. retained_store_new env' (rl_retained_dir store) (rl_capacity_bytes store) dir1 = ((store2, dir2), Inr ()) \<and>
    retained_snapshot_events env' name (store2, dir2) = Inr (Some events) \<and>
    (\<forall>n \<in> set (retained_service_names store1) - {name}.
       retained_snapshot_events env' n (store2, dir2) = retained_snapshot_events env' n (store, dir)) \<and>
    rl_total_bytes store2 \<le> rl_capacity_bytes store"
proof -
  let ?sha = "re_sha env" and ?from = "re_from_cbor env"
  from upsert_outcome [OF codec ok strays name payload(1) _ run] payload(2) bounds(1) obtain e mid where
    evict: "evicted ?sha ?from (put_entry e store, mid) (store1, dir1) (Inr ())" and mid_strays: "no_strays (put_entry e store, mid)"
    and e: "rf_service_name e = name" "rf_file_path e = file_path_for ?sha name" "rf_file_size_bytes e = length payload"
      "rf_updated_at_unix_ms e = re_now_unix_ms env"
    and mid: "map_of mid = (map_of dir)(tmp_path_for env name := None, file_path_for ?sha name \<mapsto> RegularFile payload (re_modified env))"
    by auto
  note ev = evictedD [OF evict, unfolded fst_conv snd_conv put_entry_keeps]
  have "newest (put_entry e store) name e" using newer e by (simp add: newest_def put_entry_get)
  then have get: "bt_get (rl_entries store1) name = Some e" using ev(7) [of name e] payload(2) e(3) by (simp add: newest_def)
  have total: "rl_total_bytes store1 \<le> rl_capacity_bytes store" using ev(4,5) by simp
  have codec': "retained_codec (re_sha env') (re_to_cbor env) (re_from_cbor env')" using codec later by simp
  have not_tmp: "\<not> contains_text ''.tmp-'' (file_path_for ?sha n)" for n
    using file_path_not_tmp [of ?sha n] codec by (simp add: retained_codec_def)
  from restart_index [OF codec' later(3), of store1 dir1 "rl_capacity_bytes store" "rl_retained_dir store"] ev(1) ev(6) [OF refl mid_strays] total bounds(2) later(1,2)
  obtain store2 dir2 where new: "retained_store_new env' (rl_retained_dir store) (rl_capacity_bytes store) dir1 = ((store2, dir2), Inr ())"
    and restart: "part_of store2 store1" "dom (bt_get (rl_entries store2)) = dom (bt_get (rl_entries store1))"
      "rl_total_bytes store2 = rl_total_bytes store1" "rl_retained_dir store2 = rl_retained_dir store"
      "\<And>name. \<not> contains_text ''.tmp-'' name \<Longrightarrow> map_of dir2 name = map_of dir1 name"
    by (auto simp del: indexed_ok.simps no_strays.simps)
  have same: "retained_snapshot_events env' n (store2, dir2) = retained_snapshot_events env' n (store1, dir1)" for n
    by (rule snapshot_same [OF later(3) restart(1,2)])
      (simp_all add: restart(4,5) ev(3) indexed_path [OF ev(1)] not_tmp)
  have "re_from_cbor env' payload = Inr (stored_log name events)" using codec payload(1) later(2) by (simp add: retained_codec_def)
  then have "retained_snapshot_events env' name (store1, dir1) = Inr (Some events)"
    using ev(8) [OF get] e(2) mid by (intro snapshot_of_file [OF later(3) get]) simp_all
  moreover have "retained_snapshot_events env' n (store1, dir1) = retained_snapshot_events env' n (store, dir)"
    if n: "n \<in> set (retained_service_names store1) - {name}" for n
  proof -
    obtain e' where e': "bt_get (rl_entries store1) n = Some e'"
      using n by (cases "bt_get (rl_entries store1) n") (auto simp: retained_service_names_def map_of_eq_None_iff)
    then have old: "bt_get (rl_entries store) n = Some e'" using ev(2) n e(1) by (auto simp: map_le_def put_entry_get dom_def)
    have path: "rf_file_path e' = file_path_for ?sha n" by (rule indexed_path [OF ok old])
    moreover have "file_path_for ?sha n \<noteq> file_path_for ?sha name" using name(2) old n by (auto simp: inj_on_def dom_def)
    moreover have "file_path_for ?sha n \<noteq> tmp_path_for env name" using not_tmp [of n] tmp_path_is_tmp [of env name] by auto
    ultimately have same: "map_of dir1 (rf_file_path e') = map_of dir (rf_file_path e')" using ev(8) [OF e'] mid by simp
    show ?thesis unfolding retained_snapshot_events_def prod.case e' old option.case ev(3) same ..
  qed
  ultimately show ?thesis using new same restart(3) total by (intro exI [of _ store2] exI [of _ dir2]) simp
qed

definition example_retained :: RetainedEnv where
  "example_retained =
     \<lparr>re_fails = (\<lambda>_. None), re_partial = None, re_now_unix_ms = 5, re_modified = Some 5, re_uuid = ''u'', re_sha = (\<lambda>_. ''0a''),
      re_to_cbor = (\<lambda>stored. if stored = stored_log ''svc'' [example_event] then Inr [1, 2, 3] else Inl ''unknown''),
      re_from_cbor = (\<lambda>payload. if payload = [1, 2, 3] then Inr (stored_log ''svc'' [example_event]) else Inl ''unknown'')\<rparr>"

theorem retained_logs_survive_restart_witness:
  "\<exists>store1 dir1 store2 dir2.
    upsert example_retained ''svc'' [example_event] (\<lparr>rl_retained_dir = ''/l'', rl_capacity_bytes = 4, rl_total_bytes = 0, rl_entries = []\<rparr>, []) =
      ((store1, dir1), Inr ()) \<and>
    retained_store_new example_retained ''/l'' 4 dir1 = ((store2, dir2), Inr ()) \<and>
    retained_snapshot_events example_retained ''svc'' (store2, dir2) = Inr (Some [example_event])"
proof -
  let ?store = "\<lparr>rl_retained_dir = ''/l'', rl_capacity_bytes = 4, rl_total_bytes = 0, rl_entries = []\<rparr>"
  have "retained_codec (re_sha example_retained) (re_to_cbor example_retained) (re_from_cbor example_retained)"
      "indexed_ok (re_sha example_retained) (re_from_cbor example_retained) (?store, [])" "no_strays (?store, [])" "\<not> trim_is_empty ''svc''"
      "re_to_cbor example_retained (stored_log ''svc'' [example_event]) = Inr [1, 2, 3]"
    by (auto simp: retained_codec_def hex_text_def example_retained_def bt_wf_def)
  moreover obtain store1 dir1 where run: "upsert example_retained ''svc'' [example_event] (?store, []) = ((store1, dir1), Inr ())"
    by (simp add: upsert_def example_retained_def Let_def put_entry_def drop_entry_def usize_saturating_add_def usize_max_def evict_if_needed.simps)
  ultimately show ?thesis
    using retained_logs_survive_restart [of example_retained ?store "[]" "''svc''" "[example_event]" "[1, 2, 3]" store1 dir1 example_retained]
    by (fastforce simp: usize_max_def example_retained_def)
qed

end
