(* ===== verification/Spec2Isabelle.thy ===== *)
theory Spec2Isabelle
  imports Artifact_Upload Deploy_Upload Retained_Logs
begin

text \<open>
  A verification development for imago, a deployment system for WebAssembly services. The command
  line client \<^verbatim>\<open>imago-cli\<close> builds an artifact and uploads it to the daemon \<^verbatim>\<open>imagod\<close>, which stores
  it, runs it in a runner process, and gives out its state and its logs. Client and daemon exchange
  framed CBOR envelopes over the daemon's control socket, over SSH through \<^verbatim>\<open>imagod proxy-stdio\<close>, or
  over QUIC; daemons call each other's services over QUIC.

  \<^bold>\<open>Theories.\<close> Paths are relative to \<^verbatim>\<open>src/crates\<close>.

  \<^item> \<open>Imago_Prelude\<close>: unsigned integers with saturating and checked operations, results, Rust's
    \<open>BTreeMap\<close> as a sorted association list (locale \<open>ordered_map\<close>), blank text and decimal numbers,
    reachability and inductive invariants (locale \<open>inductive_invariant\<close>).
  \<^item> \<open>Rust_Text\<close>, \<open>Public_Keys\<close>: operations of \<open>str\<close> and Unix paths; Ed25519 keys in hexadecimal and in
    certificates.
  \<^item> \<open>Imago_Errors\<close>, \<open>Protocol_Messages\<close>: the error values of \<^verbatim>\<open>imago-protocol\<close> and
    \<^verbatim>\<open>imagod-common\<close>, and every message with its validator (locale \<open>validated_payload\<close>).
  \<^item> \<open>Byte_Ranges\<close>: the received and missing ranges of an upload
    (\<^verbatim>\<open>imagod-control/src/artifact_store/commit.rs\<close>; locale \<open>upload_ledger\<close>).
  \<^item> \<open>Artifact_Store\<close>: the store of uploaded artifacts (\<^verbatim>\<open>imagod-control/src/artifact_store.rs\<close>). Each
    operation is given as its locked sections and the file accesses between them, and as a whole.
  \<^item> \<open>Artifact_Upload\<close>: the sections of any number of concurrent tasks interleaved, as an inductive
    step relation with an invariant.
  \<^item> \<open>Artifact_Progress\<close>: one upload followed through \<open>prepare\<close>, \<open>push\<close> and \<open>commit\<close> of a store that
    holds other sessions too.
  \<^item> \<open>Operation_State\<close>, \<open>Command_Start\<close>: the table of running commands
    (\<^verbatim>\<open>imagod-control/src/operation_state.rs\<close>) and the handler of \<^verbatim>\<open>command.start\<close>
    (\<^verbatim>\<open>imagod-server/src/protocol_handler/router.rs\<close>) as a program counter with one step per suspension
    point, interleaved with cancel and state requests.
  \<^item> \<open>Frame_Codec\<close>, \<open>Framed_Streams\<close>: the length-prefixed frames and their three codecs (locale
    \<open>frame_codec\<close>), and every reader and writer of the control socket, the proxy, the client and the
    channel between manager and runner (locales \<open>framed_reader\<close> and \<open>terminated_reader\<close>).
  \<^item> \<open>Log_Buffer\<close>, \<open>Log_Forwarding\<close>: the bounded log of a service
    (\<^verbatim>\<open>imagod-control/src/service_supervisor/log_buffer.rs\<close>), the forwarder
    (\<^verbatim>\<open>imagod-server/src/protocol_handler/logs_forwarder.rs\<close>; locale \<open>log_sender\<close>) and the client's
    rendering (\<^verbatim>\<open>imago-cli/src/commands/logs/mod.rs\<close>).
  \<^item> \<open>Retained_Logs\<close>: the files in which the logs of stopped services are kept, their index, its
    eviction and its rebuilding when the daemon starts
    (\<^verbatim>\<open>imagod-control/src/service_supervisor/retained_file_store.rs\<close>).
  \<^item> \<open>Daemon_Config\<close>: the configuration file (\<^verbatim>\<open>imagod-config\<close>): decoding, defaults, validation, first
    boot, and the updates of the key lists with every system call that may fail.
  \<^item> \<open>Access_Control\<close>, \<open>Protocol_Router\<close>: roles and keys, the handler of every request and their
    composition over one daemon state, from what is read from a stream to the envelopes written on it
    (\<^verbatim>\<open>imagod-server/src/protocol_handler\<close>).
  \<^item> \<open>Upload_Client\<close>: the upload phase of the client (\<^verbatim>\<open>imago-cli/src/commands/deploy/mod.rs\<close>) over a
    transport that may fail; what it needs of a daemon is the locale \<open>upload_service\<close>.
  \<^item> \<open>Deploy_Upload\<close>: client and daemon joined by a link that loses requests and answers; the
    interpretation \<open>link\<close> shows that the daemon keeps the client's contract.

  \<^bold>\<open>Conventions.\<close> \<open>u64\<close> and \<open>u32\<close> are words, \<open>usize\<close> is a natural number (allocations stay below the
  address space), texts are lists of UTF-8 bytes, \<open>Result\<close> is a sum with the error on the left, a lock
  section is a function on the locked state, and an \<open>await\<close> between two sections is a step boundary.
  The clock, UUIDs, SHA-256, CBOR, JSON, TOML, TLS, and the outcomes of system calls are parameters; what is
  assumed of them is named in the statements (\<open>json_faithful\<close>, \<open>toml_round_trip\<close>, \<open>io_works\<close>, \<open>cbor_sizes\<close>, \<open>retained_codec\<close>), and the
  witnesses instantiate them.

  \<^bold>\<open>What is shown.\<close> A committed artifact has the digest it was committed with along every
  interleaving, uploads finish despite lost messages with the client's bytes in the store, cleanup
  removes only idle sessions and their files, and the progress of an upload depends only on the bytes
  received. A granted cancel excludes the execution of the command, and a command ends with exactly one
  terminal event. All codecs and transports agree, the proxy is transparent, and requests are answered
  with their own identifiers, or with an error under new ones when they cannot be read. The log buffer
  keeps the last bytes, forwarded logs arrive in order and are rendered independently of their chunks,
  and the logs of stopped services survive a restart of the daemon. A peer on the network cannot change the daemon, an
  uploaded key is admitted now and after a restart, and the configuration file is never left half
  written. Three theorems describe behaviour that is not intended: changed requests that the
  fingerprint of a prepare does not detect, files kept after a failed push, and operations that are
  never released.

  \<^bold>\<open>Termination and bounds.\<close> Every loop is a total function, except the plan of upload chunks, which
  would not end for chunks of no bytes and is a partial function shown to be defined. Retries are
  bounded by the constants of the source.

  \<^bold>\<open>Not modelled.\<close> The orchestrator's release directories and the supervisor's runner processes appear
  through their answers only. The WebAssembly runtime, the native plugins and the TLS and QUIC stacks
  are calls into libraries and hardware. The client's build, update, init, compose and certificate
  commands, the lock file and the dependency cache work on project files and registries and do not
  touch the daemon; the release tool \<^verbatim>\<open>tools/prup\<close> is not part of the deployed system.
\<close>

end
